(* ===== verification/Raft_Prelude.thy ===== *)
theory Raft_Prelude
  imports Main "HOL-Library.Sublist" "HOL-Library.Multiset" "HOL-Library.Code_Target_Nat"
begin

text \<open>
  Shared vocabulary of the development: the fault type that stands for an abort, an
  uncaught exception or an out-of-bounds access of the C++ program, the result type of
  every operation that can fault, unsigned 64-bit subtraction, and the ordered containers
  (\<^verbatim>\<open>std::map\<close>, \<^verbatim>\<open>std::set\<close>) as key-sorted lists, with the lemmas the components use.
\<close>

section \<open>Faults and results\<close>

text \<open>
  The build keeps \<^verbatim>\<open>assert\<close> active in every configuration (the top-level build file drops
  \<^verbatim>\<open>-DNDEBUG\<close> on purpose), so a failing assertion ends the process. \<open>AssertFailed\<close> is
  that end; \<open>OutOfRange\<close> is the exception \<^verbatim>\<open>std::map::at\<close> throws; \<open>OutOfBounds\<close> is a
  read or a write outside an array or a mapped file; \<open>RuntimeError\<close> is an explicit
  \<^verbatim>\<open>throw std::runtime_error\<close>, \<^verbatim>\<open>abort()\<close> or \<^verbatim>\<open>exit(1)\<close>; \<open>InvalidArgument\<close> is what
  \<^verbatim>\<open>std::stoi\<close> and \<^verbatim>\<open>std::stoull\<close> throw on a string that is not a number.
\<close>

datatype fault = AssertFailed | OutOfRange | OutOfBounds | RuntimeError | InvalidArgument

type_synonym 'a res = "fault + 'a"

named_theorems res_simps \<open>how results compose\<close>

definition bindR :: "'a res \<Rightarrow> ('a \<Rightarrow> 'b res) \<Rightarrow> 'b res" where
  "bindR m f = (case m of Inl e \<Rightarrow> Inl e | Inr a \<Rightarrow> f a)"

definition ensure :: "bool \<Rightarrow> 'a res \<Rightarrow> 'a res" where
  "ensure b m = (if b then m else Inl AssertFailed)"

lemma bindR_Inr [simp, res_simps]: "bindR (Inr a) f = f a"
  by (simp add: bindR_def)

lemma bindR_Inl [simp, res_simps]: "bindR (Inl e) f = Inl e"
  by (simp add: bindR_def)

lemma bindR_eq_Inr [simp, res_simps]: "bindR m f = Inr b \<longleftrightarrow> (\<exists>a. m = Inr a \<and> f a = Inr b)"
  by (cases m) auto

lemma bindR_eq_Inl [res_simps]:
  "bindR m f = Inl e \<longleftrightarrow> m = Inl e \<or> (\<exists>a. m = Inr a \<and> f a = Inl e)"
  by (cases m) auto

lemma bindR_assoc: "bindR (bindR m f) g = bindR m (\<lambda>a. bindR (f a) g)"
  by (cases m) auto

lemma bindR_cong [fundef_cong]:
  "m = m' \<Longrightarrow> (\<And>a. m' = Inr a \<Longrightarrow> f a = f' a) \<Longrightarrow> bindR m f = bindR m' f'"
  by (cases m') auto

lemma ensure_True [simp, res_simps]: "ensure True m = m"
  by (simp add: ensure_def)

lemma ensure_False [simp, res_simps]: "ensure False m = Inl AssertFailed"
  by (simp add: ensure_def)

lemma ensure_eq_Inr [simp, res_simps]: "ensure b m = Inr a \<longleftrightarrow> b \<and> m = Inr a"
  by (simp add: ensure_def)

lemma ensure_cong [fundef_cong]:
  "b = b' \<Longrightarrow> (b' \<Longrightarrow> m = m') \<Longrightarrow> ensure b m = ensure b' m'"
  by (simp add: ensure_def)

text \<open>
  The elimination rules for an operation that returned: \<open>elim resE\<close> walks through the body
  of the operation, one case for every path that does not fault.
\<close>

named_theorems resE \<open>paths of an operation that returned\<close>

lemma bindR_resE [resE]: "bindR m f = Inr b \<Longrightarrow> (\<And>a. m = Inr a \<Longrightarrow> f a = Inr b \<Longrightarrow> P) \<Longrightarrow> P"
  by auto

lemma ensure_resE [resE]: "ensure c m = Inr b \<Longrightarrow> (c \<Longrightarrow> m = Inr b \<Longrightarrow> P) \<Longrightarrow> P"
  by auto

lemma if_resE [resE]:
  "(if c then m else m') = Inr b \<Longrightarrow> (c \<Longrightarrow> m = Inr b \<Longrightarrow> P) \<Longrightarrow> (\<not> c \<Longrightarrow> m' = Inr b \<Longrightarrow> P) \<Longrightarrow> P"
  by (cases c) auto

lemma Let_resE [resE]: "Let e f = Inr b \<Longrightarrow> (f e = Inr b \<Longrightarrow> P) \<Longrightarrow> P"
  by simp

lemma prod_resE [resE]: "case_prod f p = Inr b \<Longrightarrow> (\<And>x y. p = (x, y) \<Longrightarrow> f x y = Inr b \<Longrightarrow> P) \<Longrightarrow> P"
  by (cases p) auto

lemma option_resE [resE]:
  "(case x of None \<Rightarrow> m | Some y \<Rightarrow> f y) = Inr b \<Longrightarrow> (x = None \<Longrightarrow> m = Inr b \<Longrightarrow> P) \<Longrightarrow>
   (\<And>y. x = Some y \<Longrightarrow> f y = Inr b \<Longrightarrow> P) \<Longrightarrow> P"
  by (cases x) auto

lemma list_resE [resE]:
  "(case x of [] \<Rightarrow> m | y # ys \<Rightarrow> f y ys) = Inr b \<Longrightarrow> (x = [] \<Longrightarrow> m = Inr b \<Longrightarrow> P) \<Longrightarrow>
   (\<And>y ys. x = y # ys \<Longrightarrow> f y ys = Inr b \<Longrightarrow> P) \<Longrightarrow> P"
  by (cases x) auto

lemma Inl_resE [resE]: "Inl e = Inr b \<Longrightarrow> P"
  by simp

lemma Inr_resE [resE]: "Inr a = Inr b \<Longrightarrow> (a = b \<Longrightarrow> P) \<Longrightarrow> P"
  by simp

text \<open>A loop over a list whose body may fault, and \<^verbatim>\<open>std::map::at\<close>.\<close>

fun foldR :: "('a \<Rightarrow> 's \<Rightarrow> 's res) \<Rightarrow> 'a list \<Rightarrow> 's \<Rightarrow> 's res" where
  "foldR f [] s = Inr s"
| "foldR f (x # xs) s = bindR (f x s) (foldR f xs)"

lemma foldR_append: "foldR f (xs @ ys) s = bindR (foldR f xs s) (foldR f ys)"
  by (induction xs arbitrary: s) (auto simp: bindR_assoc intro: bindR_cong)

lemma foldR_invariant:
  assumes "foldR f xs s = Inr t" and "P s"
    and "\<And>x u v. x \<in> set xs \<Longrightarrow> P u \<Longrightarrow> f x u = Inr v \<Longrightarrow> P v"
  shows "P t"
  using assms by (induction xs arbitrary: s) auto

definition atR :: "('k \<times> 'v) list \<Rightarrow> 'k \<Rightarrow> 'v res" where
  "atR m k = (case map_of m k of None \<Rightarrow> Inl OutOfRange | Some v \<Rightarrow> Inr v)"

lemma atR_eq_Inr [simp]: "atR m k = Inr v \<longleftrightarrow> map_of m k = Some v"
  by (auto simp: atR_def split: option.splits)

lemma atR_Some: "map_of m k = Some v \<Longrightarrow> atR m k = Inr v"
  by simp

text \<open>An unchecked array read, \<^verbatim>\<open>operator[]\<close> of a vector.\<close>

definition vec_at :: "'a list \<Rightarrow> nat \<Rightarrow> 'a res" where
  "vec_at xs i = (if i < length xs then Inr (xs ! i) else Inl OutOfBounds)"

lemma vec_at_eq_Inr [simp]: "vec_at xs i = Inr x \<longleftrightarrow> i < length xs \<and> xs ! i = x"
  by (auto simp: vec_at_def)

section \<open>Configuration files\<close>

text \<open>
  The INI parser is a third-party library: a value of it is what its three getters return
  for a section, a name and a default.
\<close>

record ini_reader =
  ini_GetInteger :: "string \<Rightarrow> string \<Rightarrow> int \<Rightarrow> int"
  ini_GetBoolean :: "string \<Rightarrow> string \<Rightarrow> bool \<Rightarrow> bool"
  ini_Get :: "string \<Rightarrow> string \<Rightarrow> string \<Rightarrow> string"

section \<open>Unsigned 64-bit subtraction\<close>

text \<open>
  Indices, terms, sizes and nanosecond timestamps are \<^verbatim>\<open>uint64_t\<close>. They are counters that
  grow by one (or by the length of a batch in memory) and are modelled as \<^typ>\<open>nat\<close>; none of
  them can reach \<open>2 ^ 64\<close> by counting. Subtraction is where the width shows: it wraps below
  zero, so every subtraction whose operands the code does not compare first is \<open>sub64\<close>.
\<close>

definition sub64 :: "nat \<Rightarrow> nat \<Rightarrow> nat" where
  "sub64 a b = (if b \<le> a then a - b else 2 ^ 64 + a - b)"

lemma sub64_le [simp]: "b \<le> a \<Longrightarrow> sub64 a b = a - b"
  by (simp add: sub64_def)

lemma sub64_wraps: "a < b \<Longrightarrow> sub64 a b = 2 ^ 64 + a - b"
  by (simp add: sub64_def)

lemma sub64_bound: "a < 2 ^ 64 \<Longrightarrow> sub64 a b < 2 ^ 64"
  by (auto simp: sub64_def)

text \<open>Conversions to narrower or unsigned types.\<close>

definition uint32 :: "nat \<Rightarrow> nat" where
  "uint32 n = n mod 2 ^ 32"

definition to_uint64 :: "int \<Rightarrow> nat" where
  "to_uint64 i = nat (i mod 2 ^ 64)"

definition uint64_max :: nat where
  "uint64_max = 2 ^ 64 - 1"

lemma uint32_id [simp]: "n < 2 ^ 32 \<Longrightarrow> uint32 n = n"
  by (simp add: uint32_def)

lemma uint32_bound [simp]: "uint32 n < 2 ^ 32"
  by (simp add: uint32_def)

lemma to_uint64_nonneg: "0 \<le> i \<Longrightarrow> i < 2 ^ 64 \<Longrightarrow> int (to_uint64 i) = i"
  by (simp add: to_uint64_def)

section \<open>Ordered maps and sets\<close>

text \<open>
  \<^verbatim>\<open>std::map\<close> iterates in key order. It is a list of pairs with strictly increasing keys;
  \<open>om_upd\<close> is \<^verbatim>\<open>m[k] = v\<close>, \<^const>\<open>map_of\<close> is \<^verbatim>\<open>find\<close>, \<open>om_erase\<close> is
  \<^verbatim>\<open>erase(k)\<close>. \<^verbatim>\<open>std::set\<close> is a strictly increasing list with \<^const>\<open>insort_insert\<close>.
\<close>

named_theorems om_simps \<open>ordered maps\<close>

abbreviation om_ok :: "('k::linorder \<times> 'v) list \<Rightarrow> bool" where
  "om_ok m \<equiv> sorted_wrt (<) (map fst m)"

fun om_upd :: "'k::linorder \<Rightarrow> 'v \<Rightarrow> ('k \<times> 'v) list \<Rightarrow> ('k \<times> 'v) list" where
  "om_upd k v [] = [(k, v)]"
| "om_upd k v ((k', v') # m) =
     (if k < k' then (k, v) # (k', v') # m
      else if k = k' then (k, v) # m
      else (k', v') # om_upd k v m)"

definition om_erase :: "'k \<Rightarrow> ('k \<times> 'v) list \<Rightarrow> ('k \<times> 'v) list" where
  "om_erase k m = filter (\<lambda>p. fst p \<noteq> k) m"

lemma map_of_om_upd [simp, om_simps]: "map_of (om_upd k v m) = (map_of m)(k \<mapsto> v)"
  by (induction m) (auto simp: fun_eq_iff)

lemma keys_om_upd [simp, om_simps]: "fst ` set (om_upd k v m) = insert k (fst ` set m)"
  by (induction k v m rule: om_upd.induct) (simp_all add: insert_commute)

lemma om_upd_nonempty [simp]: "om_upd k v m \<noteq> []"
  by (cases "(k, v, m)" rule: om_upd.cases) auto

lemma om_ok_upd [simp, intro]: "om_ok m \<Longrightarrow> om_ok (om_upd k v m)"
proof (induction m)
  case (Cons p m)
  obtain k' v' where p: "p = (k', v')" by fastforce
  have "\<forall>x \<in> fst ` set (om_upd k v m). k' < x" if "k' < k"
    using Cons.prems that by (simp only: keys_om_upd) (simp add: p)
  with Cons show ?case by (auto simp: p)
qed simp

lemma om_ok_distinct: "om_ok m \<Longrightarrow> distinct (map fst m)"
  by (simp add: strict_sorted_iff)

lemma map_of_om_erase [simp, om_simps]: "map_of (om_erase k m) = (map_of m)(k := None)"
  by (induction m) (auto simp: om_erase_def fun_eq_iff)

lemma om_ok_erase [simp, intro]: "om_ok m \<Longrightarrow> om_ok (om_erase k m)"
  by (induction m) (auto simp: om_erase_def)

lemma keys_om_erase [simp, om_simps]: "fst ` set (om_erase k m) = fst ` set m - {k}"
  by (auto simp: om_erase_def)

text \<open>Updating every value in place keeps the keys (a loop over \<^verbatim>\<open>auto &p : m\<close>).\<close>

definition om_map :: "('v \<Rightarrow> 'w) \<Rightarrow> ('k \<times> 'v) list \<Rightarrow> ('k \<times> 'w) list" where
  "om_map f m = map (\<lambda>(k, v). (k, f v)) m"

lemma om_map_keys [simp, om_simps]: "map fst (om_map f m) = map fst m"
  by (auto simp: om_map_def)

lemma set_om_map [simp, om_simps]: "set (om_map f m) = (\<lambda>(k, v). (k, f v)) ` set m"
  by (simp add: om_map_def)

lemma map_of_om_map [simp, om_simps]: "map_of (om_map f m) k = map_option f (map_of m k)"
  by (induction m) (auto simp: om_map_def)

section \<open>Lists\<close>

lemma take_nth_eqI:
  assumes "n \<le> length xs" "n \<le> length ys" "\<And>i. i < n \<Longrightarrow> xs ! i = ys ! i"
  shows "take n xs = take n ys"
  using assms by (intro nth_equalityI) auto

lemma sum_list_take_le: "sum_list (map (f :: 'a \<Rightarrow> nat) (take n xs)) \<le> sum_list (map f xs)"
  by (metis append_take_drop_id le_add1 map_append sum_list_append)

end
