(* ===== verification/Log_Store.thy ===== *)
theory Log_Store
  imports Raft_Prelude
begin

text \<open>
  The storage interface of the consensus module: the log entry of
  \<^verbatim>\<open>raft.proto\<close>, the abstract class \<^verbatim>\<open>Log\<close> (its virtual methods as a record of
  functions, so that a client is written against the interface and either implementation
  can be plugged in), the abstract log it promises, and the contract as a locale.
\<close>

section \<open>Log entries\<close>

text \<open>
  \<open>le_version\<close> is \<^verbatim>\<open>version().secret_key_version()\<close>; a byte string is a
  \<^typ>\<open>string\<close>, whose characters are bytes.
\<close>

record log_entry =
  le_term :: nat
  le_index :: nat
  le_noop :: bool
  le_checksum :: nat
  le_payload :: string
  le_version :: nat
  le_specialTag :: "(nat \<times> string) option"

text \<open>\<^verbatim>\<open>SecretKey::kInvalidSecKeyVersion\<close> and \<^verbatim>\<open>SecretKey::kOldestSecKeyVersion\<close>.\<close>

definition kInvalidSecKeyVersion :: nat where "kInvalidSecKeyVersion = 0"

definition kOldestSecKeyVersion :: nat where "kOldestSecKeyVersion = 1"

text \<open>A run of entries whose indices are \<open>n\<close>, \<open>n + 1\<close>, and so on.\<close>

fun consec :: "nat \<Rightarrow> log_entry list \<Rightarrow> bool" where
  "consec n [] \<longleftrightarrow> True"
| "consec n (e # es) \<longleftrightarrow> le_index e = n \<and> consec (Suc n) es"

lemma consec_nth: "consec n es \<Longrightarrow> j < length es \<Longrightarrow> le_index (es ! j) = n + j"
  by (induction n es arbitrary: j rule: consec.induct) (auto simp: nth_Cons split: nat.splits)

lemma consec_append [simp]: "consec n (xs @ ys) \<longleftrightarrow> consec n xs \<and> consec (n + length xs) ys"
  by (induction n xs rule: consec.induct) auto

lemma consec_take [intro]: "consec n es \<Longrightarrow> consec n (take k es)"
  by (metis append_take_drop_id consec_append)

lemma consec_drop: "consec n es \<Longrightarrow> k \<le> length es \<Longrightarrow> consec (n + k) (drop k es)"
  by (metis append_take_drop_id consec_append length_take min.absorb2)

lemma consec_iff_nth: "consec n es \<longleftrightarrow> (\<forall>j < length es. le_index (es ! j) = n + j)"
proof (induction es arbitrary: n)
  case (Cons e es)
  show ?case
    by (simp add: Cons.IH All_less_Suc2)
qed simp

section \<open>The abstract log\<close>

text \<open>
  What a \<^verbatim>\<open>Log\<close> means to its clients: the layout comment of \<^verbatim>\<open>Log.h\<close> says
  \<^verbatim>\<open>[mFirstIndex, mLastIndex]\<close> with \<^verbatim>\<open>mLastIndex = mFirstIndex - 1\<close> for the empty log.
  The last index is therefore determined by the first one and the entries held.
\<close>

record alog =
  al_first :: nat
  al_entries :: "log_entry list"
  al_term :: nat
  al_vote :: nat

named_theorems alog_defs \<open>the operations of the abstract log\<close>

definition al_last :: "alog \<Rightarrow> nat" where
  "al_last a = al_first a + length (al_entries a) - 1"

definition al_has :: "alog \<Rightarrow> nat \<Rightarrow> bool" where
  "al_has a i \<longleftrightarrow> al_first a \<le> i \<and> i \<le> al_last a"

definition al_at :: "alog \<Rightarrow> nat \<Rightarrow> log_entry" where
  "al_at a i = al_entries a ! (i - al_first a)"

definition alog_wf :: "alog \<Rightarrow> bool" where
  "alog_wf a \<longleftrightarrow> 1 \<le> al_first a \<and> consec (al_first a) (al_entries a)"

definition al_append :: "log_entry list \<Rightarrow> alog \<Rightarrow> alog" where
  [alog_defs]: "al_append es a = a\<lparr>al_entries := al_entries a @ es\<rparr>"

definition al_truncateSuffix :: "nat \<Rightarrow> alog \<Rightarrow> alog" where
  [alog_defs]: "al_truncateSuffix k a =
     (if al_last a \<le> k then a
      else if k < al_first a then a\<lparr>al_first := k + 1, al_entries := []\<rparr>
      else a\<lparr>al_entries := take (k - al_first a + 1) (al_entries a)\<rparr>)"

definition al_truncatePrefix :: "nat \<Rightarrow> alog \<Rightarrow> alog" where
  [alog_defs]: "al_truncatePrefix k a =
     (if k \<le> al_first a then a
      else if al_last a < k then a\<lparr>al_first := k, al_entries := []\<rparr>
      else a\<lparr>al_first := k, al_entries := drop (k - al_first a) (al_entries a)\<rparr>)"

lemma al_has_iff: "alog_wf a \<Longrightarrow> al_has a i \<longleftrightarrow> al_first a \<le> i \<and> i < al_first a + length (al_entries a)"
  by (auto simp: al_has_def al_last_def alog_wf_def)

lemma al_at_index: "alog_wf a \<Longrightarrow> al_has a i \<Longrightarrow> le_index (al_at a i) = i"
  by (auto simp: al_has_iff al_at_def alog_wf_def dest: consec_nth[where j = "i - al_first a"])

lemma alog_wf_append [simp]: "alog_wf (al_append es a) \<longleftrightarrow> alog_wf a \<and> consec (al_last a + 1) es"
  by (auto simp: alog_wf_def al_append_def al_last_def)

lemma alog_wf_truncateSuffix [intro]: "alog_wf a \<Longrightarrow> alog_wf (al_truncateSuffix k a)"
  by (auto simp: alog_wf_def al_truncateSuffix_def)

lemma alog_wf_truncatePrefix [intro]: "alog_wf a \<Longrightarrow> alog_wf (al_truncatePrefix k a)"
  using consec_drop[of "al_first a" "al_entries a" "k - al_first a"]
  by (auto simp: alog_wf_def al_truncatePrefix_def al_last_def)

lemma al_first_append [simp]: "al_first (al_append es a) = al_first a"
  and al_term_append [simp]: "al_term (al_append es a) = al_term a"
  and al_vote_append [simp]: "al_vote (al_append es a) = al_vote a"
  and al_entries_append [simp]: "al_entries (al_append es a) = al_entries a @ es"
  by (simp_all add: al_append_def)

lemma al_append_Nil [simp]: "al_append [] a = a"
  by (simp add: al_append_def)

lemma al_append_append: "al_append es' (al_append es a) = al_append (es @ es') a"
  by (simp add: al_append_def)

lemma al_last_append: "alog_wf a \<Longrightarrow> al_last (al_append es a) = al_last a + length es"
  by (simp add: al_last_def alog_wf_def)

lemma al_term_truncateSuffix [simp]: "al_term (al_truncateSuffix k a) = al_term a"
  and al_vote_truncateSuffix [simp]: "al_vote (al_truncateSuffix k a) = al_vote a"
  and al_term_truncatePrefix [simp]: "al_term (al_truncatePrefix k a) = al_term a"
  and al_vote_truncatePrefix [simp]: "al_vote (al_truncatePrefix k a) = al_vote a"
  by (simp_all add: alog_defs)

lemma al_first_truncateSuffix:
  "al_first a \<le> k + 1 \<Longrightarrow> al_first (al_truncateSuffix k a) = al_first a"
  by (simp add: al_truncateSuffix_def)

lemma al_last_truncateSuffix:
  "alog_wf a \<Longrightarrow> al_last (al_truncateSuffix k a) = min k (al_last a)"
  by (auto simp: al_truncateSuffix_def al_last_def alog_wf_def)

lemma al_at_append:
  "alog_wf a \<Longrightarrow> al_has a i \<Longrightarrow> al_at (al_append es a) i = al_at a i"
  by (auto simp: al_at_def al_has_iff nth_append alog_wf_def)

lemma al_has_append: "alog_wf a \<Longrightarrow> al_has a i \<Longrightarrow> al_has (al_append es a) i"
  by (auto simp: al_has_def al_last_def)

lemma al_at_truncateSuffix:
  "alog_wf a \<Longrightarrow> al_has a i \<Longrightarrow> i \<le> k \<Longrightarrow> al_at (al_truncateSuffix k a) i = al_at a i"
  by (auto simp: al_at_def al_truncateSuffix_def al_has_def)

lemma al_has_truncateSuffix:
  "alog_wf a \<Longrightarrow> al_has a i \<Longrightarrow> i \<le> k \<Longrightarrow> al_has (al_truncateSuffix k a) i"
  by (auto simp: al_has_def al_truncateSuffix_def al_last_def)

lemma al_at_truncatePrefix:
  "alog_wf a \<Longrightarrow> al_has a i \<Longrightarrow> k \<le> i \<Longrightarrow> al_at (al_truncatePrefix k a) i = al_at a i"
  by (auto simp: al_at_def al_truncatePrefix_def al_has_def nth_drop al_last_def alog_wf_def)

text \<open>
  The reference for a bounded batch read: the longest run from the start of the list whose
  total size stays within the budget.
\<close>

fun take_fit :: "(log_entry \<Rightarrow> nat) \<Rightarrow> nat \<Rightarrow> log_entry list \<Rightarrow> log_entry list" where
  "take_fit bs m [] = []"
| "take_fit bs m (e # es) = (if bs e > m then [] else e # take_fit bs (m - bs e) es)"

lemma take_fit_prefix: "prefix (take_fit bs m es) es"
  by (induction bs m es rule: take_fit.induct) auto

lemma take_fit_size: "sum_list (map bs (take_fit bs m es)) \<le> m"
  by (induction bs m es rule: take_fit.induct) auto

lemma take_fit_length: "length (take_fit bs m es) \<le> length es"
  using take_fit_prefix prefix_length_le by blast

lemma take_fit_eq_take: "take_fit bs m es = take (length (take_fit bs m es)) es"
  by (metis append_eq_conv_conj prefixE take_fit_prefix)

lemma take_fit_maximal:
  "n \<le> length es \<Longrightarrow> sum_list (map bs (take n es)) \<le> m \<Longrightarrow> n \<le> length (take_fit bs m es)"
  by (induction bs m es arbitrary: n rule: take_fit.induct) (auto simp: take_Cons split: nat.splits)

section \<open>The interface\<close>

text \<open>
  The virtual methods of \<^verbatim>\<open>class Log\<close>. A method that can abort returns a \<^typ>\<open>'a res\<close>; one
  that reads entries also returns the log, because the file-backed log caches the key
  version it used last. The out-parameter of \<^verbatim>\<open>getEntries\<close> is the list in its result,
  next to the number the method returns.
\<close>

record 'l log_ops =
  lo_getLatestSecKeyVersion :: "'l \<Rightarrow> nat"
  lo_appendEntry :: "log_entry \<Rightarrow> 'l \<Rightarrow> ('l \<times> bool) res"
  lo_appendEntries :: "log_entry list \<Rightarrow> 'l \<Rightarrow> ('l \<times> bool) res"
  lo_getEntry :: "nat \<Rightarrow> 'l \<Rightarrow> ('l \<times> log_entry option) res"
  lo_getTerm :: "nat \<Rightarrow> 'l \<Rightarrow> nat option res"
  lo_getEntries :: "nat \<Rightarrow> nat \<Rightarrow> nat \<Rightarrow> 'l \<Rightarrow> ('l \<times> nat \<times> log_entry list) res"
  lo_truncatePrefix :: "nat \<Rightarrow> 'l \<Rightarrow> 'l res"
  lo_truncateSuffix :: "nat \<Rightarrow> 'l \<Rightarrow> 'l res"
  lo_getFirstLogIndex :: "'l \<Rightarrow> nat"
  lo_getLastLogIndex :: "'l \<Rightarrow> nat"
  lo_setCurrentTerm :: "nat \<Rightarrow> 'l \<Rightarrow> 'l"
  lo_setVoteFor :: "nat \<Rightarrow> 'l \<Rightarrow> 'l"
  lo_getCurrentTerm :: "'l \<Rightarrow> nat"
  lo_getVote :: "'l \<Rightarrow> nat"

text \<open>\<^verbatim>\<open>Log::isEmpty\<close>.\<close>

definition log_isEmpty :: "nat \<Rightarrow> nat \<Rightarrow> bool" where
  "log_isEmpty firstIndex lastIndex \<longleftrightarrow> lastIndex = sub64 firstIndex 1"

text \<open>\<^verbatim>\<open>Log::getLogTerm\<close> and \<^verbatim>\<open>RaftCore::termOfLogEntryAt\<close>: the term, or an abort.\<close>

definition getLogTerm :: "'l log_ops \<Rightarrow> nat \<Rightarrow> 'l \<Rightarrow> nat res" where
  "getLogTerm ops i l =
     bindR (lo_getTerm ops i l) (\<lambda>t. case t of None \<Rightarrow> Inl AssertFailed | Some x \<Rightarrow> Inr x)"

text \<open>
  The contract. \<open>abs\<close> reads an implementation state as an abstract log, \<open>inv\<close> is its
  representation invariant. The laws are about calls that return: an implementation may
  abort (the mapped files of the segmented log are bounded), and \<open>log_store_total\<close> adds
  when it does not.
\<close>

locale log_store =
  fixes ops :: "'l log_ops"
    and abs :: "'l \<Rightarrow> alog"
    and inv :: "'l \<Rightarrow> bool"
  assumes abs_wf: "inv l \<Longrightarrow> alog_wf (abs l)"
    and first_law: "inv l \<Longrightarrow> lo_getFirstLogIndex ops l = al_first (abs l)"
    and last_law: "inv l \<Longrightarrow> lo_getLastLogIndex ops l = al_last (abs l)"
    and term_law: "inv l \<Longrightarrow> lo_getCurrentTerm ops l = al_term (abs l)"
    and vote_law: "inv l \<Longrightarrow> lo_getVote ops l = al_vote (abs l)"
    and getTerm_in: "inv l \<Longrightarrow> al_has (abs l) i \<Longrightarrow>
          lo_getTerm ops i l = Inr (Some (le_term (al_at (abs l) i)))"
    and getTerm_0: "inv l \<Longrightarrow> al_first (abs l) = 1 \<Longrightarrow> lo_getTerm ops 0 l = Inr (Some 0)"
    and getTerm_above: "inv l \<Longrightarrow> al_last (abs l) < i \<Longrightarrow> al_first (abs l) \<le> i \<Longrightarrow>
          lo_getTerm ops i l = Inr None"
    and appendEntry_law: "inv l \<Longrightarrow> lo_appendEntry ops e l = Inr (l', b) \<Longrightarrow>
          inv l' \<and> b = (le_index e = al_last (abs l) + 1) \<and>
          abs l' = (if b then al_append [e] (abs l) else abs l)"
    and appendEntries_law: "inv l \<Longrightarrow> lo_appendEntries ops es l = Inr (l', b) \<Longrightarrow>
          inv l' \<and> (\<exists>k. abs l' = al_append (take k es) (abs l) \<and> consec (al_last (abs l) + 1) (take k es) \<and>
            k \<le> length es \<and> b = (k = length es))"
    and truncateSuffix_law: "inv l \<Longrightarrow> al_first (abs l) \<le> k + 1 \<Longrightarrow>
          lo_truncateSuffix ops k l = Inr l' \<Longrightarrow> inv l' \<and> abs l' = al_truncateSuffix k (abs l)"
    and truncatePrefix_law: "inv l \<Longrightarrow> lo_truncatePrefix ops k l = Inr l' \<Longrightarrow>
          inv l' \<and> abs l' = al_truncatePrefix k (abs l)"
    and getEntry_frame: "inv l \<Longrightarrow> lo_getEntry ops i l = Inr (l', r) \<Longrightarrow> inv l' \<and> abs l' = abs l"
    and getEntries_frame: "inv l \<Longrightarrow> lo_getEntries ops i maxLen maxBatch l = Inr (l', n, es) \<Longrightarrow>
          inv l' \<and> abs l' = abs l"
    and getEntry_law: "inv l \<Longrightarrow> al_has (abs l) i \<Longrightarrow> lo_getEntry ops i l = Inr (l', r) \<Longrightarrow>
          r = Some (al_at (abs l) i)"
    and getEntries_law: "inv l \<Longrightarrow> al_first (abs l) \<le> i \<Longrightarrow>
          lo_getEntries ops i maxLen maxBatch l = Inr (l', n, es) \<Longrightarrow>
          n = length es \<and> n \<le> maxBatch \<and>
          es = take n (drop (i - al_first (abs l)) (al_entries (abs l)))"
    and setCurrentTerm_law: "inv l \<Longrightarrow> inv (lo_setCurrentTerm ops t l) \<and>
          abs (lo_setCurrentTerm ops t l) = (abs l)\<lparr>al_term := t\<rparr>"
    and setVoteFor_law: "inv l \<Longrightarrow> inv (lo_setVoteFor ops v l) \<and>
          abs (lo_setVoteFor ops v l) = (abs l)\<lparr>al_vote := v\<rparr>"
begin

lemmas read_laws = first_law last_law term_law vote_law

lemma first_pos: "inv l \<Longrightarrow> 1 \<le> lo_getFirstLogIndex ops l"
  using abs_wf by (simp add: first_law alog_wf_def)

lemma last_ge: "inv l \<Longrightarrow> lo_getFirstLogIndex ops l \<le> lo_getLastLogIndex ops l + 1"
  using abs_wf by (auto simp: read_laws al_last_def alog_wf_def)

lemma getLogTerm_in:
  "inv l \<Longrightarrow> al_has (abs l) i \<Longrightarrow> getLogTerm ops i l = Inr (le_term (al_at (abs l) i))"
  by (simp add: getLogTerm_def getTerm_in)

lemma getLogTerm_eq_Inr:
  "inv l \<Longrightarrow> al_first (abs l) \<le> i \<Longrightarrow> getLogTerm ops i l = Inr t \<Longrightarrow>
   al_has (abs l) i \<and> t = le_term (al_at (abs l) i)"
  using getTerm_in[of l i] getTerm_above[of l i]
  by (cases "al_has (abs l) i") (auto simp: getLogTerm_def al_has_def)

lemma append_all:
  assumes "inv l" and "lo_appendEntries ops es l = Inr (l', True)"
  shows "inv l'" and "abs l' = al_append es (abs l)" and "consec (al_last (abs l) + 1) es"
  using appendEntries_law[OF assms] by auto

lemma append_then_term:
  assumes "inv l" and "lo_appendEntries ops es l = Inr (l', True)" and "j < length es"
  shows "lo_getTerm ops (al_last (abs l) + 1 + j) l' = Inr (Some (le_term (es ! j)))"
proof -
  have wf: "alog_wf (abs l)" using abs_wf assms(1) .
  have has: "al_has (abs l') (al_last (abs l) + 1 + j)"
    using assms(3) wf by (auto simp: append_all[OF assms(1,2)] al_has_def al_last_append)
      (auto simp: al_last_def alog_wf_def)
  have at: "al_at (abs l') (al_last (abs l) + 1 + j) = es ! j"
    using wf by (auto simp: append_all[OF assms(1,2)] al_at_def al_last_def alog_wf_def nth_append)
  show ?thesis
    using getTerm_in[OF append_all(1)[OF assms(1,2)] has] at by simp
qed

end

text \<open>The extension: appending a batch that fits succeeds.\<close>

locale log_store_total = log_store ops abs inv
  for ops :: "'l log_ops" and abs :: "'l \<Rightarrow> alog" and inv :: "'l \<Rightarrow> bool" +
  fixes fits :: "log_entry list \<Rightarrow> 'l \<Rightarrow> bool"
  assumes appendEntries_total: "inv l \<Longrightarrow> fits es l \<Longrightarrow> consec (al_last (abs l) + 1) es \<Longrightarrow>
          \<exists>l'. lo_appendEntries ops es l = Inr (l', True)"
    and appendEntry_total: "inv l \<Longrightarrow> fits [e] l \<Longrightarrow> \<exists>l' b. lo_appendEntry ops e l = Inr (l', b)"
    and truncateSuffix_total: "inv l \<Longrightarrow> al_first (abs l) \<le> k + 1 \<Longrightarrow>
          \<exists>l'. lo_truncateSuffix ops k l = Inr l'"

end
