(* ===== verification/Cluster_Info.thy ===== *)
theory Cluster_Info
  imports Decimal
begin

text \<open>
  The cluster configuration (\<^verbatim>\<open>util/ClusterInfo.h\<close>, \<^verbatim>\<open>util/ClusterInfo.cpp\<close>): the nodes
  of one cluster with their ports and initial roles, the joint-consensus member sets, and
  the conversion to and from the protocol buffer message \<^verbatim>\<open>ClusterConfiguration\<close>.
\<close>

section \<open>Data\<close>

datatype initial_raft_role = IR_Voter | IR_Learner | IR_PreFollower

definition kUnknownNodeId :: nat where "kUnknownNodeId = 0"
definition kDefaultRaftPort :: nat where "kDefaultRaftPort = 5254"
definition kDefaultGatewayPort :: nat where "kDefaultGatewayPort = 50055"
definition kDefaultFetcherPort :: nat where "kDefaultFetcherPort = 50056"
definition kDefaultStreamingPort :: nat where "kDefaultStreamingPort = 5678"
definition kDefaultNetAdminPort :: nat where "kDefaultNetAdminPort = 50065"
definition kDefaultCtrlPort :: nat where "kDefaultCtrlPort = 61203"

record cluster_node =
  cn_mNodeId :: nat
  cn_mHostName :: string
  cn_mPortForRaft :: nat
  cn_mPortForGateway :: nat
  cn_mPortForFetcher :: nat
  cn_mPortForStream :: nat
  cn_mPortForNetAdmin :: nat
  cn_mPortForCtrl :: nat
  cn_mInitialRole :: initial_raft_role

text \<open>A node with the defaults the struct's member initialisers give.\<close>

definition default_node :: cluster_node where
  "default_node = \<lparr>cn_mNodeId = 0, cn_mHostName = [],
     cn_mPortForRaft = kDefaultRaftPort, cn_mPortForGateway = kDefaultGatewayPort,
     cn_mPortForFetcher = kDefaultFetcherPort, cn_mPortForStream = kDefaultStreamingPort,
     cn_mPortForNetAdmin = kDefaultNetAdminPort, cn_mPortForCtrl = kDefaultCtrlPort,
     cn_mInitialRole = IR_Voter\<rparr>"

record cluster_info =
  ci_mClusterId :: nat
  ci_mNodes :: "(nat \<times> cluster_node) list"
  ci_mOldJointMembers :: "nat list"
  ci_mNewJointMembers :: "nat list"
  ci_mInsyncLearners :: "nat list"

definition addNode :: "cluster_node \<Rightarrow> cluster_info \<Rightarrow> cluster_info" where
  "addNode node c = c\<lparr>ci_mNodes := om_upd (cn_mNodeId node) node (ci_mNodes c)\<rparr>"

definition addNewJointMember :: "nat \<Rightarrow> cluster_info \<Rightarrow> cluster_info" where
  "addNewJointMember i c = c\<lparr>ci_mNewJointMembers := insort_insert i (ci_mNewJointMembers c)\<rparr>"

definition addOldJointMember :: "nat \<Rightarrow> cluster_info \<Rightarrow> cluster_info" where
  "addOldJointMember i c = c\<lparr>ci_mOldJointMembers := insort_insert i (ci_mOldJointMembers c)\<rparr>"

definition addInsyncLearner :: "nat \<Rightarrow> cluster_info \<Rightarrow> cluster_info" where
  "addInsyncLearner i c = c\<lparr>ci_mInsyncLearners := insort_insert i (ci_mInsyncLearners c)\<rparr>"

definition getAllInitialRoles :: "cluster_info \<Rightarrow> (nat \<times> initial_raft_role) list" where
  "getAllInitialRoles c = fold (\<lambda>(i, n). om_upd i (cn_mInitialRole n)) (ci_mNodes c) []"

definition hasJointMembers :: "cluster_info \<Rightarrow> bool" where
  "hasJointMembers c \<longleftrightarrow> ci_mOldJointMembers c \<noteq> [] \<and> ci_mNewJointMembers c \<noteq> []"

definition hasInsyncLearners :: "cluster_info \<Rightarrow> bool" where
  "hasInsyncLearners c \<longleftrightarrow> ci_mInsyncLearners c \<noteq> []"

section \<open>The protocol buffer message\<close>

record member_proto =
  mp_id :: nat
  mp_address :: string
  mp_port :: nat
  mp_role :: initial_raft_role

record cluster_configuration =
  cc_clusterId :: nat
  cc_members :: "member_proto list"
  cc_oldMemberIds :: "nat list"
  cc_newMemberIds :: "nat list"
  cc_inSyncLearners :: "nat list"

definition syncToProto :: "cluster_info \<Rightarrow> cluster_configuration" where
  "syncToProto c = \<lparr>
     cc_clusterId = ci_mClusterId c,
     cc_members = map (\<lambda>(i, n). \<lparr>mp_id = i, mp_address = cn_mHostName n,
        mp_port = cn_mPortForRaft n, mp_role = cn_mInitialRole n\<rparr>) (ci_mNodes c),
     cc_oldMemberIds = (if hasJointMembers c then ci_mOldJointMembers c else []),
     cc_newMemberIds = (if hasJointMembers c then ci_mNewJointMembers c else []),
     cc_inSyncLearners = (if hasInsyncLearners c then ci_mInsyncLearners c else [])\<rparr>"

text \<open>\<^verbatim>\<open>mClusterId\<close> is a 32-bit integer, the message field a 64-bit one.\<close>

definition node_of_member :: "member_proto \<Rightarrow> cluster_node" where
  "node_of_member m = default_node\<lparr>cn_mNodeId := mp_id m, cn_mHostName := mp_address m,
     cn_mPortForRaft := (if mp_port m = 0 then kDefaultRaftPort else mp_port m),
     cn_mInitialRole := mp_role m\<rparr>"

definition syncFromProto :: "cluster_configuration \<Rightarrow> cluster_info" where
  "syncFromProto p =
     fold addInsyncLearner (cc_inSyncLearners p)
      (fold addNewJointMember (cc_newMemberIds p)
       (fold addOldJointMember (cc_oldMemberIds p)
        (fold (\<lambda>m. addNode (node_of_member m)) (cc_members p)
          \<lparr>ci_mClusterId = cc_clusterId p mod 2 ^ 32, ci_mNodes = [], ci_mOldJointMembers = [],
           ci_mNewJointMembers = [], ci_mInsyncLearners = []\<rparr>)))"

section \<open>Round trip through the message\<close>

text \<open>What the maps and sets of a \<^verbatim>\<open>ClusterInfo\<close> satisfy, whatever built it.\<close>

definition cluster_info_ok :: "cluster_info \<Rightarrow> bool" where
  "cluster_info_ok c \<longleftrightarrow>
     om_ok (ci_mNodes c) \<and> (\<forall>(i, n) \<in> set (ci_mNodes c). cn_mNodeId n = i \<and> cn_mPortForRaft n \<noteq> 0) \<and>
     sorted_wrt (<) (ci_mOldJointMembers c) \<and> sorted_wrt (<) (ci_mNewJointMembers c) \<and>
     sorted_wrt (<) (ci_mInsyncLearners c) \<and> ci_mClusterId c < 2 ^ 32"

text \<open>What the message carries of a node; the other ports fall back to their defaults.\<close>

definition wire_node :: "cluster_node \<Rightarrow> cluster_node" where
  "wire_node n = default_node\<lparr>cn_mNodeId := cn_mNodeId n, cn_mHostName := cn_mHostName n,
     cn_mPortForRaft := cn_mPortForRaft n, cn_mInitialRole := cn_mInitialRole n\<rparr>"

lemma insort_insert_last:
  "sorted_wrt (<) (xs @ [x::nat]) \<Longrightarrow> insort_insert x xs = xs @ [x]"
proof -
  assume a: "sorted_wrt (<) (xs @ [x])"
  then have "x \<notin> set xs" and "\<forall>y \<in> set xs. y \<le> x" by (auto simp: sorted_wrt_append)
  then show ?thesis
    by (induction xs) (auto simp: insort_insert_key_def)
qed

lemma fold_insort_insert:
  "sorted_wrt (<) (xs @ ys :: nat list) \<Longrightarrow> fold insort_insert ys xs = xs @ ys"
proof (induction ys arbitrary: xs)
  case (Cons y ys)
  then have "insort_insert y xs = xs @ [y]"
    by (intro insort_insert_last) (auto simp: sorted_wrt_append)
  with Cons show ?case by simp
qed simp

lemma om_upd_last: "om_ok (m @ [(k, v)]) \<Longrightarrow> om_upd k v m = m @ [(k, v)]"
  by (induction m) (auto simp: sorted_wrt_append)

lemma fold_om_upd:
  "om_ok (m @ ys) \<Longrightarrow> fold (\<lambda>(k, v). om_upd k v) ys m = m @ ys"
proof (induction ys arbitrary: m)
  case (Cons y ys)
  obtain k v where y: "y = (k, v)" by fastforce
  have "om_upd k v m = m @ [(k, v)]"
    using Cons.prems by (intro om_upd_last) (auto simp: y sorted_wrt_append)
  with Cons show ?case by (simp add: y)
qed simp

lemma getAllInitialRoles_eq:
  "om_ok (ci_mNodes c) \<Longrightarrow> getAllInitialRoles c = om_map cn_mInitialRole (ci_mNodes c)"
proof -
  assume ok: "om_ok (ci_mNodes c)"
  have "fold (\<lambda>(i, n). om_upd i (cn_mInitialRole n)) xs m =
      fold (\<lambda>(k, v). om_upd k v) (om_map cn_mInitialRole xs) m" for xs :: "(nat \<times> cluster_node) list" and m
    by (induction xs arbitrary: m) (auto simp: om_map_def)
  then show ?thesis
    using ok fold_om_upd[of "[]" "om_map cn_mInitialRole (ci_mNodes c)"]
    by (simp add: getAllInitialRoles_def)
qed

lemma fold_addInsyncLearner:
  "fold addInsyncLearner xs c = c\<lparr>ci_mInsyncLearners := fold insort_insert xs (ci_mInsyncLearners c)\<rparr>"
  by (induction xs arbitrary: c) (auto simp: addInsyncLearner_def)

lemma fold_addNewJointMember:
  "fold addNewJointMember xs c = c\<lparr>ci_mNewJointMembers := fold insort_insert xs (ci_mNewJointMembers c)\<rparr>"
  by (induction xs arbitrary: c) (auto simp: addNewJointMember_def)

lemma fold_addOldJointMember:
  "fold addOldJointMember xs c = c\<lparr>ci_mOldJointMembers := fold insort_insert xs (ci_mOldJointMembers c)\<rparr>"
  by (induction xs arbitrary: c) (auto simp: addOldJointMember_def)

lemma fold_addNode:
  "fold (\<lambda>m. addNode (node_of_member m)) ms c =
     c\<lparr>ci_mNodes := fold (\<lambda>(k, v). om_upd k v) (map (\<lambda>m. (mp_id m, node_of_member m)) ms) (ci_mNodes c)\<rparr>"
proof (induction ms arbitrary: c)
  case (Cons m ms)
  then show ?case by (simp add: addNode_def node_of_member_def)
qed simp

lemmas sync_folds = fold_addInsyncLearner fold_addNewJointMember fold_addOldJointMember fold_addNode

lemma wire_nodes:
  assumes "\<forall>(i, n) \<in> set ns. cn_mNodeId n = i \<and> cn_mPortForRaft n \<noteq> 0"
  shows "map (\<lambda>m. (mp_id m, node_of_member m))
      (map (\<lambda>(i, n). \<lparr>mp_id = i, mp_address = cn_mHostName n, mp_port = cn_mPortForRaft n,
         mp_role = cn_mInitialRole n\<rparr>) ns) = om_map wire_node ns"
  using assms by (auto simp: om_map_def node_of_member_def wire_node_def)

lemma syncFromProto_syncToProto_full:
  assumes "cluster_info_ok c"
  shows "syncFromProto (syncToProto c) =
    c\<lparr>ci_mNodes := om_map wire_node (ci_mNodes c),
      ci_mOldJointMembers := (if hasJointMembers c then ci_mOldJointMembers c else []),
      ci_mNewJointMembers := (if hasJointMembers c then ci_mNewJointMembers c else [])\<rparr>"
proof -
  note ok = assms[unfolded cluster_info_ok_def]
  have nodes: "fold (\<lambda>(k, v). om_upd k v) (map (\<lambda>m. (mp_id m, node_of_member m)) (cc_members (syncToProto c))) []
      = om_map wire_node (ci_mNodes c)"
    using ok fold_om_upd[of "[]" "om_map wire_node (ci_mNodes c)"] wire_nodes[of "ci_mNodes c"]
    by (simp add: syncToProto_def)
  have sets: "fold insort_insert xs [] = xs" if "sorted_wrt (<) (xs :: nat list)" for xs
    using fold_insort_insert[of "[]" xs] that by simp
  show ?thesis
    using ok nodes
    by (auto simp: syncFromProto_def sync_folds sets)
       (auto simp: syncToProto_def sets hasInsyncLearners_def)
qed

end
