(* ===== verification/Raft_Types.thy ===== *)
theory Raft_Types
  imports Log_Store Cluster_Info
begin

text \<open>
  The data of the consensus module: roles, peers, the cluster membership and its double
  buffer, the RPC messages, the events of the main loop, and the state of one
  \<^verbatim>\<open>RaftCore\<close> object.
\<close>

section \<open>Roles, peers, membership\<close>

datatype raft_role = Leader | Follower | Candidate | Syncer | PreCandidate | Learner | PreFollower

text \<open>\<^verbatim>\<open>0\<close> is never a node id.\<close>

definition kBadID :: nat where "kBadID = 0"

record member_info =
  mi_mId :: nat
  mi_mAddress :: string

record peer =
  p_mId :: nat
  p_mAddress :: string
  p_mRequestVoteDone :: bool
  p_mHaveVote :: bool
  p_mMatchIndex :: nat
  p_mNextIndex :: nat
  p_mSuppressBulkData :: bool
  p_mLastAERequestTimeInNano :: nat
  p_mNextAERequestTimeInNano :: nat
  p_mLastRVRequestTimeInNano :: nat
  p_mNextRVRequestTimeInNano :: nat
  p_mLastResponseTimeInNano :: nat

definition new_peer :: peer where
  "new_peer = \<lparr>p_mId = 0, p_mAddress = [], p_mRequestVoteDone = False, p_mHaveVote = False,
     p_mMatchIndex = 0, p_mNextIndex = 1, p_mSuppressBulkData = True,
     p_mLastAERequestTimeInNano = 0, p_mNextAERequestTimeInNano = 0,
     p_mLastRVRequestTimeInNano = 0, p_mNextRVRequestTimeInNano = 0,
     p_mLastResponseTimeInNano = 0\<rparr>"

text \<open>
  \<^verbatim>\<open>mClients\<close> maps a peer to its \<^verbatim>\<open>RaftClient\<close>; of that object the model keeps the address
  it connects to and the two RPC deadlines it was constructed with.
\<close>

record raft_client =
  rc_mPeerAddress :: string
  rc_mRpcAppendEntriesTimeoutInMillis :: nat
  rc_mRpcRequestVoteTimeoutInMillis :: nat

record membership =
  ms_mPeers :: "(nat \<times> peer) list"
  ms_mInitialRoles :: "(nat \<times> raft_role) list"
  ms_mSelfInfo :: member_info
  ms_mClients :: "(nat \<times> raft_client) list"
  ms_mOldMembers :: "nat list"
  ms_mNewMembers :: "nat list"
  ms_mInsyncLearners :: "nat list"

definition empty_membership :: membership where
  "empty_membership = \<lparr>ms_mPeers = [], ms_mInitialRoles = [], ms_mSelfInfo = \<lparr>mi_mId = kBadID, mi_mAddress = []\<rparr>,
     ms_mClients = [], ms_mOldMembers = [], ms_mNewMembers = [], ms_mInsyncLearners = []\<rparr>"

section \<open>Double buffer\<close>

record 'a double_buffer =
  db_mBuffer0 :: 'a
  db_mBuffer1 :: 'a
  db_mCurrentLoc :: nat

definition db_init :: "'a \<Rightarrow> 'a double_buffer" where
  "db_init x = \<lparr>db_mBuffer0 = x, db_mBuffer1 = x, db_mCurrentLoc = 0\<rparr>"

definition db_getCurrent :: "'a double_buffer \<Rightarrow> 'a" where
  "db_getCurrent b = (if db_mCurrentLoc b = 0 then db_mBuffer0 b else db_mBuffer1 b)"

definition db_getBypass :: "'a double_buffer \<Rightarrow> 'a" where
  "db_getBypass b = (if 1 - db_mCurrentLoc b = 0 then db_mBuffer0 b else db_mBuffer1 b)"

definition db_setCurrent :: "'a \<Rightarrow> 'a double_buffer \<Rightarrow> 'a double_buffer" where
  "db_setCurrent x b = (if db_mCurrentLoc b = 0 then b\<lparr>db_mBuffer0 := x\<rparr> else b\<lparr>db_mBuffer1 := x\<rparr>)"

definition db_setBypass :: "'a \<Rightarrow> 'a double_buffer \<Rightarrow> 'a double_buffer" where
  "db_setBypass x b = (if 1 - db_mCurrentLoc b = 0 then b\<lparr>db_mBuffer0 := x\<rparr> else b\<lparr>db_mBuffer1 := x\<rparr>)"

definition db_swap :: "'a double_buffer \<Rightarrow> 'a double_buffer" where
  "db_swap b = b\<lparr>db_mCurrentLoc := 1 - db_mCurrentLoc b\<rparr>"

definition db_ok :: "'a double_buffer \<Rightarrow> bool" where
  "db_ok b \<longleftrightarrow> db_mCurrentLoc b < 2"

lemma db_get_set [simp]:
  "db_getCurrent (db_setCurrent x b) = x"
  "db_ok b \<Longrightarrow> db_getBypass (db_setBypass x b) = x"
  "db_ok b \<Longrightarrow> db_getBypass (db_setCurrent x b) = db_getBypass b"
  "db_ok b \<Longrightarrow> db_getCurrent (db_setBypass x b) = db_getCurrent b"
  by (auto simp: db_getCurrent_def db_setCurrent_def db_getBypass_def db_setBypass_def db_ok_def)

lemma db_swap_simps [simp]:
  "db_ok b \<Longrightarrow> db_getCurrent (db_swap b) = db_getBypass b"
  "db_ok b \<Longrightarrow> db_getBypass (db_swap b) = db_getCurrent b"
  by (auto simp: db_getCurrent_def db_getBypass_def db_swap_def db_ok_def)

lemma db_ok_simps [simp]:
  "db_ok (db_init x)" "db_ok (db_setCurrent x b) = db_ok b" "db_ok (db_setBypass x b) = db_ok b"
  "db_ok (db_swap b)"
  by (auto simp: db_ok_def db_init_def db_setCurrent_def db_setBypass_def db_swap_def)

section \<open>Messages\<close>

record rv_request =
  rvq_term :: nat
  rvq_candidate_id :: nat
  rvq_last_log_index :: nat
  rvq_last_log_term :: nat
  rvq_prevote :: bool

record rv_response =
  rvp_term :: nat
  rvp_vote_granted :: bool
  rvp_id :: nat
  rvp_saved_term :: nat
  rvp_prevote :: bool

record ae_request =
  aeq_term :: nat
  aeq_leader_id :: nat
  aeq_prev_log_index :: nat
  aeq_prev_log_term :: nat
  aeq_entries :: "log_entry list"
  aeq_commit_index :: nat

record ae_response =
  aep_term :: nat
  aep_success :: bool
  aep_id :: nat
  aep_saved_term :: nat
  aep_saved_prev_log_index :: nat
  aep_last_log_index :: nat
  aep_match_index :: nat

text \<open>The statuses the handlers return; a response that arrives carries \<^verbatim>\<open>mStatus.ok()\<close>.\<close>

datatype grpc_status = GrpcOK | GrpcCancelled

definition empty_ae_response :: ae_response where
  "empty_ae_response = \<lparr>aep_term = 0, aep_success = False, aep_id = 0, aep_saved_term = 0,
     aep_saved_prev_log_index = 0, aep_last_log_index = 0, aep_match_index = 0\<rparr>"

text \<open>A \<^verbatim>\<open>RequestHandle *\<close> is a handle number, \<^verbatim>\<open>nullptr\<close> is \<^const>\<open>None\<close>.\<close>

record client_request =
  cr_mEntry :: log_entry
  cr_mRequestHandle :: "nat option"

record sync_request =
  sr_mEntries :: "log_entry list"
  sr_mStartIndex :: nat
  sr_mEndIndex :: nat
  sr_mFinishMeta :: "nat option"

text \<open>
  The events of the two queues. An incoming request carries the number of its call
  (\<^verbatim>\<open>CallData *\<close>), through which it is answered; a response carries the peer the client
  belongs to and whether the call succeeded.
\<close>

datatype raft_event =
    AppendEntriesRequestEvent nat ae_request
  | AppendEntriesResponseEvent nat bool ae_response
  | RequestVoteRequestEvent nat rv_request
  | RequestVoteResponseEvent nat bool rv_response
  | ClientRequestEvent "client_request list"
  | SyncRequestEvent sync_request
  | ReconfigureRequestEvent nat cluster_info

text \<open>What a step of the main loop does outside the object: calls and replies.\<close>

datatype effect =
    SendAE nat ae_request
  | SendRV nat rv_request
  | ReplyAE nat grpc_status ae_response
  | ReplyRV nat grpc_status rv_response
  | ReplyClient nat nat string nat

section \<open>The state of a RaftCore\<close>

text \<open>
  The configurable variables, the raft state, the pending client requests, the two event
  queues and the double-buffered membership. \<open>mTick\<close> counts the readings of the clock and
  of the random source, \<open>mEffects\<close> collects what was sent; both belong to the model's
  account of the outside world.
\<close>

record 'l raft_core =
  mHeartBeatIntervalInMillis :: nat
  mMinElectionTimeoutInMillis :: nat
  mMaxElectionTimeoutInMillis :: nat
  mRpcAppendEntriesTimeoutInMillis :: nat
  mRpcRequestVoteTimeoutInMillis :: nat
  mMaxBatchSize :: nat
  mMaxLenInBytes :: nat
  mMaxDecrStep :: nat
  mMaxTailedEntryNum :: nat
  mPreVoteEnabled :: bool
  mLeaderId :: nat
  mElectionTimePointInNano :: nat
  mCommitIndex :: nat
  mBeginIndex :: nat
  mRaftRole :: raft_role
  mLog :: 'l
  mPendingClientRequests :: "(nat \<times> nat option) list"
  mAeRvQueue :: "raft_event list"
  mClientRequestsQueue :: "raft_event list"
  mClusterMembers :: "membership double_buffer"
  mStreamingSvcEnabled :: bool
  mStreamingPort :: nat
  mTick :: nat
  mEffects :: "effect list"

abbreviation members :: "'l raft_core \<Rightarrow> membership" where
  "members s \<equiv> db_getCurrent (mClusterMembers s)"

abbreviation selfId :: "'l raft_core \<Rightarrow> nat" where
  "selfId s \<equiv> mi_mId (ms_mSelfInfo (members s))"

abbreviation peers :: "'l raft_core \<Rightarrow> (nat \<times> peer) list" where
  "peers s \<equiv> ms_mPeers (members s)"

definition setMembers :: "membership \<Rightarrow> 'l raft_core \<Rightarrow> 'l raft_core" where
  "setMembers m s = s\<lparr>mClusterMembers := db_setCurrent m (mClusterMembers s)\<rparr>"

definition setPeers :: "(nat \<times> peer) list \<Rightarrow> 'l raft_core \<Rightarrow> 'l raft_core" where
  "setPeers ps s = setMembers ((members s)\<lparr>ms_mPeers := ps\<rparr>) s"

definition emit :: "effect \<Rightarrow> 'l raft_core \<Rightarrow> 'l raft_core" where
  "emit e s = s\<lparr>mEffects := mEffects s @ [e]\<rparr>"

text \<open>
  The outside world as the code sees it: the \<open>n\<close>-th reading of \<^verbatim>\<open>CLOCK_REALTIME\<close> (which
  may be set back) and the \<open>n\<close>-th value of \<^verbatim>\<open>rand()\<close>.
\<close>

record raft_env =
  env_clock :: "nat \<Rightarrow> nat"
  env_rand :: "nat \<Rightarrow> nat"

definition currentTimeInNanos :: "raft_env \<Rightarrow> 'l raft_core \<Rightarrow> nat" where
  "currentTimeInNanos env s = env_clock env (mTick s)"

definition tick :: "'l raft_core \<Rightarrow> 'l raft_core" where
  "tick s = s\<lparr>mTick := mTick s + 1\<rparr>"

text \<open>\<^verbatim>\<open>RandomUtil::randomRange\<close>.\<close>

definition randomRange :: "raft_env \<Rightarrow> nat \<Rightarrow> nat \<Rightarrow> 'l raft_core \<Rightarrow> nat res" where
  "randomRange env start end s =
     ensure (start \<le> end) (Inr (start + env_rand env (mTick s) mod (end - start + 1)))"

definition updateElectionTimePoint :: "raft_env \<Rightarrow> 'l raft_core \<Rightarrow> 'l raft_core res" where
  "updateElectionTimePoint env s =
     bindR (randomRange env (mMinElectionTimeoutInMillis s * 1000 * 1000)
              (mMaxElectionTimeoutInMillis s * 1000 * 1000) s)
       (\<lambda>timeIntervalInNano. let s = tick s in
          Inr (tick (s\<lparr>mElectionTimePointInNano := currentTimeInNanos env s + timeIntervalInNano\<rparr>)))"

section \<open>Frame lemmas\<close>

named_theorems raft_frame \<open>what the small state updates leave alone\<close>

lemma members_setMembers [simp]: "db_getCurrent (mClusterMembers (setMembers m s)) = m"
  by (simp add: setMembers_def)

lemma peers_setPeers [simp]: "ms_mPeers (db_getCurrent (mClusterMembers (setPeers ps s))) = ps"
  by (simp add: setPeers_def)

lemma setPeers_members [simp]:
  "db_getCurrent (mClusterMembers (setPeers ps s)) = (members s)\<lparr>ms_mPeers := ps\<rparr>"
  by (simp add: setPeers_def)

lemma setMembers_frame [simp, raft_frame]:
  "mHeartBeatIntervalInMillis (setMembers m s) = mHeartBeatIntervalInMillis s"
  "mMinElectionTimeoutInMillis (setMembers m s) = mMinElectionTimeoutInMillis s"
  "mMaxElectionTimeoutInMillis (setMembers m s) = mMaxElectionTimeoutInMillis s"
  "mRpcAppendEntriesTimeoutInMillis (setMembers m s) = mRpcAppendEntriesTimeoutInMillis s"
  "mRpcRequestVoteTimeoutInMillis (setMembers m s) = mRpcRequestVoteTimeoutInMillis s"
  "mMaxBatchSize (setMembers m s) = mMaxBatchSize s"
  "mMaxLenInBytes (setMembers m s) = mMaxLenInBytes s"
  "mMaxDecrStep (setMembers m s) = mMaxDecrStep s"
  "mMaxTailedEntryNum (setMembers m s) = mMaxTailedEntryNum s"
  "mPreVoteEnabled (setMembers m s) = mPreVoteEnabled s"
  "mLeaderId (setMembers m s) = mLeaderId s"
  "mElectionTimePointInNano (setMembers m s) = mElectionTimePointInNano s"
  "mCommitIndex (setMembers m s) = mCommitIndex s"
  "mBeginIndex (setMembers m s) = mBeginIndex s"
  "mRaftRole (setMembers m s) = mRaftRole s"
  "mLog (setMembers m s) = mLog s"
  "mPendingClientRequests (setMembers m s) = mPendingClientRequests s"
  "mAeRvQueue (setMembers m s) = mAeRvQueue s"
  "mClientRequestsQueue (setMembers m s) = mClientRequestsQueue s"
  "mStreamingSvcEnabled (setMembers m s) = mStreamingSvcEnabled s"
  "mStreamingPort (setMembers m s) = mStreamingPort s"
  "mTick (setMembers m s) = mTick s"
  "mEffects (setMembers m s) = mEffects s"
  by (simp_all add: setMembers_def)

lemma setPeers_frame [simp, raft_frame]:
  "mHeartBeatIntervalInMillis (setPeers ps s) = mHeartBeatIntervalInMillis s"
  "mMinElectionTimeoutInMillis (setPeers ps s) = mMinElectionTimeoutInMillis s"
  "mMaxElectionTimeoutInMillis (setPeers ps s) = mMaxElectionTimeoutInMillis s"
  "mRpcAppendEntriesTimeoutInMillis (setPeers ps s) = mRpcAppendEntriesTimeoutInMillis s"
  "mRpcRequestVoteTimeoutInMillis (setPeers ps s) = mRpcRequestVoteTimeoutInMillis s"
  "mMaxBatchSize (setPeers ps s) = mMaxBatchSize s"
  "mMaxLenInBytes (setPeers ps s) = mMaxLenInBytes s"
  "mMaxDecrStep (setPeers ps s) = mMaxDecrStep s"
  "mMaxTailedEntryNum (setPeers ps s) = mMaxTailedEntryNum s"
  "mPreVoteEnabled (setPeers ps s) = mPreVoteEnabled s"
  "mLeaderId (setPeers ps s) = mLeaderId s"
  "mElectionTimePointInNano (setPeers ps s) = mElectionTimePointInNano s"
  "mCommitIndex (setPeers ps s) = mCommitIndex s"
  "mBeginIndex (setPeers ps s) = mBeginIndex s"
  "mRaftRole (setPeers ps s) = mRaftRole s"
  "mLog (setPeers ps s) = mLog s"
  "mPendingClientRequests (setPeers ps s) = mPendingClientRequests s"
  "mAeRvQueue (setPeers ps s) = mAeRvQueue s"
  "mClientRequestsQueue (setPeers ps s) = mClientRequestsQueue s"
  "mStreamingSvcEnabled (setPeers ps s) = mStreamingSvcEnabled s"
  "mStreamingPort (setPeers ps s) = mStreamingPort s"
  "mTick (setPeers ps s) = mTick s"
  "mEffects (setPeers ps s) = mEffects s"
  by (simp_all add: setPeers_def setMembers_def)

lemma emit_frame [simp, raft_frame]:
  "mHeartBeatIntervalInMillis (emit e s) = mHeartBeatIntervalInMillis s"
  "mMinElectionTimeoutInMillis (emit e s) = mMinElectionTimeoutInMillis s"
  "mMaxElectionTimeoutInMillis (emit e s) = mMaxElectionTimeoutInMillis s"
  "mRpcAppendEntriesTimeoutInMillis (emit e s) = mRpcAppendEntriesTimeoutInMillis s"
  "mRpcRequestVoteTimeoutInMillis (emit e s) = mRpcRequestVoteTimeoutInMillis s"
  "mMaxBatchSize (emit e s) = mMaxBatchSize s"
  "mMaxLenInBytes (emit e s) = mMaxLenInBytes s"
  "mMaxDecrStep (emit e s) = mMaxDecrStep s"
  "mMaxTailedEntryNum (emit e s) = mMaxTailedEntryNum s"
  "mPreVoteEnabled (emit e s) = mPreVoteEnabled s"
  "mLeaderId (emit e s) = mLeaderId s"
  "mElectionTimePointInNano (emit e s) = mElectionTimePointInNano s"
  "mCommitIndex (emit e s) = mCommitIndex s"
  "mBeginIndex (emit e s) = mBeginIndex s"
  "mRaftRole (emit e s) = mRaftRole s"
  "mLog (emit e s) = mLog s"
  "mPendingClientRequests (emit e s) = mPendingClientRequests s"
  "mAeRvQueue (emit e s) = mAeRvQueue s"
  "mClientRequestsQueue (emit e s) = mClientRequestsQueue s"
  "mClusterMembers (emit e s) = mClusterMembers s"
  "mStreamingSvcEnabled (emit e s) = mStreamingSvcEnabled s"
  "mStreamingPort (emit e s) = mStreamingPort s"
  "mTick (emit e s) = mTick s"
  by (simp_all add: emit_def)

lemma tick_frame [simp, raft_frame]:
  "mHeartBeatIntervalInMillis (tick s) = mHeartBeatIntervalInMillis s"
  "mMinElectionTimeoutInMillis (tick s) = mMinElectionTimeoutInMillis s"
  "mMaxElectionTimeoutInMillis (tick s) = mMaxElectionTimeoutInMillis s"
  "mRpcAppendEntriesTimeoutInMillis (tick s) = mRpcAppendEntriesTimeoutInMillis s"
  "mRpcRequestVoteTimeoutInMillis (tick s) = mRpcRequestVoteTimeoutInMillis s"
  "mMaxBatchSize (tick s) = mMaxBatchSize s"
  "mMaxLenInBytes (tick s) = mMaxLenInBytes s"
  "mMaxDecrStep (tick s) = mMaxDecrStep s"
  "mMaxTailedEntryNum (tick s) = mMaxTailedEntryNum s"
  "mPreVoteEnabled (tick s) = mPreVoteEnabled s"
  "mLeaderId (tick s) = mLeaderId s"
  "mElectionTimePointInNano (tick s) = mElectionTimePointInNano s"
  "mCommitIndex (tick s) = mCommitIndex s"
  "mBeginIndex (tick s) = mBeginIndex s"
  "mRaftRole (tick s) = mRaftRole s"
  "mLog (tick s) = mLog s"
  "mPendingClientRequests (tick s) = mPendingClientRequests s"
  "mAeRvQueue (tick s) = mAeRvQueue s"
  "mClientRequestsQueue (tick s) = mClientRequestsQueue s"
  "mClusterMembers (tick s) = mClusterMembers s"
  "mStreamingSvcEnabled (tick s) = mStreamingSvcEnabled s"
  "mStreamingPort (tick s) = mStreamingPort s"
  "mEffects (tick s) = mEffects s"
  by (simp_all add: tick_def)

lemma updateElectionTimePoint_Inr:
  assumes "updateElectionTimePoint env s = Inr t"
  obtains tp k where "t = s\<lparr>mElectionTimePointInNano := tp, mTick := k\<rparr>"
  using assms by (auto simp: updateElectionTimePoint_def Let_def tick_def)

lemma updateElectionTimePoint_total:
  "mMinElectionTimeoutInMillis s \<le> mMaxElectionTimeoutInMillis s \<Longrightarrow>
   \<exists>tp k. updateElectionTimePoint env s = Inr (s\<lparr>mElectionTimePointInNano := tp, mTick := k\<rparr>)"
  by (auto simp: updateElectionTimePoint_def randomRange_def Let_def tick_def)

end
