(* ===== verification/Raft_Quorum.thy ===== *)
theory Raft_Quorum
  imports Raft_Types
begin

text \<open>
  The quorum computations of \<^verbatim>\<open>v2/RaftCore.h\<close>: which index a majority of the voters
  stores, whether the votes of a candidate pass, and how long ago a majority answered, each
  for a plain and for a joint configuration, with the facts that make them quorums.
\<close>

section \<open>Definitions\<close>

definition getMajorityNumber :: "nat \<Rightarrow> nat" where
  "getMajorityNumber totalNum = totalNum div 2 + 1"

text \<open>
  \<^verbatim>\<open>mInitialRoles\<close> and the member sets are keyed by 32-bit node ids, a lookup with a
  64-bit id truncates it.
\<close>

definition isLearner :: "nat \<Rightarrow> membership \<Rightarrow> bool res" where
  "isLearner i m = bindR (atR (ms_mInitialRoles m) (uint32 i)) (\<lambda>r. Inr (r = Learner))"

definition isPreFollower :: "nat \<Rightarrow> membership \<Rightarrow> bool res" where
  "isPreFollower i m = bindR (atR (ms_mInitialRoles m) (uint32 i)) (\<lambda>r. Inr (r = PreFollower))"

definition isVoter :: "nat \<Rightarrow> membership \<Rightarrow> bool res" where
  "isVoter i m = bindR (atR (ms_mInitialRoles m) (uint32 i)) (\<lambda>r. Inr (r = Follower))"

text \<open>\<^verbatim>\<open>it = mPeers.find(id); assert(it != mPeers.end()); it->second\<close>.\<close>

definition findPeer :: "nat \<Rightarrow> membership \<Rightarrow> peer res" where
  "findPeer i m = (case map_of (ms_mPeers m) i of None \<Rightarrow> Inl AssertFailed | Some p \<Rightarrow> Inr p)"

text \<open>\<^verbatim>\<open>std::sort\<close> with \<open>x > y\<close>, then the element in the middle.\<close>

definition middle_desc :: "nat list \<Rightarrow> nat res" where
  "middle_desc xs = vec_at (rev (sort xs)) (length xs div 2)"

definition getMajorityIndexofVoters :: "'l log_ops \<Rightarrow> nat list \<Rightarrow> 'l raft_core \<Rightarrow> nat res" where
  "getMajorityIndexofVoters ops nodeIds s =
     bindR (foldR (\<lambda>i indices.
         bindR (isVoter i (members s)) (\<lambda>v.
           if \<not> v then Inr indices
           else if selfId s = i then Inr (indices @ [lo_getLastLogIndex ops (mLog s)])
           else bindR (findPeer i (members s)) (\<lambda>p. Inr (indices @ [p_mMatchIndex p])))) nodeIds [])
       middle_desc"

definition getMajorityIndexofLearners :: "nat list \<Rightarrow> 'l raft_core \<Rightarrow> nat res" where
  "getMajorityIndexofLearners nodeIds s =
     bindR (foldR (\<lambda>i indices.
         bindR (isLearner i (members s)) (\<lambda>b.
           if \<not> b then Inr indices
           else bindR (findPeer i (members s)) (\<lambda>p. Inr (indices @ [p_mMatchIndex p])))) nodeIds [])
       middle_desc"

text \<open>The set of all ids: the peers' and the node's own.\<close>

definition allNodeIds :: "membership \<Rightarrow> nat list" where
  "allNodeIds m = insort_insert (uint32 (mi_mId (ms_mSelfInfo m)))
     (fold (\<lambda>(i, p). insort_insert (uint32 (p_mId p))) (ms_mPeers m) [])"

definition getMajorityIndex :: "'l log_ops \<Rightarrow> 'l raft_core \<Rightarrow> nat res" where
  "getMajorityIndex ops s =
     (if ms_mOldMembers (members s) = [] \<or> ms_mNewMembers (members s) = []
      then (if ms_mInsyncLearners (members s) = []
            then getMajorityIndexofVoters ops (allNodeIds (members s)) s
            else bindR (getMajorityIndexofVoters ops (allNodeIds (members s)) s) (\<lambda>v.
                 bindR (getMajorityIndexofLearners (ms_mInsyncLearners (members s)) s) (\<lambda>w. Inr (min v w))))
      else bindR (getMajorityIndexofVoters ops (ms_mOldMembers (members s)) s) (\<lambda>v.
           bindR (getMajorityIndexofVoters ops (ms_mNewMembers (members s)) s) (\<lambda>w. Inr (min v w))))"

definition checkQuorumVoteofInput :: "nat list \<Rightarrow> 'l raft_core \<Rightarrow> bool res" where
  "checkQuorumVoteofInput nodeIds s =
     bindR (foldR (\<lambda>i (voteNum, nonVoterNum).
         bindR (isLearner i (members s)) (\<lambda>b.
           if b then Inr (voteNum, nonVoterNum + 1)
           else if selfId s = i then Inr (voteNum + 1, nonVoterNum)
           else bindR (findPeer i (members s)) (\<lambda>p.
                  if p_mHaveVote p then Inr (voteNum + 1, nonVoterNum) else Inr (voteNum, nonVoterNum))))
         nodeIds (0, 0))
       (\<lambda>(voteNum, nonVoterNum). Inr (voteNum \<ge> getMajorityNumber (sub64 (length nodeIds) nonVoterNum)))"

definition checkVotePass :: "'l raft_core \<Rightarrow> bool res" where
  "checkVotePass s =
     (if ms_mOldMembers (members s) = [] \<or> ms_mNewMembers (members s) = []
      then checkQuorumVoteofInput (allNodeIds (members s)) s
      else bindR (checkQuorumVoteofInput (ms_mOldMembers (members s)) s) (\<lambda>b.
             if \<not> b then Inr False else checkQuorumVoteofInput (ms_mNewMembers (members s)) s))"

text \<open>The elapsed time is computed on unsigned integers from two readings of the wall clock.\<close>

definition getMajorityTimeElapseofInput :: "raft_env \<Rightarrow> nat list \<Rightarrow> 'l raft_core \<Rightarrow> (nat \<times> 'l raft_core) res" where
  "getMajorityTimeElapseofInput env nodeIds s =
     (let nowInNano = currentTimeInNanos env s in
      bindR (foldR (\<lambda>i timePoints.
          bindR (isVoter i (members s)) (\<lambda>v.
            if \<not> v then Inr timePoints
            else if selfId s = i then Inr (timePoints @ [nowInNano])
            else bindR (findPeer i (members s)) (\<lambda>p. Inr (timePoints @ [p_mLastResponseTimeInNano p])))) nodeIds [])
        (\<lambda>ts. bindR (middle_desc ts) (\<lambda>t. Inr (sub64 nowInNano t, tick s))))"

definition getMajorityTimeElapse :: "raft_env \<Rightarrow> 'l raft_core \<Rightarrow> (nat \<times> 'l raft_core) res" where
  "getMajorityTimeElapse env s =
     (if ms_mOldMembers (members s) = [] \<or> ms_mNewMembers (members s) = []
      then getMajorityTimeElapseofInput env (allNodeIds (members s)) s
      else bindR (getMajorityTimeElapseofInput env (ms_mOldMembers (members s)) s) (\<lambda>(v, s).
           bindR (getMajorityTimeElapseofInput env (ms_mNewMembers (members s)) s) (\<lambda>(w, s). Inr (max v w, s))))"

section \<open>The middle element\<close>

lemma count_sort: "length (filter P (sort xs)) = length (filter P (xs :: nat list))"
proof -
  have "mset (filter P (sort xs)) = mset (filter P xs)" by simp
  then show ?thesis by (rule mset_eq_length)
qed

lemma middle_desc_Some:
  "xs \<noteq> [] \<Longrightarrow> middle_desc xs = Inr (sort xs ! (length xs - 1 - length xs div 2))"
proof -
  assume "xs \<noteq> []"
  then have "length xs div 2 < length xs" by simp
  then show ?thesis by (simp add: middle_desc_def vec_at_def rev_nth)
qed

lemma middle_desc_empty [simp]: "middle_desc [] = Inl OutOfBounds"
  by (simp add: middle_desc_def vec_at_def)

lemma middle_desc_majority:
  assumes "middle_desc xs = Inr v"
  shows "length xs div 2 + 1 \<le> length (filter (\<lambda>x. v \<le> x) xs)"
proof -
  have ne: "xs \<noteq> []" using assms by auto
  let ?ys = "sort xs" and ?n = "length xs" and ?k = "length xs div 2"
  have v: "v = ?ys ! (?n - 1 - ?k)" using assms middle_desc_Some[OF ne] by simp
  have sub: "{?n - 1 - ?k..<?n} \<subseteq> {i. i < length ?ys \<and> v \<le> ?ys ! i}"
    by (auto simp: v intro!: sorted_nth_mono)
  have "?k + 1 \<le> card {?n - 1 - ?k..<?n}" using ne by (cases ?n) auto
  also have "\<dots> \<le> length (filter (\<lambda>x. v \<le> x) ?ys)"
    unfolding length_filter_conv_card using sub by (intro card_mono) auto
  finally show ?thesis by (simp add: count_sort)
qed

lemma middle_desc_maximal:
  assumes "middle_desc xs = Inr v" "v < w"
  shows "length (filter (\<lambda>x. w \<le> x) xs) < length xs div 2 + 1"
proof -
  have ne: "xs \<noteq> []" using assms by auto
  let ?ys = "sort xs" and ?n = "length xs" and ?k = "length xs div 2"
  have v: "v = ?ys ! (?n - 1 - ?k)" using assms middle_desc_Some[OF ne] by simp
  have lt: "?n - 1 - ?k < ?n" using ne by (cases xs) auto
  have "{i. i < length ?ys \<and> w \<le> ?ys ! i} \<subseteq> {?n - ?k..<?n}"
  proof
    fix i assume i: "i \<in> {i. i < length ?ys \<and> w \<le> ?ys ! i}"
    have "\<not> i \<le> ?n - 1 - ?k"
    proof
      assume "i \<le> ?n - 1 - ?k"
      then have "?ys ! i \<le> v" using lt unfolding v by (intro sorted_nth_mono) auto
      with i assms(2) show False by simp
    qed
    with i show "i \<in> {?n - ?k..<?n}" by auto
  qed
  then have "card {i. i < length ?ys \<and> w \<le> ?ys ! i} \<le> card {?n - ?k..<?n}"
    by (intro card_mono) auto
  also have "\<dots> \<le> ?k" by simp
  finally have "length (filter (\<lambda>x. w \<le> x) ?ys) \<le> ?k"
    unfolding length_filter_conv_card .
  then show ?thesis by (simp add: count_sort)
qed

section \<open>Quorum systems\<close>

text \<open>
  Two majorities of the same set intersect; so do two sets that are majorities of both halves
  of a joint configuration. What elections and commits need of either is the contract below.
\<close>

locale quorum_system =
  fixes quorum :: "nat set \<Rightarrow> bool"
  assumes intersect: "quorum A \<Longrightarrow> quorum B \<Longrightarrow> A \<inter> B \<noteq> {}"
    and upward: "quorum A \<Longrightarrow> A \<subseteq> B \<Longrightarrow> quorum B"
begin

lemma nonempty: "quorum A \<Longrightarrow> A \<noteq> {}"
  using intersect by blast

lemma same_choice:
  assumes "quorum {n. f n = x}" and "quorum {n. f n = y}"
  shows "x = y"
  using intersect[OF assms] by blast

lemma same_winner:
  assumes "quorum A" "quorum B"
    and "\<And>n. n \<in> A \<Longrightarrow> R n x" "\<And>n. n \<in> B \<Longrightarrow> R n y"
    and "\<And>n. R n x \<Longrightarrow> R n y \<Longrightarrow> x = y"
  shows "x = y"
proof -
  obtain n where "n \<in> A" "n \<in> B" using intersect[OF assms(1,2)] by blast
  then show ?thesis using assms(3-5) by blast
qed

end

definition is_majority :: "nat set \<Rightarrow> nat set \<Rightarrow> bool" where
  "is_majority V Q \<longleftrightarrow> finite V \<and> getMajorityNumber (card V) \<le> card (Q \<inter> V)"

definition is_joint_majority :: "nat set \<Rightarrow> nat set \<Rightarrow> nat set \<Rightarrow> bool" where
  "is_joint_majority V W Q \<longleftrightarrow> is_majority V Q \<and> is_majority W Q"

lemma majorities_meet:
  assumes "is_majority V A" "is_majority V B"
  shows "A \<inter> B \<noteq> {}"
proof
  assume "A \<inter> B = {}"
  then have disj: "(A \<inter> V) \<inter> (B \<inter> V) = {}" by blast
  have fin: "finite V" using assms(1) by (simp add: is_majority_def)
  have "card (A \<inter> V) + card (B \<inter> V) = card ((A \<inter> V) \<union> (B \<inter> V))"
    using fin disj by (subst card_Un_disjoint) auto
  also have "\<dots> \<le> card V" using fin by (intro card_mono) auto
  finally show False
    using assms by (auto simp: is_majority_def getMajorityNumber_def)
qed

lemma is_majority_mono: "is_majority V A \<Longrightarrow> A \<subseteq> B \<Longrightarrow> is_majority V B"
proof -
  assume a: "is_majority V A" "A \<subseteq> B"
  then have "card (A \<inter> V) \<le> card (B \<inter> V)"
    by (intro card_mono) (auto simp: is_majority_def)
  with a show ?thesis by (simp add: is_majority_def)
qed

interpretation maj: quorum_system "is_majority V"
proof
  show "A \<inter> B \<noteq> {}" if "is_majority V A" "is_majority V B" for A B
    using that by (rule majorities_meet)
  show "is_majority V B" if "is_majority V A" "A \<subseteq> B" for A B
    using that by (rule is_majority_mono)
qed

interpretation joint: quorum_system "is_joint_majority V W"
proof
  show "A \<inter> B \<noteq> {}" if "is_joint_majority V W A" "is_joint_majority V W B" for A B
    using that majorities_meet[of V A B] by (simp add: is_joint_majority_def)
  show "is_joint_majority V W B" if "is_joint_majority V W A" "A \<subseteq> B" for A B
    using that is_majority_mono[of V A B] is_majority_mono[of W A B] by (simp add: is_joint_majority_def)
qed

section \<open>What the majority index means\<close>

definition roleOf :: "membership \<Rightarrow> nat \<Rightarrow> raft_role option" where
  "roleOf m i = map_of (ms_mInitialRoles m) (uint32 i)"

definition votersOf :: "membership \<Rightarrow> nat list \<Rightarrow> nat set" where
  "votersOf m nodeIds = {i \<in> set nodeIds. roleOf m i = Some Follower}"

definition nonLearnersOf :: "membership \<Rightarrow> nat list \<Rightarrow> nat set" where
  "nonLearnersOf m nodeIds = {i \<in> set nodeIds. roleOf m i \<noteq> Some Learner}"

text \<open>What the leader knows a node stores: its own last index, or the peer's match index.\<close>

definition storedIndex :: "'l log_ops \<Rightarrow> 'l raft_core \<Rightarrow> nat \<Rightarrow> nat" where
  "storedIndex ops s i =
     (if selfId s = i then lo_getLastLogIndex ops (mLog s)
      else case map_of (peers s) i of None \<Rightarrow> 0 | Some p \<Rightarrow> p_mMatchIndex p)"

lemma isVoter_Inr: "isVoter i m = Inr b \<longleftrightarrow> (\<exists>r. roleOf m i = Some r \<and> b = (r = Follower))"
  by (auto simp: isVoter_def roleOf_def)

lemma isLearner_Inr: "isLearner i m = Inr b \<longleftrightarrow> (\<exists>r. roleOf m i = Some r \<and> b = (r = Learner))"
  by (auto simp: isLearner_def roleOf_def)

lemma findPeer_Inr [simp]: "findPeer i m = Inr p \<longleftrightarrow> map_of (ms_mPeers m) i = Some p"
  by (auto simp: findPeer_def split: option.splits)

lemma foldR_collect:
  assumes "foldR (\<lambda>i acc. bindR (c i) (\<lambda>v. if \<not> v then Inr acc else bindR (f i) (\<lambda>x. Inr (acc @ [x])))) is acc = Inr r"
  shows "\<exists>xs. r = acc @ xs \<and> list_all2 (\<lambda>i x. f i = Inr x) (filter (\<lambda>i. c i = Inr True) is) xs"
  using assms
proof (induction "is" arbitrary: acc)
  case (Cons i "is")
  then obtain b where c: "c i = Inr b" by auto
  show ?case
  proof (cases b)
    case True
    with Cons.prems c obtain x where f: "f i = Inr x"
      and rest: "foldR (\<lambda>i acc. bindR (c i) (\<lambda>v. if \<not> v then Inr acc else bindR (f i) (\<lambda>x. Inr (acc @ [x])))) is (acc @ [x]) = Inr r"
      by auto
    from Cons.IH[OF rest] obtain xs where "r = (acc @ [x]) @ xs"
      "list_all2 (\<lambda>i x. f i = Inr x) (filter (\<lambda>i. c i = Inr True) is) xs" by blast
    then show ?thesis using c True f by (intro exI[of _ "x # xs"]) simp
  next
    case False
    with Cons.prems c have "foldR (\<lambda>i acc. bindR (c i) (\<lambda>v. if \<not> v then Inr acc else bindR (f i) (\<lambda>x. Inr (acc @ [x])))) is acc = Inr r"
      by simp
    from Cons.IH[OF this] c False show ?thesis by simp
  qed
qed simp

lemma list_all2_map_eq: "list_all2 (\<lambda>i x. x = g i) is xs \<Longrightarrow> xs = map g is"
  by (induction rule: list_all2_induct) auto

lemma getMajorityIndexofVoters_middle:
  assumes "getMajorityIndexofVoters ops nodeIds s = Inr v"
  shows "middle_desc (map (storedIndex ops s) (filter (\<lambda>i. roleOf (members s) i = Some Follower) nodeIds)) = Inr v"
proof -
  let ?f = "\<lambda>i. if selfId s = i then Inr (lo_getLastLogIndex ops (mLog s))
                 else bindR (findPeer i (members s)) (\<lambda>p. Inr (p_mMatchIndex p))"
  have "(\<lambda>i indices.
         bindR (isVoter i (members s)) (\<lambda>v.
           if \<not> v then Inr indices
           else if selfId s = i then Inr (indices @ [lo_getLastLogIndex ops (mLog s)])
           else bindR (findPeer i (members s)) (\<lambda>p. Inr (indices @ [p_mMatchIndex p]))))
      = (\<lambda>i acc. bindR (isVoter i (members s)) (\<lambda>v. if \<not> v then Inr acc else bindR (?f i) (\<lambda>x. Inr (acc @ [x]))))"
    by (intro ext bindR_cong) (auto simp: bindR_assoc)
  with assms obtain r where
    r: "foldR (\<lambda>i acc. bindR (isVoter i (members s)) (\<lambda>v. if \<not> v then Inr acc else bindR (?f i) (\<lambda>x. Inr (acc @ [x])))) nodeIds [] = Inr r"
    and m: "middle_desc r = Inr v"
    by (auto simp: getMajorityIndexofVoters_def)
  from foldR_collect[OF r]
  have "list_all2 (\<lambda>i x. ?f i = Inr x) (filter (\<lambda>i. isVoter i (members s) = Inr True) nodeIds) r" by auto
  then have "list_all2 (\<lambda>i x. x = storedIndex ops s i) (filter (\<lambda>i. isVoter i (members s) = Inr True) nodeIds) r"
    by (rule list_all2_mono) (auto simp: storedIndex_def split: if_splits)
  then have "r = map (storedIndex ops s) (filter (\<lambda>i. isVoter i (members s) = Inr True) nodeIds)"
    by (rule list_all2_map_eq)
  with m show ?thesis by (simp add: isVoter_Inr)
qed

lemma filter_set_card: "distinct xs \<Longrightarrow> length (filter P xs) = card {x \<in> set xs. P x}"
  using distinct_card[of "filter P xs"] by simp

text \<open>The in-sync learners, counted by what they are known to store.\<close>

definition learnersOf :: "membership \<Rightarrow> nat list \<Rightarrow> nat set" where
  "learnersOf m nodeIds = {i \<in> set nodeIds. roleOf m i = Some Learner}"

definition matchOf :: "'l raft_core \<Rightarrow> nat \<Rightarrow> nat" where
  "matchOf s i = (case map_of (peers s) i of None \<Rightarrow> 0 | Some p \<Rightarrow> p_mMatchIndex p)"

lemma getMajorityIndexofLearners_middle:
  assumes "getMajorityIndexofLearners nodeIds s = Inr v"
  shows "middle_desc (map (matchOf s) (filter (\<lambda>i. roleOf (members s) i = Some Learner) nodeIds)) = Inr v"
proof -
  let ?f = "\<lambda>i. bindR (findPeer i (members s)) (\<lambda>p. Inr (p_mMatchIndex p))"
  have "(\<lambda>i indices.
         bindR (isLearner i (members s)) (\<lambda>b.
           if \<not> b then Inr indices
           else bindR (findPeer i (members s)) (\<lambda>p. Inr (indices @ [p_mMatchIndex p]))))
      = (\<lambda>i acc. bindR (isLearner i (members s)) (\<lambda>v. if \<not> v then Inr acc else bindR (?f i) (\<lambda>x. Inr (acc @ [x]))))"
    by (intro ext bindR_cong) (auto simp: bindR_assoc)
  with assms obtain r where
    r: "foldR (\<lambda>i acc. bindR (isLearner i (members s)) (\<lambda>v. if \<not> v then Inr acc else bindR (?f i) (\<lambda>x. Inr (acc @ [x])))) nodeIds [] = Inr r"
    and m: "middle_desc r = Inr v"
    by (auto simp: getMajorityIndexofLearners_def)
  from foldR_collect[OF r]
  have "list_all2 (\<lambda>i x. ?f i = Inr x) (filter (\<lambda>i. isLearner i (members s) = Inr True) nodeIds) r" by auto
  then have "list_all2 (\<lambda>i x. x = matchOf s i) (filter (\<lambda>i. isLearner i (members s) = Inr True) nodeIds) r"
    by (rule list_all2_mono) (auto simp: matchOf_def)
  then have "r = map (matchOf s) (filter (\<lambda>i. isLearner i (members s) = Inr True) nodeIds)"
    by (rule list_all2_map_eq)
  with m show ?thesis by (simp add: isLearner_Inr)
qed

text \<open>The middle of what distinct nodes store is what a majority of them stores.\<close>

lemma middle_desc_quorum:
  assumes "middle_desc (map f (filter P is)) = Inr v" "distinct is"
  shows "is_majority {i \<in> set is. P i} {i. w \<le> f i} \<longleftrightarrow> w \<le> v"
proof -
  let ?xs = "map f (filter P is)"
  have V: "card {i \<in> set is. P i} = length ?xs"
    using assms(2) by (simp add: filter_set_card)
  have Q: "card ({i. u \<le> f i} \<inter> {i \<in> set is. P i}) = length (filter (\<lambda>x. u \<le> x) ?xs)" for u
  proof -
    have "{i. u \<le> f i} \<inter> {i \<in> set is. P i} = {i \<in> set (filter P is). u \<le> f i}" by auto
    then show ?thesis
      using assms(2) filter_set_card[of "filter P is" "\<lambda>i. u \<le> f i"] by (simp add: filter_map o_def)
  qed
  have fin: "finite {i \<in> set is. P i}" by simp
  have iff: "is_majority {i \<in> set is. P i} {i. u \<le> f i} \<longleftrightarrow>
      length ?xs div 2 + 1 \<le> length (filter (\<lambda>x. u \<le> x) ?xs)" for u
    by (simp only: is_majority_def getMajorityNumber_def V Q fin simp_thms)
  show ?thesis
  proof
    assume "is_majority {i \<in> set is. P i} {i. w \<le> f i}"
    then show "w \<le> v" using middle_desc_maximal[OF assms(1), of w] iff[of w] by fastforce
  next
    assume "w \<le> v"
    moreover have "is_majority {i \<in> set is. P i} {i. v \<le> f i}"
      using middle_desc_majority[OF assms(1)] iff[of v] by simp
    ultimately show "is_majority {i \<in> set is. P i} {i. w \<le> f i}"
      by (rule_tac is_majority_mono) auto
  qed
qed

lemma getMajorityIndexofVoters_majority:
  assumes "getMajorityIndexofVoters ops nodeIds s = Inr v" "distinct nodeIds"
  shows "is_majority (votersOf (members s) nodeIds) {i. w \<le> storedIndex ops s i} \<longleftrightarrow> w \<le> v"
  unfolding votersOf_def
  by (rule middle_desc_quorum[OF getMajorityIndexofVoters_middle[OF assms(1)] assms(2)])

lemma getMajorityIndexofLearners_majority:
  assumes "getMajorityIndexofLearners nodeIds s = Inr v" "distinct nodeIds"
  shows "is_majority (learnersOf (members s) nodeIds) {i. w \<le> matchOf s i} \<longleftrightarrow> w \<le> v"
  unfolding learnersOf_def
  by (rule middle_desc_quorum[OF getMajorityIndexofLearners_middle[OF assms(1)] assms(2)])

text \<open>
  What it takes for an index to be replicated: a majority of the voters, in a joint
  configuration a majority of both halves, and a majority of the in-sync learners if any.
\<close>

definition joint_config :: "membership \<Rightarrow> bool" where
  "joint_config m \<longleftrightarrow> ms_mOldMembers m \<noteq> [] \<and> ms_mNewMembers m \<noteq> []"

definition replicated :: "'l log_ops \<Rightarrow> 'l raft_core \<Rightarrow> nat \<Rightarrow> bool" where
  "replicated ops s w \<longleftrightarrow>
     (if joint_config (members s)
      then is_joint_majority (votersOf (members s) (ms_mOldMembers (members s)))
             (votersOf (members s) (ms_mNewMembers (members s))) {i. w \<le> storedIndex ops s i}
      else is_majority (votersOf (members s) (allNodeIds (members s))) {i. w \<le> storedIndex ops s i} \<and>
           (ms_mInsyncLearners (members s) \<noteq> [] \<longrightarrow>
              is_majority (learnersOf (members s) (ms_mInsyncLearners (members s))) {i. w \<le> matchOf s i}))"

definition member_sets_ok :: "membership \<Rightarrow> bool" where
  "member_sets_ok m \<longleftrightarrow> distinct (ms_mOldMembers m) \<and> distinct (ms_mNewMembers m) \<and> distinct (ms_mInsyncLearners m)"

lemma distinct_fold_insort_insert:
  "distinct xs \<Longrightarrow> distinct (fold (\<lambda>(i, p). insort_insert (f p)) ps (xs :: nat list))"
  by (induction ps arbitrary: xs) (auto simp: distinct_insort_insert)

lemma distinct_allNodeIds [simp]: "distinct (allNodeIds m)"
  by (simp add: allNodeIds_def distinct_insort_insert distinct_fold_insort_insert)

lemma set_fold_insort_insert:
  "set (fold (\<lambda>(i, p). insort_insert (f p)) ps (xs :: nat list)) = set xs \<union> (f \<circ> snd) ` set ps"
  by (induction ps arbitrary: xs) (auto simp: set_insort_insert)

lemma set_allNodeIds:
  "set (allNodeIds m) = insert (uint32 (mi_mId (ms_mSelfInfo m))) ((\<lambda>x. uint32 (p_mId (snd x))) ` set (ms_mPeers m))"
  by (simp add: allNodeIds_def set_insort_insert set_fold_insort_insert[where f = "\<lambda>p. uint32 (p_mId p)"] comp_def)

lemma getMajorityIndex_replicated:
  assumes "getMajorityIndex ops s = Inr v" "member_sets_ok (members s)"
  shows "replicated ops s w \<longleftrightarrow> w \<le> v"
  using assms unfolding getMajorityIndex_def
  by (elim resE)
     (auto simp: replicated_def joint_config_def member_sets_ok_def is_joint_majority_def
        dest!: getMajorityIndexofVoters_majority[where w = w] getMajorityIndexofLearners_majority[where w = w])

section \<open>What a passed vote means\<close>

text \<open>A node counts itself; a peer counts when its answer granted the vote.\<close>

definition hasVote :: "'l raft_core \<Rightarrow> nat \<Rightarrow> bool" where
  "hasVote s i \<longleftrightarrow> selfId s = i \<or> (\<exists>p. map_of (peers s) i = Some p \<and> p_mHaveVote p)"

lemma checkQuorumVote_count:
  assumes "foldR (\<lambda>i (voteNum, nonVoterNum).
         bindR (isLearner i (members s)) (\<lambda>b.
           if b then Inr (voteNum, nonVoterNum + 1)
           else if selfId s = i then Inr (voteNum + 1, nonVoterNum)
           else bindR (findPeer i (members s)) (\<lambda>p.
                  if p_mHaveVote p then Inr (voteNum + 1, nonVoterNum) else Inr (voteNum, nonVoterNum))))
         is (x, y) = Inr (x', y')"
  shows "x' = x + length (filter (\<lambda>i. roleOf (members s) i \<noteq> Some Learner \<and> hasVote s i) is) \<and>
    y' = y + length (filter (\<lambda>i. roleOf (members s) i = Some Learner) is)"
  using assms
proof (induction "is" arbitrary: x y)
  case (Cons i "is")
  from Cons.prems obtain xy where step: "bindR (isLearner i (members s)) (\<lambda>b.
           if b then Inr (x, y + 1)
           else if selfId s = i then Inr (x + 1, y)
           else bindR (findPeer i (members s)) (\<lambda>p.
                  if p_mHaveVote p then Inr (x + 1, y) else Inr (x, y))) = Inr xy"
    and rest: "foldR (\<lambda>i (voteNum, nonVoterNum).
         bindR (isLearner i (members s)) (\<lambda>b.
           if b then Inr (voteNum, nonVoterNum + 1)
           else if selfId s = i then Inr (voteNum + 1, nonVoterNum)
           else bindR (findPeer i (members s)) (\<lambda>p.
                  if p_mHaveVote p then Inr (voteNum + 1, nonVoterNum) else Inr (voteNum, nonVoterNum))))
         is xy = Inr (x', y')" by auto
  have "xy = (x + (if roleOf (members s) i \<noteq> Some Learner \<and> hasVote s i then 1 else 0),
             y + (if roleOf (members s) i = Some Learner then 1 else 0))"
    using step by (elim resE) (auto simp: isLearner_Inr hasVote_def)
  with Cons.IH[of "fst xy" "snd xy"] rest show ?case by auto
qed simp

lemma checkQuorumVoteofInput_majority:
  assumes "checkQuorumVoteofInput nodeIds s = Inr b" "distinct nodeIds"
  shows "b \<longleftrightarrow> is_majority (nonLearnersOf (members s) nodeIds) {i. hasVote s i}"
proof -
  let ?L = "\<lambda>i. roleOf (members s) i = Some Learner"
  obtain x y where f: "foldR (\<lambda>i (voteNum, nonVoterNum).
         bindR (isLearner i (members s)) (\<lambda>b.
           if b then Inr (voteNum, nonVoterNum + 1)
           else if selfId s = i then Inr (voteNum + 1, nonVoterNum)
           else bindR (findPeer i (members s)) (\<lambda>p.
                  if p_mHaveVote p then Inr (voteNum + 1, nonVoterNum) else Inr (voteNum, nonVoterNum))))
         nodeIds (0, 0) = Inr (x, y)"
    and b: "b \<longleftrightarrow> x \<ge> getMajorityNumber (sub64 (length nodeIds) y)"
    using assms(1) unfolding checkQuorumVoteofInput_def by (elim resE) auto
  have "x = length (filter (\<lambda>i. \<not> ?L i \<and> hasVote s i) nodeIds)" "y = length (filter ?L nodeIds)"
    using checkQuorumVote_count[OF f] by auto
  moreover have "length nodeIds - length (filter ?L nodeIds) = length (filter (\<lambda>i. \<not> ?L i) nodeIds)"
    using sum_length_filter_compl[of ?L nodeIds] by simp
  moreover have "card (nonLearnersOf (members s) nodeIds) = length (filter (\<lambda>i. \<not> ?L i) nodeIds)"
    using assms(2) by (simp add: nonLearnersOf_def filter_set_card)
  moreover have "card ({i. hasVote s i} \<inter> nonLearnersOf (members s) nodeIds) =
      length (filter (\<lambda>i. \<not> ?L i \<and> hasVote s i) nodeIds)"
  proof -
    have "{i. hasVote s i} \<inter> nonLearnersOf (members s) nodeIds = {i \<in> set nodeIds. \<not> ?L i \<and> hasVote s i}"
      by (auto simp: nonLearnersOf_def)
    with assms(2) show ?thesis by (simp add: filter_set_card)
  qed
  ultimately show ?thesis
    using b by (simp add: is_majority_def nonLearnersOf_def)
qed

definition elected :: "'l raft_core \<Rightarrow> bool" where
  "elected s \<longleftrightarrow>
     (if joint_config (members s)
      then is_joint_majority (nonLearnersOf (members s) (ms_mOldMembers (members s)))
             (nonLearnersOf (members s) (ms_mNewMembers (members s))) {i. hasVote s i}
      else is_majority (nonLearnersOf (members s) (allNodeIds (members s))) {i. hasVote s i})"

lemma checkVotePass_elected:
  assumes "checkVotePass s = Inr b" "member_sets_ok (members s)"
  shows "b \<longleftrightarrow> elected s"
  using assms unfolding checkVotePass_def
  by (elim resE)
     (auto simp: elected_def joint_config_def member_sets_ok_def is_joint_majority_def
        dest!: checkQuorumVoteofInput_majority)

end
