(* ===== verification/Raft_Core.thy ===== *)
theory Raft_Core
  imports Raft_Quorum
begin

text \<open>
  The consensus module \<^verbatim>\<open>v2/RaftCore\<close>: configuration, the sending half of the main loop,
  every message handler, the role changes, and the main loop that composes them. The log is
  used only through the method table of \<^verbatim>\<open>class Log\<close>. Each operation is a function on the
  state of the object; an abort or an exception is an \<^const>\<open>Inl\<close>.
\<close>

section \<open>Small updates\<close>

definition setPeer :: "nat \<Rightarrow> peer \<Rightarrow> 'l raft_core \<Rightarrow> 'l raft_core" where
  "setPeer k p s = setPeers (om_upd k p (peers s)) s"

definition termOfLogEntryAt :: "'l log_ops \<Rightarrow> nat \<Rightarrow> 'l raft_core \<Rightarrow> nat res" where
  "termOfLogEntryAt ops i s = getLogTerm ops i (mLog s)"

text \<open>
  The loops over \<^verbatim>\<open>mPendingClientRequests\<close>: pop from the front, reply through the handle
  when there is one.
\<close>

fun replyPending :: "nat \<Rightarrow> string \<Rightarrow> nat \<Rightarrow> (nat \<times> nat option) list \<Rightarrow> effect list" where
  "replyPending code msg leaderId [] = []"
| "replyPending code msg leaderId ((index, handle) # ps) =
     (case handle of None \<Rightarrow> [] | Some h \<Rightarrow> [ReplyClient h code msg leaderId]) @ replyPending code msg leaderId ps"

definition drainPending :: "string \<Rightarrow> 'l raft_core \<Rightarrow> 'l raft_core" where
  "drainPending msg s = s\<lparr>mEffects := mEffects s @ replyPending 301 msg (mLeaderId s) (mPendingClientRequests s),
     mPendingClientRequests := []\<rparr>"

section \<open>Configuration\<close>

definition kMinElectionTimeoutInMillis :: nat where "kMinElectionTimeoutInMillis = 500"
definition kMaxElectionTimeoutInMillis :: nat where "kMaxElectionTimeoutInMillis = kMinElectionTimeoutInMillis * 2"
definition kHeartBeatIntervalInMillis :: nat where "kHeartBeatIntervalInMillis = 10"
definition kAppendEntriesRpcTimeoutInMillis :: nat where "kAppendEntriesRpcTimeoutInMillis = 300"
definition kRequestVoteRpcTimeoutInMillis :: nat where "kRequestVoteRpcTimeoutInMillis = 100"

definition initConfigurableVars :: "ini_reader \<Rightarrow> 'l raft_core \<Rightarrow> 'l raft_core res" where
  "initConfigurableVars ini s =
     (let int_of = (\<lambda>name d. to_uint64 (ini_GetInteger ini ''raft.default'' name (int d)));
          s = s\<lparr>mMaxBatchSize := int_of ''max.batch.size'' 0,
                mMaxLenInBytes := int_of ''max.len.in.bytes'' 0,
                mMaxDecrStep := int_of ''max.decr.step'' 0,
                mMaxTailedEntryNum := int_of ''max.tailed.entry.num'' 0,
                mPreVoteEnabled := ini_GetBoolean ini ''raft.protocol'' ''enable.prevote'' True,
                mStreamingSvcEnabled := ini_GetBoolean ini ''streaming'' ''enable'' True,
                mHeartBeatIntervalInMillis := int_of ''heartbeat.interval.millis'' kHeartBeatIntervalInMillis,
                mMinElectionTimeoutInMillis := int_of ''min.election.timeout.millis'' kMinElectionTimeoutInMillis,
                mMaxElectionTimeoutInMillis := int_of ''max.election.timeout.millis'' kMaxElectionTimeoutInMillis,
                mRpcAppendEntriesTimeoutInMillis :=
                  int_of ''rpc.append.entries.timeout.millis'' kAppendEntriesRpcTimeoutInMillis,
                mRpcRequestVoteTimeoutInMillis :=
                  int_of ''rpc.request.vote.timeout.millis'' kRequestVoteRpcTimeoutInMillis\<rparr> in
      ensure (mMaxBatchSize s \<noteq> 0 \<and> mMaxLenInBytes s \<noteq> 0 \<and> mMaxDecrStep s \<noteq> 0 \<and> mMaxTailedEntryNum s \<noteq> 0)
       (if mRpcAppendEntriesTimeoutInMillis s \<ge> mMinElectionTimeoutInMillis s then Inl RuntimeError
        else if mHeartBeatIntervalInMillis s \<ge> mMinElectionTimeoutInMillis s then Inl RuntimeError
        else if mMinElectionTimeoutInMillis s \<ge> mMaxElectionTimeoutInMillis s then Inl RuntimeError
        else Inr s))"

text \<open>The timeouts a \<^verbatim>\<open>RaftClient\<close> gets when the constructor's last two arguments are left out.\<close>

definition new_client :: "string \<Rightarrow> raft_client" where
  "new_client addr = \<lparr>rc_mPeerAddress = addr,
     rc_mRpcAppendEntriesTimeoutInMillis = kAppendEntriesRpcTimeoutInMillis,
     rc_mRpcRequestVoteTimeoutInMillis = kRequestVoteRpcTimeoutInMillis\<rparr>"

definition role_of_initial :: "initial_raft_role \<Rightarrow> raft_role" where
  "role_of_initial r = (case r of IR_PreFollower \<Rightarrow> PreFollower | IR_Learner \<Rightarrow> Learner | IR_Voter \<Rightarrow> Follower)"

definition initClusterNode :: "nat \<Rightarrow> nat \<times> cluster_node \<Rightarrow> membership \<times> 'l raft_core \<Rightarrow> membership \<times> 'l raft_core" where
  "initClusterNode selfid = (\<lambda>(nodeId, node) (m, s).
     let addr = cn_mHostName node @ '':'' @ to_string (cn_mPortForRaft node) in
     if selfid = nodeId
     then (m\<lparr>ms_mSelfInfo := \<lparr>mi_mId = selfid, mi_mAddress = addr\<rparr>,
             ms_mInitialRoles := om_upd nodeId Follower (ms_mInitialRoles m)\<rparr>,
           s\<lparr>mStreamingPort := cn_mPortForStream node\<rparr>)
     else (m\<lparr>ms_mPeers := om_upd nodeId (new_peer\<lparr>p_mId := nodeId, p_mAddress := addr\<rparr>) (ms_mPeers m),
             ms_mInitialRoles := om_upd nodeId Follower (ms_mInitialRoles m)\<rparr>, s))"

definition initClusterConf :: "cluster_info \<Rightarrow> nat \<Rightarrow> 'l raft_core \<Rightarrow> (membership \<times> 'l raft_core) res" where
  "initClusterConf ci selfid s =
     (case fold (initClusterNode selfid) (ci_mNodes ci) (empty_membership, s) of (m, s) \<Rightarrow>
      let m = m\<lparr>ms_mInitialRoles :=
                  fold (\<lambda>(i, r). om_upd i (role_of_initial r)) (getAllInitialRoles ci) (ms_mInitialRoles m)\<rparr> in
      ensure (mi_mId (ms_mSelfInfo m) \<noteq> kBadID)
       (Inr (m\<lparr>ms_mClients := fold (\<lambda>(i, p). om_upd (p_mId p) (new_client (p_mAddress p))) (ms_mPeers m) [],
               ms_mOldMembers := ci_mOldJointMembers ci,
               ms_mNewMembers := ci_mNewJointMembers ci,
               ms_mInsyncLearners := ci_mInsyncLearners ci\<rparr>, s)))"

definition checkSelfNeedExit :: "'l raft_core \<Rightarrow> 'l raft_core res" where
  "checkSelfNeedExit s = ensure (selfId s \<noteq> kBadID) (Inr s)"

text \<open>Which storage \<^verbatim>\<open>initStorage\<close> constructs; the log itself is a parameter of the constructor.\<close>

datatype storage_choice = UseInMemoryLog | UseSegmentLog string nat nat

definition initStorage :: "ini_reader \<Rightarrow> storage_choice res" where
  "initStorage ini =
     (if ini_Get ini ''raft.storage'' ''storage.type'' [] \<noteq> ''file'' then Inr UseInMemoryLog
      else let storageDir = ini_Get ini ''raft.storage'' ''storage.dir'' [];
               dataSizeLimit = ini_GetInteger ini ''raft.storage'' ''segment.data.size.limit'' 0;
               metaSizeLimit = ini_GetInteger ini ''raft.storage'' ''segment.meta.size.limit'' 0 in
           ensure (storageDir \<noteq> [] \<and> dataSizeLimit > 0 \<and> metaSizeLimit > 0)
             (Inr (UseSegmentLog storageDir (to_uint64 dataSizeLimit) (to_uint64 metaSizeLimit))))"

definition initService :: "raft_env \<Rightarrow> ini_reader \<Rightarrow> 'l raft_core \<Rightarrow> 'l raft_core" where
  "initService env ini s =
     tick (s\<lparr>mElectionTimePointInNano := currentTimeInNanos env s
        + to_uint64 (ini_GetInteger ini ''raft.default'' ''initial.election.timeout'' 10) * 1000 * 1000 * 1000\<rparr>)"

text \<open>The members' default initialisers.\<close>

definition raft_core_fields :: "raft_role \<Rightarrow> 'l \<Rightarrow> 'l raft_core" where
  "raft_core_fields role l = \<lparr>mHeartBeatIntervalInMillis = kHeartBeatIntervalInMillis,
     mMinElectionTimeoutInMillis = kMinElectionTimeoutInMillis,
     mMaxElectionTimeoutInMillis = kMaxElectionTimeoutInMillis,
     mRpcAppendEntriesTimeoutInMillis = kAppendEntriesRpcTimeoutInMillis,
     mRpcRequestVoteTimeoutInMillis = kRequestVoteRpcTimeoutInMillis,
     mMaxBatchSize = 2000, mMaxLenInBytes = 5000000, mMaxDecrStep = 2000, mMaxTailedEntryNum = 5,
     mPreVoteEnabled = False, mLeaderId = kBadID, mElectionTimePointInNano = 0, mCommitIndex = 0,
     mBeginIndex = 1, mRaftRole = role, mLog = l, mPendingClientRequests = [], mAeRvQueue = [],
     mClientRequestsQueue = [], mClusterMembers = db_init empty_membership,
     mStreamingSvcEnabled = False, mStreamingPort = 0, mTick = 0, mEffects = []\<rparr>"

definition new_RaftCore ::
  "raft_env \<Rightarrow> ini_reader \<Rightarrow> (storage_choice \<Rightarrow> 'l res) \<Rightarrow> nat \<Rightarrow> cluster_info \<Rightarrow> raft_role \<Rightarrow> 'l \<Rightarrow> 'l raft_core res" where
  "new_RaftCore env ini openLog myNodeId ci role nolog =
     bindR (initConfigurableVars ini (raft_core_fields role nolog)) (\<lambda>s.
     bindR (initClusterConf ci myNodeId s) (\<lambda>(m, s).
     bindR (checkSelfNeedExit (setMembers m s)) (\<lambda>s.
     bindR (initStorage ini) (\<lambda>choice.
     bindR (openLog choice) (\<lambda>l.
     Inr (initService env ini (s\<lparr>mLog := l\<rparr>)))))))"

section \<open>Stepping down\<close>

definition stepDown :: "raft_env \<Rightarrow> 'l log_ops \<Rightarrow> nat \<Rightarrow> 'l raft_core \<Rightarrow> 'l raft_core res" where
  "stepDown env ops newTerm s =
     (let currentTerm = lo_getCurrentTerm ops (mLog s) in
      ensure (currentTerm \<le> newTerm)
       (let prevRole = mRaftRole s;
            s = (if prevRole \<noteq> Learner \<and> prevRole \<noteq> PreFollower then s\<lparr>mRaftRole := Follower\<rparr> else s) in
        bindR (if currentTerm < newTerm
               then Inr (s\<lparr>mLeaderId := 0,
                      mLog := lo_setVoteFor ops 0 (lo_setCurrentTerm ops newTerm (mLog s))\<rparr>)
               else ensure (prevRole = Candidate \<or> prevRole = PreCandidate) (ensure (mLeaderId s = 0) (Inr s)))
         (\<lambda>s. if prevRole = Leader
              then updateElectionTimePoint env (drainPending ''LeaderStepDown'' s)
              else Inr s)))"

section \<open>Sending\<close>

text \<open>The body of the loop of \<^verbatim>\<open>appendEntries\<close> for the peer stored under a key.\<close>

definition appendEntries_peer :: "raft_env \<Rightarrow> 'l log_ops \<Rightarrow> nat \<Rightarrow> 'l raft_core \<Rightarrow> 'l raft_core res" where
  "appendEntries_peer env ops k s =
     bindR (atR (peers s) k) (\<lambda>peer.
      let now = currentTimeInNanos env s; s = tick s in
      if p_mNextAERequestTimeInNano peer > now then Inr s
      else
        let currentTerm = lo_getCurrentTerm ops (mLog s);
            prevLogIndex = sub64 (p_mNextIndex peer) 1 in
        bindR (if prevLogIndex < sub64 (lo_getFirstLogIndex ops (mLog s)) 1
                  \<or> prevLogIndex > lo_getLastLogIndex ops (mLog s)
               then Inr (0, peer\<lparr>p_mSuppressBulkData := True\<rparr>)
               else bindR (termOfLogEntryAt ops prevLogIndex s) (\<lambda>t. Inr (t, peer))) (\<lambda>(prevLogTerm, peer).
        bindR (if \<not> p_mSuppressBulkData peer
               then lo_getEntries ops (p_mNextIndex peer) (mMaxLenInBytes s) (mMaxBatchSize s) (mLog s)
               else Inr (mLog s, 0, [])) (\<lambda>(l, batchSize, entries).
        let s = s\<lparr>mLog := l\<rparr>;
            request = \<lparr>aeq_term = currentTerm, aeq_leader_id = selfId s, aeq_prev_log_index = prevLogIndex,
              aeq_prev_log_term = prevLogTerm, aeq_entries = entries,
              aeq_commit_index = min (mCommitIndex s) (prevLogIndex + batchSize)\<rparr> in
        ensure (map_of (ms_mClients (members s)) (p_mId peer) \<noteq> None)
         (let s = emit (SendAE (p_mId peer) request) s;
              peer = peer\<lparr>p_mNextAERequestTimeInNano := uint64_max,
                          p_mLastAERequestTimeInNano := currentTimeInNanos env s\<rparr> in
          Inr (setPeer k peer (tick s))))))"

definition appendEntries :: "raft_env \<Rightarrow> 'l log_ops \<Rightarrow> 'l raft_core \<Rightarrow> 'l raft_core res" where
  "appendEntries env ops s =
     (if mRaftRole s \<noteq> Leader then Inr s
      else foldR (appendEntries_peer env ops) (map fst (peers s)) s)"

definition requestVote_peer :: "raft_env \<Rightarrow> 'l log_ops \<Rightarrow> nat \<Rightarrow> 'l raft_core \<Rightarrow> 'l raft_core res" where
  "requestVote_peer env ops k s =
     bindR (atR (peers s) k) (\<lambda>peer.
     bindR (isVoter (p_mId peer) (members s)) (\<lambda>v.
      if \<not> v then Inr s
      else if p_mRequestVoteDone peer then Inr s
      else
        let now = currentTimeInNanos env s; s = tick s in
        if p_mNextRVRequestTimeInNano peer > now then Inr s
        else
          let currentTerm = lo_getCurrentTerm ops (mLog s);
              lastLogIndex = lo_getLastLogIndex ops (mLog s) in
          bindR (termOfLogEntryAt ops lastLogIndex s) (\<lambda>lastLogTerm.
          let request = \<lparr>rvq_term = currentTerm, rvq_candidate_id = selfId s, rvq_last_log_index = lastLogIndex,
                rvq_last_log_term = lastLogTerm, rvq_prevote = (mRaftRole s = PreCandidate)\<rparr> in
          ensure (map_of (ms_mClients (members s)) (p_mId peer) \<noteq> None)
           (let s = emit (SendRV (p_mId peer) request) s;
                peer = peer\<lparr>p_mNextRVRequestTimeInNano := uint64_max,
                            p_mLastRVRequestTimeInNano := currentTimeInNanos env s\<rparr> in
            Inr (setPeer k peer (tick s))))))"

definition requestVote :: "raft_env \<Rightarrow> 'l log_ops \<Rightarrow> 'l raft_core \<Rightarrow> 'l raft_core res" where
  "requestVote env ops s =
     (if mRaftRole s \<noteq> Candidate \<and> mRaftRole s \<noteq> PreCandidate then Inr s
      else foldR (requestVote_peer env ops) (map fst (peers s)) s)"

section \<open>AppendEntries requests\<close>

text \<open>The body of the loop over the entries: the log, the running index and the entries to append.\<close>

definition handleAE_entry ::
  "'l log_ops \<Rightarrow> nat \<Rightarrow> log_entry \<Rightarrow> 'l \<times> nat \<times> log_entry list \<Rightarrow> ('l \<times> nat \<times> log_entry list) res" where
  "handleAE_entry ops commitIndex entry = (\<lambda>(l, index, entries).
     let index = index + 1 in
     ensure (le_index entry = index)
      (if le_index entry < lo_getFirstLogIndex ops l then Inr (l, index, entries)
       else if le_index entry \<le> lo_getLastLogIndex ops l
       then bindR (getLogTerm ops (le_index entry) l) (\<lambda>t.
              if le_term entry = t then Inr (l, index, entries)
              else ensure (le_index entry > commitIndex)
                (bindR (lo_truncateSuffix ops (le_index entry - 1) l) (\<lambda>l. Inr (l, index, entries @ [entry]))))
       else Inr (l, index, entries @ [entry])))"

text \<open>Accepting: merge the entries, append the new ones, follow the leader's commit index.\<close>

definition handleAE_accept ::
  "raft_env \<Rightarrow> 'l log_ops \<Rightarrow> ae_request \<Rightarrow> ae_response \<Rightarrow> 'l raft_core \<Rightarrow> (grpc_status \<times> ae_response \<times> 'l raft_core) res" where
  "handleAE_accept env ops request response s =
     bindR (foldR (handleAE_entry ops (mCommitIndex s)) (aeq_entries request) (mLog s, aeq_prev_log_index request, []))
       (\<lambda>(l, index, entries).
     bindR (lo_appendEntries ops entries l) (\<lambda>(l, ok).
     ensure ok
      (let s = s\<lparr>mLog := l\<rparr>;
           response = response\<lparr>aep_success := True, aep_last_log_index := lo_getLastLogIndex ops (mLog s),
             aep_match_index := aeq_prev_log_index request + length (aeq_entries request)\<rparr> in
       bindR (if mCommitIndex s < aeq_commit_index request
              then let s = s\<lparr>mCommitIndex := aeq_commit_index request\<rparr> in
                   ensure (mCommitIndex s \<le> lo_getLastLogIndex ops (mLog s)) (Inr s)
              else Inr s) (\<lambda>s.
       bindR (updateElectionTimePoint env s) (\<lambda>s. Inr (GrpcOK, response, s))))))"

text \<open>Hearing from the leader of the term: step down, restart the timer, remember the leader.\<close>

definition handleAE_hailLeader :: "raft_env \<Rightarrow> 'l log_ops \<Rightarrow> ae_request \<Rightarrow> 'l raft_core \<Rightarrow> 'l raft_core res" where
  "handleAE_hailLeader env ops request s =
     (let currentTerm = lo_getCurrentTerm ops (mLog s) in
      bindR (if aeq_term request > currentTerm \<or>
                (aeq_term request = currentTerm \<and> (mRaftRole s = Candidate \<or> mRaftRole s = PreCandidate))
             then stepDown env ops (aeq_term request) s else Inr s) (\<lambda>s.
      bindR (updateElectionTimePoint env s) (\<lambda>s.
      if mLeaderId s = 0 then Inr (s\<lparr>mLeaderId := aeq_leader_id request\<rparr>)
      else ensure (mLeaderId s = aeq_leader_id request) (Inr s))))"

definition handleAE_logIsOk :: "'l log_ops \<Rightarrow> ae_request \<Rightarrow> 'l raft_core \<Rightarrow> bool res" where
  "handleAE_logIsOk ops request s =
     (if aeq_prev_log_index request < lo_getFirstLogIndex ops (mLog s) then Inr True
      else if aeq_prev_log_index request \<le> lo_getLastLogIndex ops (mLog s)
      then bindR (termOfLogEntryAt ops (aeq_prev_log_index request) s)
             (\<lambda>t. Inr (t = aeq_prev_log_term request))
      else Inr False)"

definition handleAppendEntriesRequest ::
  "raft_env \<Rightarrow> 'l log_ops \<Rightarrow> ae_request \<Rightarrow> 'l raft_core \<Rightarrow> (grpc_status \<times> ae_response \<times> 'l raft_core) res" where
  "handleAppendEntriesRequest env ops request s =
     bindR (isVoter (aeq_leader_id request) (members s)) (\<lambda>v.
     if \<not> v then Inr (GrpcCancelled, empty_ae_response, s)
     else
       let currentTerm = lo_getCurrentTerm ops (mLog s);
           response = \<lparr>aep_term = currentTerm, aep_success = False, aep_id = selfId s,
             aep_saved_term = aeq_term request, aep_saved_prev_log_index = aeq_prev_log_index request,
             aep_last_log_index = lo_getLastLogIndex ops (mLog s), aep_match_index = 0\<rparr> in
       if aeq_term request < currentTerm then Inr (GrpcOK, response, s)
       else
         let response = response\<lparr>aep_term := aeq_term request\<rparr> in
         if mRaftRole s = Syncer then Inr (GrpcCancelled, response, s)
         else
           bindR (handleAE_hailLeader env ops request s) (\<lambda>s.
           bindR (handleAE_logIsOk ops request s) (\<lambda>logIsOk.
           if \<not> logIsOk then Inr (GrpcOK, response, s)
           else handleAE_accept env ops request response s)))"

section \<open>AppendEntries responses\<close>

text \<open>
  What a rejection does to the peer: a follower that lost its log, a leader whose own log was
  cut, and the back-off of the ordinary case.
\<close>

definition resetNextIndex :: "'l log_ops \<Rightarrow> 'l \<Rightarrow> nat \<Rightarrow> nat" where
  "resetNextIndex ops l lastLogIndex =
     (if lastLogIndex < lo_getFirstLogIndex ops l then lo_getLastLogIndex ops l + 1
      else min lastLogIndex (lo_getLastLogIndex ops l) + 1)"

definition rejectedPeer :: "'l log_ops \<Rightarrow> ae_response \<Rightarrow> 'l raft_core \<Rightarrow> peer \<Rightarrow> peer res" where
  "rejectedPeer ops response s peer =
     (if aep_last_log_index response < p_mMatchIndex peer
      then Inr (peer\<lparr>p_mNextIndex :=
                  (if aep_last_log_index response = 0 \<and> lo_getFirstLogIndex ops (mLog s) = 1
                   then aep_last_log_index response + 1
                   else resetNextIndex ops (mLog s) (aep_last_log_index response)),
                  p_mMatchIndex := 0, p_mSuppressBulkData := True\<rparr>)
      else if p_mNextIndex peer \<le> lo_getFirstLogIndex ops (mLog s)
      then Inr (peer\<lparr>p_mNextIndex := resetNextIndex ops (mLog s) (aep_last_log_index response),
                  p_mMatchIndex := 0, p_mSuppressBulkData := True\<rparr>)
      else ensure (p_mMatchIndex peer + 1 < p_mNextIndex peer)
       (if p_mNextIndex peer > aep_last_log_index response + 1
        then Inr (peer\<lparr>p_mNextIndex := aep_last_log_index response + 1\<rparr>)
        else let binaryDecrStep = (p_mNextIndex peer - p_mMatchIndex peer) div 2 in
             Inr (peer\<lparr>p_mNextIndex := p_mNextIndex peer - min binaryDecrStep (mMaxDecrStep s)\<rparr>)))"

definition acceptedPeer :: "ae_response \<Rightarrow> peer \<Rightarrow> peer res" where
  "acceptedPeer response peer =
     ensure (p_mMatchIndex peer \<le> aep_match_index response)
      (Inr (peer\<lparr>p_mMatchIndex := aep_match_index response, p_mNextIndex := aep_match_index response + 1,
              p_mSuppressBulkData := False\<rparr>))"

definition handleAppendEntriesResponse ::
  "raft_env \<Rightarrow> 'l log_ops \<Rightarrow> ae_response \<Rightarrow> 'l raft_core \<Rightarrow> 'l raft_core res" where
  "handleAppendEntriesResponse env ops response s =
     (let currentTerm = lo_getCurrentTerm ops (mLog s) in
      if currentTerm \<noteq> aep_saved_term response then Inr s
      else ensure (mRaftRole s = Leader)
       (if aep_term response > currentTerm then stepDown env ops (aep_term response) s
        else case map_of (peers s) (aep_id response) of
          None \<Rightarrow> Inr s
        | Some peer \<Rightarrow>
            if aep_saved_prev_log_index response \<noteq> sub64 (p_mNextIndex peer) 1 then Inr s
            else bindR (if aep_success response then acceptedPeer response peer
                        else rejectedPeer ops response s peer)
                   (\<lambda>peer. Inr (setPeer (aep_id response) peer s))))"

section \<open>RequestVote\<close>

text \<open>The second half: is the candidate's log up to date, is the vote free, is there a leader.\<close>

definition handleRV_noLeader :: "raft_env \<Rightarrow> 'l raft_core \<Rightarrow> bool \<times> 'l raft_core" where
  "handleRV_noLeader env s =
     (if mRaftRole s = Candidate \<or> mRaftRole s = PreCandidate then (True, s)
      else if mRaftRole s = Follower \<or> mRaftRole s = PreFollower
      then (mElectionTimePointInNano s \<le> currentTimeInNanos env s, tick s)
      else (False, s))"

definition handleRV_decide ::
  "raft_env \<Rightarrow> 'l log_ops \<Rightarrow> rv_request \<Rightarrow> rv_response \<Rightarrow> 'l raft_core \<Rightarrow> (grpc_status \<times> rv_response \<times> 'l raft_core) res" where
  "handleRV_decide env ops request response s =
     (let lastLogIndex = lo_getLastLogIndex ops (mLog s) in
      bindR (termOfLogEntryAt ops lastLogIndex s) (\<lambda>lastLogTerm.
      let logIsOk = (rvq_last_log_term request > lastLogTerm \<or>
            (rvq_last_log_term request = lastLogTerm \<and> rvq_last_log_index request \<ge> lastLogIndex)) in
      if \<not> logIsOk then Inr (GrpcOK, response, s)
      else
        let voteFor = lo_getVote ops (mLog s) in
        if \<not> rvq_prevote request \<and> (voteFor = 0 \<or> voteFor = rvq_candidate_id request)
        then bindR (updateElectionTimePoint env
                      (s\<lparr>mLog := lo_setVoteFor ops (rvq_candidate_id request) (mLog s)\<rparr>))
               (\<lambda>s. Inr (GrpcOK, response\<lparr>rvp_vote_granted := True\<rparr>, s))
        else
          let (noLeader, s) = handleRV_noLeader env s in
          if rvq_prevote request \<and> noLeader then Inr (GrpcOK, response\<lparr>rvp_vote_granted := True\<rparr>, s)
          else Inr (GrpcOK, response, s)))"

definition handleRequestVoteRequest ::
  "raft_env \<Rightarrow> 'l log_ops \<Rightarrow> rv_request \<Rightarrow> 'l raft_core \<Rightarrow> (grpc_status \<times> rv_response \<times> 'l raft_core) res" where
  "handleRequestVoteRequest env ops request s =
     (let currentTerm = lo_getCurrentTerm ops (mLog s);
          response = \<lparr>rvp_term = currentTerm, rvp_vote_granted = False, rvp_id = selfId s,
            rvp_saved_term = rvq_term request, rvp_prevote = rvq_prevote request\<rparr> in
      if mRaftRole s = Syncer \<or> mRaftRole s = Learner then Inr (GrpcCancelled, response, s)
      else bindR (isLearner (rvq_candidate_id request) (members s)) (\<lambda>b.
      if b then Inr (GrpcCancelled, response, s)
      else if \<not> rvq_prevote request \<and> rvq_term request < currentTerm then Inr (GrpcOK, response, s)
      else if \<not> rvq_prevote request \<and> rvq_term request > currentTerm
      then bindR (stepDown env ops (rvq_term request) s) (\<lambda>s.
             handleRV_decide env ops request (response\<lparr>rvp_term := rvq_term request\<rparr>) s)
      else handleRV_decide env ops request response s))"

definition handleRequestVoteResponse ::
  "raft_env \<Rightarrow> 'l log_ops \<Rightarrow> rv_response \<Rightarrow> 'l raft_core \<Rightarrow> 'l raft_core res" where
  "handleRequestVoteResponse env ops response s =
     (let currentTerm = lo_getCurrentTerm ops (mLog s) in
      if currentTerm \<noteq> rvp_saved_term response
         \<or> (\<not> rvp_prevote response \<and> mRaftRole s \<noteq> Candidate)
         \<or> (rvp_prevote response \<and> mRaftRole s \<noteq> PreCandidate) then Inr s
      else if rvp_term response > currentTerm then stepDown env ops (rvp_term response) s
      else case map_of (peers s) (rvp_id response) of
        None \<Rightarrow> Inr s
      | Some peer \<Rightarrow>
          let peer = peer\<lparr>p_mRequestVoteDone := True\<rparr>;
              peer = (if rvp_vote_granted response then peer\<lparr>p_mHaveVote := True\<rparr> else peer) in
          Inr (setPeer (rvp_id response) peer s))"

section \<open>Client, sync and reconfiguration requests\<close>

text \<open>The loop that keeps the requests whose index and term continue the log.\<close>

definition acceptClientRequest ::
  "nat \<Rightarrow> client_request \<Rightarrow> nat \<times> (nat \<times> nat option) list \<times> log_entry list
     \<Rightarrow> nat \<times> (nat \<times> nat option) list \<times> log_entry list" where
  "acceptClientRequest currentTerm r = (\<lambda>(lastLogIndex, pending, entries).
     if le_term (cr_mEntry r) = currentTerm \<and> le_index (cr_mEntry r) = lastLogIndex + 1
     then (lastLogIndex + 1, pending @ [(le_index (cr_mEntry r), cr_mRequestHandle r)], entries @ [cr_mEntry r])
     else (lastLogIndex, pending, entries))"

definition handleClientRequests :: "'l log_ops \<Rightarrow> client_request list \<Rightarrow> 'l raft_core \<Rightarrow> 'l raft_core res" where
  "handleClientRequests ops reqs s =
     (if mRaftRole s \<noteq> Leader
      then Inr (s\<lparr>mEffects := mEffects s @ replyPending 301 ''NotLeaderAnyMore'' (mLeaderId s)
                   (map (\<lambda>r. (le_index (cr_mEntry r), cr_mRequestHandle r)) reqs)\<rparr>)
      else case fold (acceptClientRequest (lo_getCurrentTerm ops (mLog s))) reqs
                  (lo_getLastLogIndex ops (mLog s), mPendingClientRequests s, []) of
        (lastLogIndex, pending, entries) \<Rightarrow>
          bindR (lo_appendEntries ops entries (mLog s))
            (\<lambda>(l, ok). Inr (s\<lparr>mLog := l, mPendingClientRequests := pending\<rparr>)))"

definition handleSyncRequest :: "raft_env \<Rightarrow> 'l log_ops \<Rightarrow> sync_request \<Rightarrow> 'l raft_core \<Rightarrow> 'l raft_core res" where
  "handleSyncRequest env ops req s =
     (if mRaftRole s \<noteq> Syncer then Inr s
      else case sr_mFinishMeta req of
        Some beginIndex \<Rightarrow>
          bindR (atR (ms_mInitialRoles (members s)) (uint32 (selfId s))) (\<lambda>r.
            updateElectionTimePoint env (s\<lparr>mRaftRole := r, mBeginIndex := beginIndex\<rparr>))
      | None \<Rightarrow>
          ensure (sr_mStartIndex req = lo_getLastLogIndex ops (mLog s) + 1)
          (ensure (sr_mEntries req \<noteq> [])
          (bindR (lo_appendEntries ops (sr_mEntries req) (mLog s)) (\<lambda>(l, ok).
           ensure ok
           (ensure (lo_getLastLogIndex ops l = sr_mEndIndex req)
            (let l = lo_setCurrentTerm ops (le_term (last (sr_mEntries req))) l in
             Inr (s\<lparr>mLog := l, mCommitIndex := lo_getLastLogIndex ops l\<rparr>)))))))"

text \<open>The loop of \<^verbatim>\<open>configurationSwitch\<close> over the peers of the new configuration.\<close>

definition inheritPeer ::
  "raft_env \<Rightarrow> 'l log_ops \<Rightarrow> membership \<Rightarrow> nat \<Rightarrow> 'l raft_core \<Rightarrow> 'l raft_core res" where
  "inheritPeer env ops bypass k s =
     bindR (atR (peers s) k) (\<lambda>peer.
      case map_of (ms_mPeers bypass) (p_mId peer) of
        Some old \<Rightarrow> Inr (setPeer k old s)
      | None \<Rightarrow> Inr (setPeer k (peer\<lparr>p_mNextIndex := lo_getLastLogIndex ops (mLog s) + 1, p_mMatchIndex := 0,
                   p_mSuppressBulkData := True, p_mNextAERequestTimeInNano := currentTimeInNanos env s\<rparr>) (tick s)))"

text \<open>The role in the new configuration; a leader that loses its role answers its clients.\<close>

definition switchRole :: "raft_env \<Rightarrow> 'l raft_core \<Rightarrow> 'l raft_core res" where
  "switchRole env s =
     (let prevRole = mRaftRole s in
      bindR (isLearner (selfId s) (members s)) (\<lambda>learner.
      bindR (if learner then Inr Learner
             else bindR (isPreFollower (selfId s) (members s)) (\<lambda>pre.
               if pre then Inr PreFollower else if prevRole \<noteq> Leader then Inr Follower else Inr prevRole)) (\<lambda>role.
      let s = s\<lparr>mRaftRole := role\<rparr> in
      if role \<noteq> prevRole \<and> prevRole = Leader
      then updateElectionTimePoint env (drainPending ''LeaderStepDown'' (s\<lparr>mLeaderId := 0\<rparr>))
      else Inr s)))"

definition configurationSwitch :: "raft_env \<Rightarrow> 'l log_ops \<Rightarrow> 'l raft_core \<Rightarrow> 'l raft_core res" where
  "configurationSwitch env ops s =
     (if mRaftRole s = Syncer then Inr s
      else
        let s = s\<lparr>mClusterMembers := db_swap (mClusterMembers s)\<rparr>;
            bypass = db_getBypass (mClusterMembers s) in
        bindR (checkSelfNeedExit s) (\<lambda>s.
        bindR (foldR (inheritPeer env ops bypass) (map fst (peers s)) s) (\<lambda>s.
        switchRole env s)))"

definition handleReconfigureRequest ::
  "raft_env \<Rightarrow> 'l log_ops \<Rightarrow> nat \<Rightarrow> cluster_info \<Rightarrow> 'l raft_core \<Rightarrow> 'l raft_core res" where
  "handleReconfigureRequest env ops selfid ci s =
     (if mRaftRole s = Syncer then Inr s
      else bindR (initClusterConf ci selfid s) (\<lambda>(m, s).
             configurationSwitch env ops (s\<lparr>mClusterMembers := db_setBypass m (mClusterMembers s)\<rparr>)))"

section \<open>Commit, elections and leadership\<close>

text \<open>Popping the pending requests whose index is committed, from the front.\<close>

fun popCommitted :: "nat \<Rightarrow> (nat \<times> nat option) list \<Rightarrow> (nat \<times> nat option) list \<times> (nat \<times> nat option) list" where
  "popCommitted commitIndex [] = ([], [])"
| "popCommitted commitIndex ((index, handle) # ps) =
     (if index > commitIndex then ([], (index, handle) # ps)
      else case popCommitted commitIndex ps of (done, rest) \<Rightarrow> ((index, handle) # done, rest))"

definition advanceCommitIndex :: "'l log_ops \<Rightarrow> 'l raft_core \<Rightarrow> 'l raft_core res" where
  "advanceCommitIndex ops s =
     (if mRaftRole s \<noteq> Leader then Inr s
      else bindR (getMajorityIndex ops s) (\<lambda>majorityIndex.
        if mCommitIndex s \<ge> majorityIndex then Inr s
        else bindR (termOfLogEntryAt ops majorityIndex s) (\<lambda>t.
          if t \<noteq> lo_getCurrentTerm ops (mLog s) then Inr s
          else
            let s = s\<lparr>mCommitIndex := majorityIndex\<rparr> in
            ensure (mCommitIndex s \<le> lo_getLastLogIndex ops (mLog s))
             (case popCommitted (mCommitIndex s) (mPendingClientRequests s) of (done, rest) \<Rightarrow>
                Inr (s\<lparr>mPendingClientRequests := rest,
                       mEffects := mEffects s @ replyPending 200 ''Success'' (mLeaderId s) done\<rparr>)))))"

text \<open>The loop that schedules a round of vote requests.\<close>

definition scheduleRV :: "raft_env \<Rightarrow> nat \<Rightarrow> 'l raft_core \<Rightarrow> 'l raft_core res" where
  "scheduleRV env k s =
     bindR (atR (peers s) k) (\<lambda>peer.
       Inr (setPeer k (peer\<lparr>p_mRequestVoteDone := False, p_mHaveVote := False,
              p_mNextRVRequestTimeInNano := currentTimeInNanos env s\<rparr>) (tick s)))"

definition becomeCandidate :: "raft_env \<Rightarrow> 'l log_ops \<Rightarrow> 'l raft_core \<Rightarrow> 'l raft_core res" where
  "becomeCandidate env ops s =
     (if mRaftRole s \<noteq> PreCandidate then Inr s
      else bindR (checkVotePass s) (\<lambda>pass.
        if \<not> pass then Inr s
        else
          bindR (updateElectionTimePoint env (s\<lparr>mRaftRole := Candidate, mLeaderId := 0,
                   mLog := lo_setVoteFor ops (selfId s)
                             (lo_setCurrentTerm ops (lo_getCurrentTerm ops (mLog s) + 1) (mLog s))\<rparr>)) (\<lambda>s.
          foldR (scheduleRV env) (map fst (peers s)) s)))"

definition scheduleHeartbeat :: "raft_env \<Rightarrow> 'l log_ops \<Rightarrow> nat \<Rightarrow> 'l raft_core \<Rightarrow> 'l raft_core res" where
  "scheduleHeartbeat env ops k s =
     bindR (atR (peers s) k) (\<lambda>peer.
       Inr (setPeer k (peer\<lparr>p_mNextIndex := lo_getLastLogIndex ops (mLog s) + 1, p_mMatchIndex := 0,
              p_mSuppressBulkData := True, p_mNextAERequestTimeInNano := currentTimeInNanos env s\<rparr>) (tick s)))"

definition noop_entry :: "nat \<Rightarrow> nat \<Rightarrow> nat \<Rightarrow> nat \<Rightarrow> log_entry" where
  "noop_entry version t index checksum = \<lparr>le_term = t, le_index = index, le_noop = True, le_checksum = checksum,
     le_payload = [], le_version = version, le_specialTag = None\<rparr>"

definition becomeLeader :: "raft_env \<Rightarrow> 'l log_ops \<Rightarrow> 'l raft_core \<Rightarrow> 'l raft_core res" where
  "becomeLeader env ops s =
     (if mRaftRole s \<noteq> Candidate then Inr s
      else bindR (checkVotePass s) (\<lambda>pass.
        if \<not> pass then Inr s
        else
          bindR (foldR (scheduleHeartbeat env ops) (map fst (peers s)) (s\<lparr>mRaftRole := Leader, mLeaderId := selfId s\<rparr>)) (\<lambda>s.
          let entry = noop_entry (lo_getLatestSecKeyVersion ops (mLog s)) (lo_getCurrentTerm ops (mLog s))
                        (lo_getLastLogIndex ops (mLog s) + 1) (currentTimeInNanos env s) in
          bindR (lo_appendEntry ops entry (mLog s)) (\<lambda>(l, ok).
          ensure ok (Inr (tick (s\<lparr>mLog := l\<rparr>)))))))"

text \<open>Without the pre-vote a node goes straight to the next term.\<close>

definition raiseElection :: "'l log_ops \<Rightarrow> 'l raft_core \<Rightarrow> 'l raft_core" where
  "raiseElection ops s =
     (if \<not> mPreVoteEnabled s
      then s\<lparr>mRaftRole := Candidate, mLeaderId := 0,
             mLog := lo_setVoteFor ops (selfId s)
                       (lo_setCurrentTerm ops (lo_getCurrentTerm ops (mLog s) + 1) (mLog s))\<rparr>
      else s\<lparr>mRaftRole := PreCandidate, mLeaderId := 0\<rparr>)"

definition electionTimeout :: "raft_env \<Rightarrow> 'l log_ops \<Rightarrow> 'l raft_core \<Rightarrow> 'l raft_core res" where
  "electionTimeout env ops s =
     (if mRaftRole s = Leader \<or> mRaftRole s = Syncer \<or> mRaftRole s = Learner \<or> mRaftRole s = PreFollower then Inr s
      else
        let now = currentTimeInNanos env s; s = tick s in
        if mElectionTimePointInNano s > now then Inr s
        else
          bindR (updateElectionTimePoint env (raiseElection ops s)) (\<lambda>s.
          foldR (scheduleRV env) (map fst (peers s)) s))"

text \<open>
  The elapsed nanoseconds are compared as \<^verbatim>\<open>timeElapseInNano / 1000000.0 < mMaxElectionTimeoutInMillis\<close>
  on doubles; the model compares without the division.
\<close>

definition leadershipTimeout :: "raft_env \<Rightarrow> 'l log_ops \<Rightarrow> 'l raft_core \<Rightarrow> 'l raft_core res" where
  "leadershipTimeout env ops s =
     (if mRaftRole s \<noteq> Leader then Inr s
      else bindR (getMajorityTimeElapse env s) (\<lambda>(timeElapseInNano, s).
        if timeElapseInNano < mMaxElectionTimeoutInMillis s * 1000000 then Inr s
        else stepDown env ops (lo_getCurrentTerm ops (mLog s) + 1) s))"

section \<open>The main loop\<close>

text \<open>
  The two response branches first turn the peer's switch back on:
  \<open>hbIntervalInNano\<close> after the last request or now, whichever is later.
\<close>

definition handleAEResponseEvent ::
  "raft_env \<Rightarrow> 'l log_ops \<Rightarrow> nat \<Rightarrow> bool \<Rightarrow> ae_response \<Rightarrow> 'l raft_core \<Rightarrow> 'l raft_core res" where
  "handleAEResponseEvent env ops peerId ok response s =
     (case map_of (peers s) peerId of
        None \<Rightarrow> Inr s
      | Some peer \<Rightarrow>
          let hbIntervalInNano = mHeartBeatIntervalInMillis s * 1000 * 1000;
              peer = peer\<lparr>p_mNextAERequestTimeInNano :=
                       max (p_mLastAERequestTimeInNano peer + hbIntervalInNano) (currentTimeInNanos env s)\<rparr>;
              s = tick s in
          if ok
          then handleAppendEntriesResponse env ops response
                 (tick (setPeer peerId (peer\<lparr>p_mLastResponseTimeInNano := currentTimeInNanos env s\<rparr>) s))
          else Inr (setPeer peerId (peer\<lparr>p_mSuppressBulkData := True\<rparr>) s))"

definition handleRVResponseEvent ::
  "raft_env \<Rightarrow> 'l log_ops \<Rightarrow> nat \<Rightarrow> bool \<Rightarrow> rv_response \<Rightarrow> 'l raft_core \<Rightarrow> 'l raft_core res" where
  "handleRVResponseEvent env ops peerId ok response s =
     (case map_of (peers s) peerId of
        None \<Rightarrow> Inr s
      | Some peer \<Rightarrow>
          let hbIntervalInNano = mHeartBeatIntervalInMillis s * 1000 * 1000;
              peer = peer\<lparr>p_mNextRVRequestTimeInNano :=
                       max (p_mLastRVRequestTimeInNano peer + hbIntervalInNano) (currentTimeInNanos env s)\<rparr>;
              s = tick s in
          if ok
          then handleRequestVoteResponse env ops response
                 (tick (setPeer peerId (peer\<lparr>p_mLastResponseTimeInNano := currentTimeInNanos env s\<rparr>) s))
          else Inr (setPeer peerId peer s))"

definition handleEvent :: "raft_env \<Rightarrow> 'l log_ops \<Rightarrow> raft_event \<Rightarrow> 'l raft_core \<Rightarrow> 'l raft_core res" where
  "handleEvent env ops event s =
     (case event of
        AppendEntriesRequestEvent call request \<Rightarrow>
          bindR (handleAppendEntriesRequest env ops request s)
            (\<lambda>(status, response, s). Inr (emit (ReplyAE call status response) s))
      | AppendEntriesResponseEvent peerId ok response \<Rightarrow> handleAEResponseEvent env ops peerId ok response s
      | RequestVoteRequestEvent call request \<Rightarrow>
          bindR (handleRequestVoteRequest env ops request s)
            (\<lambda>(status, response, s). Inr (emit (ReplyRV call status response) s))
      | RequestVoteResponseEvent peerId ok response \<Rightarrow> handleRVResponseEvent env ops peerId ok response s
      | ClientRequestEvent reqs \<Rightarrow> handleClientRequests ops reqs s
      | SyncRequestEvent req \<Rightarrow> handleSyncRequest env ops req s
      | ReconfigureRequestEvent selfid ci \<Rightarrow> handleReconfigureRequest env ops selfid ci s)"

definition receiveMessage :: "raft_env \<Rightarrow> 'l log_ops \<Rightarrow> 'l raft_core \<Rightarrow> 'l raft_core res" where
  "receiveMessage env ops s =
     (case mAeRvQueue s of
        event # rest \<Rightarrow> handleEvent env ops event (s\<lparr>mAeRvQueue := rest\<rparr>)
      | [] \<Rightarrow> (case mClientRequestsQueue s of
                 event # rest \<Rightarrow> handleEvent env ops event (s\<lparr>mClientRequestsQueue := rest\<rparr>)
               | [] \<Rightarrow> Inr s))"

text \<open>One round of \<^verbatim>\<open>raftLoopMain\<close>.\<close>

definition raftLoopBody :: "raft_env \<Rightarrow> 'l log_ops \<Rightarrow> 'l raft_core \<Rightarrow> 'l raft_core res" where
  "raftLoopBody env ops s =
     bindR (appendEntries env ops s) (\<lambda>s.
     bindR (requestVote env ops s) (\<lambda>s.
     bindR (receiveMessage env ops s) (\<lambda>s.
     bindR (advanceCommitIndex ops s) (\<lambda>s.
     bindR (becomeCandidate env ops s) (\<lambda>s.
     bindR (becomeLeader env ops s) (\<lambda>s.
     bindR (electionTimeout env ops s) (\<lambda>s.
     leadershipTimeout env ops s)))))))"

section \<open>The interface towards the other threads\<close>

definition getLeaderHint :: "'l raft_core \<Rightarrow> nat option" where
  "getLeaderHint s = (if mLeaderId s \<noteq> 0 then Some (mLeaderId s) else None)"

definition getClusterMembers :: "'l raft_core \<Rightarrow> member_info list" where
  "getClusterMembers s = sort_key mi_mId
     (ms_mSelfInfo (members s) # map (\<lambda>(i, p). \<lparr>mi_mId = i, mi_mAddress = p_mAddress p\<rparr>) (peers s))"

definition getEntry :: "'l log_ops \<Rightarrow> nat \<Rightarrow> 'l raft_core \<Rightarrow> ('l \<times> log_entry option) res" where
  "getEntry ops index s =
     ensure (mRaftRole s = Syncer \<or> index \<le> mCommitIndex s) (lo_getEntry ops index (mLog s))"

definition getEntries :: "'l log_ops \<Rightarrow> nat \<Rightarrow> nat \<Rightarrow> 'l raft_core \<Rightarrow> ('l \<times> nat \<times> log_entry list) res" where
  "getEntries ops startIndex sz s =
     ensure (sub64 (startIndex + sz) 1 \<le> mCommitIndex s)
       (lo_getEntries ops startIndex (mMaxLenInBytes s) sz (mLog s))"

definition truncatePrefix :: "'l log_ops \<Rightarrow> nat \<Rightarrow> 'l raft_core \<Rightarrow> 'l raft_core res" where
  "truncatePrefix ops firstIndexKept s =
     ensure (firstIndexKept \<le> mCommitIndex s)
       (bindR (lo_truncatePrefix ops firstIndexKept (mLog s)) (\<lambda>l. Inr (s\<lparr>mLog := l\<rparr>)))"

definition getMemberOffsets :: "'l raft_core \<Rightarrow> nat \<times> (nat \<times> string \<times> nat) list" where
  "getMemberOffsets s =
     (mCommitIndex s, map (\<lambda>(i, p). (p_mId p, p_mAddress p, p_mMatchIndex p)) (peers s))"

definition enqueueClientRequests :: "client_request list \<Rightarrow> 'l raft_core \<Rightarrow> 'l raft_core" where
  "enqueueClientRequests reqs s =
     s\<lparr>mClientRequestsQueue := mClientRequestsQueue s @ [ClientRequestEvent reqs]\<rparr>"

definition enqueueSyncRequest :: "sync_request \<Rightarrow> 'l raft_core \<Rightarrow> 'l raft_core" where
  "enqueueSyncRequest req s =
     s\<lparr>mClientRequestsQueue := mClientRequestsQueue s @ [SyncRequestEvent req]\<rparr>"

definition enqueueReconfigureRequest :: "nat \<Rightarrow> cluster_info \<Rightarrow> 'l raft_core \<Rightarrow> 'l raft_core" where
  "enqueueReconfigureRequest selfid ci s =
     s\<lparr>mClientRequestsQueue := mClientRequestsQueue s @ [ReconfigureRequestEvent selfid ci]\<rparr>"

end
