(* ===== verification/InMemoryLog.thy ===== *)
theory InMemoryLog
  imports Log_Store
begin

text \<open>
  The in-memory log (\<^verbatim>\<open>storage/InMemoryLog.h\<close>): a vector of entries with its first and
  last index. Its operations, that they implement the abstract log, and the two places
  where it behaves differently from the file-backed log.
\<close>

record inmemory_log =
  ml_mLog :: "log_entry list"
  ml_mFirstIndex :: nat
  ml_mLastIndex :: nat
  ml_mTerm :: nat
  ml_mVoteFor :: nat

definition mem_init :: inmemory_log where
  "mem_init = \<lparr>ml_mLog = [], ml_mFirstIndex = 1, ml_mLastIndex = 0, ml_mTerm = 0, ml_mVoteFor = 0\<rparr>"

section \<open>Operations\<close>

definition mem_appendEntry :: "log_entry \<Rightarrow> inmemory_log \<Rightarrow> inmemory_log \<times> bool" where
  "mem_appendEntry e l =
     (if ml_mLastIndex l + 1 \<noteq> le_index e then (l, False)
      else (l\<lparr>ml_mLastIndex := ml_mLastIndex l + 1, ml_mLog := ml_mLog l @ [e]\<rparr>, True))"

fun mem_appendEntries :: "log_entry list \<Rightarrow> inmemory_log \<Rightarrow> inmemory_log \<times> bool" where
  "mem_appendEntries [] l = (l, True)"
| "mem_appendEntries (e # es) l =
     (case mem_appendEntry e l of (l', ok) \<Rightarrow> if \<not> ok then (l', False) else mem_appendEntries es l')"

text \<open>The entry at index 0 is the dummy entry before the first one.\<close>

definition dummy_entry :: log_entry where
  "dummy_entry = \<lparr>le_term = 0, le_index = 0, le_noop = False, le_checksum = 0, le_payload = [],
     le_version = kInvalidSecKeyVersion, le_specialTag = None\<rparr>"

definition mem_getEntry :: "nat \<Rightarrow> inmemory_log \<Rightarrow> log_entry option res" where
  "mem_getEntry index l =
     (if index = 0 then Inr (Some dummy_entry)
      else if index < ml_mFirstIndex l \<or> index > ml_mLastIndex l then Inr None
      else bindR (vec_at (ml_mLog l) (index - ml_mFirstIndex l)) (\<lambda>e. Inr (Some e)))"

definition mem_getTerm :: "nat \<Rightarrow> inmemory_log \<Rightarrow> nat option res" where
  "mem_getTerm index l =
     (if index = 0 then Inr (Some 0)
      else if index < ml_mFirstIndex l \<or> index > ml_mLastIndex l then Inr None
      else bindR (vec_at (ml_mLog l) (index - ml_mFirstIndex l)) (\<lambda>e. Inr (Some (le_term e))))"

text \<open>
  The array variant of \<^verbatim>\<open>getEntries\<close>: \<^verbatim>\<open>index + size - 1\<close> is computed on unsigned integers,
  so a size of 0 at index 0 wraps around.
\<close>

definition mem_getEntriesArray :: "nat \<Rightarrow> nat \<Rightarrow> inmemory_log \<Rightarrow> log_entry list option res" where
  "mem_getEntriesArray index sz l =
     (if index < ml_mFirstIndex l \<or> sub64 (index + sz) 1 > ml_mLastIndex l then Inr None
      else bindR (foldR (\<lambda>i es. bindR (vec_at (ml_mLog l) (index + i - ml_mFirstIndex l)) (\<lambda>e. Inr (es @ [e])))
              [0..<sz] [])
            (\<lambda>es. Inr (Some es)))"

text \<open>
  The batch read. \<open>bs\<close> is \<^verbatim>\<open>LogEntry::ByteSizeLong\<close>, which the protocol buffer compiler
  generates. The loop adds entries while the count and the total size allow it.
\<close>

function mem_getEntries_loop ::
  "(log_entry \<Rightarrow> nat) \<Rightarrow> inmemory_log \<Rightarrow> nat \<Rightarrow> nat \<Rightarrow> nat \<Rightarrow> nat \<Rightarrow> nat \<Rightarrow> log_entry list
     \<Rightarrow> (nat \<times> log_entry list) res" where
  "mem_getEntries_loop bs l startIndex maxLenInBytes maxBatchSize batchSize lenInBytes entries =
     (if batchSize \<ge> maxBatchSize then Inr (batchSize, entries)
      else bindR (vec_at (ml_mLog l) (sub64 (startIndex + batchSize) (ml_mFirstIndex l)))
        (\<lambda>nextEntry.
          if lenInBytes + bs nextEntry > maxLenInBytes then Inr (batchSize, entries)
          else mem_getEntries_loop bs l startIndex maxLenInBytes maxBatchSize
                 (batchSize + 1) (lenInBytes + bs nextEntry) (entries @ [nextEntry])))"
  by pat_completeness auto
termination
  by (relation "measure (\<lambda>(bs, l, s, ml, mb, b, len, es). mb - b)") auto

declare mem_getEntries_loop.simps [simp del]

definition mem_getEntries ::
  "(log_entry \<Rightarrow> nat) \<Rightarrow> nat \<Rightarrow> nat \<Rightarrow> nat \<Rightarrow> inmemory_log \<Rightarrow> (nat \<times> log_entry list) res" where
  "mem_getEntries bs startIndex maxLenInBytes maxBatchSize l =
     (if startIndex > ml_mLastIndex l
      then ensure (startIndex = ml_mLastIndex l + 1) (Inr (0, []))
      else mem_getEntries_loop bs l startIndex maxLenInBytes
             (min maxBatchSize (ml_mLastIndex l - startIndex + 1)) 0 0 [])"

definition mem_truncatePrefix :: "nat \<Rightarrow> inmemory_log \<Rightarrow> inmemory_log" where
  "mem_truncatePrefix firstIndexKept l =
     (if ml_mFirstIndex l \<ge> firstIndexKept then l
      else if firstIndexKept > ml_mLastIndex l
        then l\<lparr>ml_mFirstIndex := firstIndexKept, ml_mLastIndex := firstIndexKept - 1, ml_mLog := []\<rparr>
        else l\<lparr>ml_mFirstIndex := firstIndexKept,
               ml_mLog := drop (firstIndexKept - ml_mFirstIndex l) (ml_mLog l)\<rparr>)"

definition mem_truncateSuffix :: "nat \<Rightarrow> inmemory_log \<Rightarrow> inmemory_log" where
  "mem_truncateSuffix lastIndexKept l =
     (if ml_mLastIndex l \<le> lastIndexKept then l
      else if lastIndexKept < ml_mFirstIndex l
        then l\<lparr>ml_mLastIndex := lastIndexKept, ml_mFirstIndex := lastIndexKept + 1, ml_mLog := []\<rparr>
        else l\<lparr>ml_mLastIndex := lastIndexKept,
               ml_mLog := take (lastIndexKept - ml_mFirstIndex l + 1) (ml_mLog l)\<rparr>)"

definition mem_setCurrentTerm :: "nat \<Rightarrow> inmemory_log \<Rightarrow> inmemory_log" where
  "mem_setCurrentTerm t l = l\<lparr>ml_mTerm := t\<rparr>"

definition mem_setVoteFor :: "nat \<Rightarrow> inmemory_log \<Rightarrow> inmemory_log" where
  "mem_setVoteFor v l = l\<lparr>ml_mVoteFor := v\<rparr>"

text \<open>The method table of \<^verbatim>\<open>class InMemoryLog : public Log\<close>.\<close>

definition mem_ops :: "(log_entry \<Rightarrow> nat) \<Rightarrow> inmemory_log log_ops" where
  "mem_ops bs = \<lparr>
     lo_getLatestSecKeyVersion = (\<lambda>l. kInvalidSecKeyVersion),
     lo_appendEntry = (\<lambda>e l. Inr (mem_appendEntry e l)),
     lo_appendEntries = (\<lambda>es l. Inr (mem_appendEntries es l)),
     lo_getEntry = (\<lambda>i l. bindR (mem_getEntry i l) (\<lambda>e. Inr (l, e))),
     lo_getTerm = mem_getTerm,
     lo_getEntries = (\<lambda>i ml mb l. bindR (mem_getEntries bs i ml mb l) (\<lambda>r. Inr (l, r))),
     lo_truncatePrefix = (\<lambda>k l. Inr (mem_truncatePrefix k l)),
     lo_truncateSuffix = (\<lambda>k l. Inr (mem_truncateSuffix k l)),
     lo_getFirstLogIndex = ml_mFirstIndex,
     lo_getLastLogIndex = ml_mLastIndex,
     lo_setCurrentTerm = mem_setCurrentTerm,
     lo_setVoteFor = mem_setVoteFor,
     lo_getCurrentTerm = ml_mTerm,
     lo_getVote = ml_mVoteFor\<rparr>"

section \<open>The representation\<close>

definition mem_abs :: "inmemory_log \<Rightarrow> alog" where
  "mem_abs l = \<lparr>al_first = ml_mFirstIndex l, al_entries = ml_mLog l,
     al_term = ml_mTerm l, al_vote = ml_mVoteFor l\<rparr>"

definition mem_inv :: "inmemory_log \<Rightarrow> bool" where
  "mem_inv l \<longleftrightarrow> 1 \<le> ml_mFirstIndex l \<and> ml_mLastIndex l + 1 = ml_mFirstIndex l + length (ml_mLog l) \<and>
     consec (ml_mFirstIndex l) (ml_mLog l)"

lemmas mem_defs = mem_abs_def mem_inv_def

lemma mem_abs_simps [simp]:
  "al_first (mem_abs l) = ml_mFirstIndex l" "al_entries (mem_abs l) = ml_mLog l"
  "al_term (mem_abs l) = ml_mTerm l" "al_vote (mem_abs l) = ml_mVoteFor l"
  by (simp_all add: mem_abs_def)

lemma mem_last [simp]: "mem_inv l \<Longrightarrow> al_last (mem_abs l) = ml_mLastIndex l"
  by (auto simp: mem_inv_def al_last_def)

lemma mem_wf [simp]: "mem_inv l \<Longrightarrow> alog_wf (mem_abs l)"
  by (simp add: mem_inv_def alog_wf_def)

lemma mem_inv_init: "mem_inv mem_init"
  by (simp add: mem_inv_def mem_init_def)

lemma mem_appendEntry_correct:
  assumes "mem_inv l" and "mem_appendEntry e l = (l', b)"
  shows "mem_inv l' \<and> b = (le_index e = ml_mLastIndex l + 1) \<and>
    mem_abs l' = (if b then al_append [e] (mem_abs l) else mem_abs l)"
  using assms by (auto simp: mem_appendEntry_def mem_defs al_append_def split: if_splits)

lemma mem_appendEntries_correct:
  assumes "mem_inv l" and "mem_appendEntries es l = (l', b)"
  shows "mem_inv l' \<and> (\<exists>k. mem_abs l' = al_append (take k es) (mem_abs l) \<and>
    consec (ml_mLastIndex l + 1) (take k es) \<and> k \<le> length es \<and> b = (k = length es))"
  using assms
proof (induction es arbitrary: l)
  case (Cons e es)
  obtain l1 b1 where a: "mem_appendEntry e l = (l1, b1)" by fastforce
  note c = mem_appendEntry_correct[OF Cons.prems(1) a]
  show ?case
  proof (cases b1)
    case True
    with Cons.prems a have r: "mem_appendEntries es l1 = (l', b)" by simp
    have last: "ml_mLastIndex l1 = Suc (ml_mLastIndex l)"
      using a True by (auto simp: mem_appendEntry_def split: if_splits)
    from c True have i: "mem_inv l1" and abs1: "mem_abs l1 = al_append [e] (mem_abs l)"
      and idx: "le_index e = ml_mLastIndex l + 1" by auto
    from Cons.IH[OF i r] obtain k where k: "mem_inv l'"
      "mem_abs l' = al_append (take k es) (mem_abs l1)"
      "consec (ml_mLastIndex l1 + 1) (take k es)" "k \<le> length es" "b = (k = length es)" by blast
    have "mem_abs l' = al_append (take (Suc k) (e # es)) (mem_abs l)"
      using k(2) abs1 by (simp add: al_append_append)
    moreover have "consec (ml_mLastIndex l + 1) (take (Suc k) (e # es))"
      using k(3) idx last by simp
    ultimately show ?thesis using k(1,4,5) by (auto intro!: exI[of _ "Suc k"])
  next
    case False
    with Cons.prems a have "l' = l1" "\<not> b" by auto
    with c False show ?thesis by (auto intro!: exI[of _ 0])
  qed
qed (auto intro: exI[of _ 0])

lemma mem_appendEntries_consec:
  "consec (ml_mLastIndex l + 1) es \<Longrightarrow> snd (mem_appendEntries es l)"
  by (induction es arbitrary: l) (auto simp: mem_appendEntry_def)

lemma mem_getTerm_in:
  "mem_inv l \<Longrightarrow> al_has (mem_abs l) i \<Longrightarrow> mem_getTerm i l = Inr (Some (le_term (al_at (mem_abs l) i)))"
  by (auto simp: mem_getTerm_def mem_inv_def al_has_def al_last_def al_at_def vec_at_def)

lemma mem_getTerm_0: "mem_getTerm 0 l = Inr (Some 0)"
  by (simp add: mem_getTerm_def)

lemma mem_getTerm_above:
  "mem_inv l \<Longrightarrow> ml_mLastIndex l < i \<Longrightarrow> mem_getTerm i l = Inr None"
  by (simp add: mem_getTerm_def)

lemma mem_set_correct:
  "mem_inv (mem_setCurrentTerm t l) = mem_inv l" "mem_inv (mem_setVoteFor v l) = mem_inv l"
  "mem_abs (mem_setCurrentTerm t l) = (mem_abs l)\<lparr>al_term := t\<rparr>"
  "mem_abs (mem_setVoteFor v l) = (mem_abs l)\<lparr>al_vote := v\<rparr>"
  by (simp_all add: mem_setCurrentTerm_def mem_setVoteFor_def mem_defs)

lemma mem_getTerm_out:
  "mem_inv l \<Longrightarrow> i \<noteq> 0 \<Longrightarrow> \<not> al_has (mem_abs l) i \<Longrightarrow> mem_getTerm i l = Inr None"
  by (auto simp: mem_getTerm_def al_has_def)

lemma mem_truncateSuffix_correct:
  "mem_inv l \<Longrightarrow> mem_inv (mem_truncateSuffix k l) \<and>
     mem_abs (mem_truncateSuffix k l) = al_truncateSuffix k (mem_abs l)"
  by (auto simp: mem_truncateSuffix_def mem_inv_def al_truncateSuffix_def mem_abs_def al_last_def)

lemma mem_truncatePrefix_correct:
  "mem_inv l \<Longrightarrow> mem_inv (mem_truncatePrefix k l) \<and>
     mem_abs (mem_truncatePrefix k l) = al_truncatePrefix k (mem_abs l)"
  using consec_drop[of "ml_mFirstIndex l" "ml_mLog l" "k - ml_mFirstIndex l"]
  by (auto simp: mem_truncatePrefix_def mem_inv_def al_truncatePrefix_def mem_abs_def al_last_def)

section \<open>Batch reads\<close>

lemma mem_getEntries_loop_correct:
  assumes "mem_inv l" "ml_mFirstIndex l \<le> start" "start + mb \<le> ml_mLastIndex l + 1"
    "batch \<le> mb" "len \<le> ml"
    and r: "r = take_fit bs (ml - len) (take (mb - batch) (drop (start + batch - ml_mFirstIndex l) (ml_mLog l)))"
  shows "mem_getEntries_loop bs l start ml mb batch len es = Inr (batch + length r, es @ r)"
  using assms
proof (induction bs l start ml mb batch len es arbitrary: r rule: mem_getEntries_loop.induct)
  case (1 bs l start ml mb batch len es)
  note loop = mem_getEntries_loop.simps[of bs l start ml mb batch len es]
  show ?case
  proof (cases "mb \<le> batch")
    case True
    with "1.prems"(4,6) have "r = []" and "batch = mb" by simp_all
    with True show ?thesis by (simp add: mem_getEntries_loop.simps)
  next
    case False
    define i where "i = start + batch - ml_mFirstIndex l"
    have i: "i < length (ml_mLog l)" and sub: "sub64 (start + batch) (ml_mFirstIndex l) = i"
      using "1.prems"(1-4) False by (auto simp: i_def mem_inv_def)
    have next_i: "start + (batch + 1) - ml_mFirstIndex l = Suc i"
      using "1.prems"(2) by (auto simp: i_def)
    have mb_batch: "mb - batch = Suc (mb - (batch + 1))" using False by simp
    have slice: "take (mb - batch) (drop i (ml_mLog l)) =
        ml_mLog l ! i # take (mb - (batch + 1)) (drop (Suc i) (ml_mLog l))"
      by (simp only: mb_batch Cons_nth_drop_Suc[OF i, symmetric] take_Suc_Cons)
    have at: "vec_at (ml_mLog l) (sub64 (start + batch) (ml_mFirstIndex l)) = Inr (ml_mLog l ! i)"
      using i sub by simp
    show ?thesis
    proof (cases "len + bs (ml_mLog l ! i) > ml")
      case True
      with "1.prems"(5) have "r = []" by (simp add: "1.prems"(6) i_def[symmetric] slice)
      with True False at show ?thesis by (simp add: loop)
    next
      case fits: False
      let ?e = "ml_mLog l ! i"
      let ?r = "take_fit bs (ml - (len + bs ?e)) (take (mb - (batch + 1)) (drop (Suc i) (ml_mLog l)))"
      have r: "r = ?e # ?r" using fits by (simp add: "1.prems"(6) i_def[symmetric] slice)
      have "mem_getEntries_loop bs l start ml mb (batch + 1) (len + bs ?e) (es @ [?e]) =
          Inr (batch + 1 + length ?r, (es @ [?e]) @ ?r)"
        using "1.prems"(1-3) False fits
        by (intro "1.IH"[OF False at]) (auto simp: next_i[symmetric])
      with False fits at r show ?thesis by (simp add: loop)
    qed
  qed
qed

text \<open>
  Equivalence with the reference: the loop returns the longest run of stored entries from
  \<open>startIndex\<close> that respects both limits.
\<close>

lemma mem_getEntries_correct:
  assumes "mem_inv l" "ml_mFirstIndex l \<le> start" "start \<le> ml_mLastIndex l + 1"
    and r: "r = take_fit bs ml (take mb (drop (start - ml_mFirstIndex l) (ml_mLog l)))"
  shows "mem_getEntries bs start ml mb l = Inr (length r, r)"
proof (cases "start > ml_mLastIndex l")
  case True
  with assms show ?thesis by (auto simp: mem_getEntries_def mem_inv_def)
next
  case False
  let ?mb = "min mb (ml_mLastIndex l - start + 1)"
  have "ml_mLastIndex l - start + 1 = length (ml_mLog l) - (start - ml_mFirstIndex l)"
    using assms(1,2) False by (auto simp: mem_inv_def)
  then have "take ?mb (drop (start - ml_mFirstIndex l) (ml_mLog l)) =
      take mb (drop (start - ml_mFirstIndex l) (ml_mLog l))"
    by (simp add: min_def)
  with r have "r = take_fit bs (ml - 0) (take (?mb - 0) (drop (start + 0 - ml_mFirstIndex l) (ml_mLog l)))"
    by simp
  with assms(1,2) False show ?thesis
    by (subst mem_getEntries_def) (auto intro!: mem_getEntries_loop_correct[THEN trans])
qed

lemma mem_getEntries_abort:
  "mem_inv l \<Longrightarrow> ml_mLastIndex l + 1 < start \<Longrightarrow> mem_getEntries bs start ml mb l = Inl AssertFailed"
  by (simp add: mem_getEntries_def)

section \<open>The contract\<close>

lemma mem_getEntries_law:
  assumes "mem_inv l" "ml_mFirstIndex l \<le> i" "mem_getEntries bs i ml mb l = Inr (n, es)"
  shows "n = length es \<and> n \<le> mb \<and> es = take n (drop (i - ml_mFirstIndex l) (ml_mLog l))"
proof -
  let ?s = "take mb (drop (i - ml_mFirstIndex l) (ml_mLog l))"
  have "i \<le> ml_mLastIndex l + 1"
    using mem_getEntries_abort[OF assms(1), of i bs ml mb] assms(3) by fastforce
  from mem_getEntries_correct[OF assms(1,2) this refl, of bs ml mb] assms(3)
  have es: "es = take_fit bs ml ?s" and n: "n = length es" by auto
  have "length es \<le> length ?s" unfolding es by (rule take_fit_length)
  then have le: "n \<le> mb" using n by simp
  have "es = take n ?s" unfolding n es by (rule take_fit_eq_take)
  then have "es = take n (drop (i - ml_mFirstIndex l) (ml_mLog l))"
    by (simp only: take_take min.absorb1[OF le])
  with le n show ?thesis by blast
qed

definition mem_fits :: "log_entry list \<Rightarrow> inmemory_log \<Rightarrow> bool" where
  "mem_fits es l \<longleftrightarrow> True"

interpretation mem: log_store_total "mem_ops bs" mem_abs mem_inv mem_fits
proof (unfold_locales, goal_cases)
  case (9 l e l' b)
  then show ?case using mem_appendEntry_correct[of l e l' b] by (simp add: mem_ops_def)
next
  case (10 l es l' b)
  then show ?case using mem_appendEntries_correct[of l es l' b] by (simp add: mem_ops_def)
next
  case (15 l i l' r)
  then show ?case
    by (auto simp: mem_ops_def mem_getEntry_def mem_inv_def al_has_def al_last_def al_at_def
        vec_at_def split: if_splits)
next
  case (16 l i ml mb l' n es)
  then have r: "mem_getEntries bs i ml mb l = Inr (n, es)" and l': "l' = l" by (auto simp: mem_ops_def)
  have "ml_mFirstIndex l \<le> i" using 16(2) by simp
  from mem_getEntries_law[OF 16(1) this r] show ?case
    unfolding l' mem_abs_simps by blast
next
  case (19 l es)
  then show ?case using mem_appendEntries_consec[of l es]
    by (cases "mem_appendEntries es l") (simp add: mem_ops_def)
qed (auto simp: mem_ops_def mem_getTerm_in mem_getTerm_above mem_getTerm_0
      mem_truncateSuffix_correct mem_truncatePrefix_correct mem_set_correct)

end
