(* ===== verification/Crypto.thy ===== *)
theory Crypto
  imports Log_Store Decimal
begin

text \<open>
  Keys and cryptography (\<^verbatim>\<open>util/SecretKey.h\<close>, \<^verbatim>\<open>util/FileSecretKey.cpp\<close>,
  \<^verbatim>\<open>util/CryptoUtil.cpp\<close>). OpenSSL is a parameter: a record of the calls the wrapper makes,
  with what the library documents as the predicate \<open>openssl_ok\<close>.
\<close>

section \<open>Secret keys\<close>

text \<open>
  \<open>sk_mAllKeys\<close> is the vector indexed by the key version; slot 0 is never a key. The key file
  is a text-format message; its parser and the base64 decoder (which must yield exactly 32
  bytes) are parameters.
\<close>

definition kKeyLen :: nat where "kKeyLen = 32"

record secret_key =
  sk_mAllKeys :: "string list"
  sk_mLatestVersion :: nat

definition no_keys :: secret_key where
  "no_keys = \<lparr>sk_mAllKeys = [], sk_mLatestVersion = kInvalidSecKeyVersion\<rparr>"

definition SecretKey_getKeyByVersion :: "nat \<Rightarrow> secret_key \<Rightarrow> string res" where
  "SecretKey_getKeyByVersion version sk =
     ensure (version \<le> sk_mLatestVersion sk) (vec_at (sk_mAllKeys sk) version)"

text \<open>The override of \<^verbatim>\<open>FileSecretKey\<close> ends the process instead of asserting.\<close>

definition assertValidVersion :: "nat \<Rightarrow> secret_key \<Rightarrow> unit res" where
  "assertValidVersion version sk = (if version > sk_mLatestVersion sk then Inl RuntimeError else Inr ())"

definition getKeyByVersion :: "nat \<Rightarrow> secret_key \<Rightarrow> string res" where
  "getKeyByVersion version sk = bindR (assertValidVersion version sk) (\<lambda>_. vec_at (sk_mAllKeys sk) version)"

definition decodeBase64Key :: "(string \<Rightarrow> string) \<Rightarrow> string \<Rightarrow> string res" where
  "decodeBase64Key b64 s = (let key = b64 s in if length key \<noteq> kKeyLen then Inl RuntimeError else Inr key)"

text \<open>
  The loading loop: every key is decoded into the slot of its version. The vector has one slot
  more than the file has keys, and the slot is written before the versions are checked.
\<close>

record key_load =
  kl_keys :: "string list"
  kl_latest :: nat
  kl_oldest :: nat

definition load_start :: "nat \<Rightarrow> key_load" where
  "load_start n = \<lparr>kl_keys = replicate n (replicate kKeyLen (CHR 0x00)),
     kl_latest = kInvalidSecKeyVersion, kl_oldest = kInvalidSecKeyVersion\<rparr>"

definition loadKey :: "(string \<Rightarrow> string) \<Rightarrow> nat \<times> string \<Rightarrow> key_load \<Rightarrow> key_load res" where
  "loadKey b64 kv k = (case kv of (version, key) \<Rightarrow>
     ensure (version > kInvalidSecKeyVersion)
       (bindR (vec_at (kl_keys k) version) (\<lambda>_.
        bindR (decodeBase64Key b64 key) (\<lambda>raw.
        Inr \<lparr>kl_keys = (kl_keys k)[version := raw],
             kl_latest = (if version > kl_latest k then version else kl_latest k),
             kl_oldest = (if kl_oldest k = kInvalidSecKeyVersion \<or> version < kl_oldest k then version
                          else kl_oldest k)\<rparr>))))"

definition FileSecretKey ::
  "(string \<Rightarrow> string option) \<Rightarrow> (string \<Rightarrow> (nat \<times> string) list option) \<Rightarrow> (string \<Rightarrow> string) \<Rightarrow> string
     \<Rightarrow> secret_key res" where
  "FileSecretKey files parse b64 keyFilePath =
     (case files keyFilePath of None \<Rightarrow> Inl RuntimeError
      | Some content \<Rightarrow>
         (case parse content of None \<Rightarrow> Inl AssertFailed
          | Some keySet \<Rightarrow>
             bindR (foldR (loadKey b64) keySet (load_start (length keySet + 1))) (\<lambda>k.
             ensure (kl_latest k \<noteq> kInvalidSecKeyVersion)
             (ensure (kl_oldest k = kOldestSecKeyVersion)
             (ensure (kl_latest k = length (remdups (map fst keySet)))
             (Inr \<lparr>sk_mAllKeys = kl_keys k, sk_mLatestVersion = kl_latest k\<rparr>))))))"

section \<open>The wrapper of OpenSSL\<close>

text \<open>
  The \<^verbatim>\<open>EVP\<close> calls in the order the wrapper makes them. \<open>evp_new\<close> is
  \<^verbatim>\<open>EVP_CIPHER_CTX_new\<close>, the others take the key, the initial vector and the text; an update
  and a final call return the bytes they write, or fail. \<open>ossl_HMAC\<close> is \<^verbatim>\<open>HMAC(EVP_sha256(), ..)\<close>.
\<close>

record openssl =
  evp_new :: bool
  evp_encryptInit :: "string \<Rightarrow> string \<Rightarrow> bool"
  evp_encryptUpdate :: "string \<Rightarrow> string \<Rightarrow> string \<Rightarrow> string option"
  evp_encryptFinal :: "string \<Rightarrow> string \<Rightarrow> string \<Rightarrow> string option"
  evp_decryptInit :: "string \<Rightarrow> string \<Rightarrow> bool"
  evp_decryptUpdate :: "string \<Rightarrow> string \<Rightarrow> string \<Rightarrow> string option"
  evp_decryptFinal :: "string \<Rightarrow> string \<Rightarrow> string \<Rightarrow> string option"
  ossl_HMAC :: "string \<Rightarrow> string \<Rightarrow> string option"

definition AES_BLOCK_SIZE :: nat where "AES_BLOCK_SIZE = 16"

record crypto_util =
  cu_mEnabled :: bool
  cu_mSecKeys :: secret_key

definition CryptoUtil_new :: crypto_util where
  "CryptoUtil_new = \<lparr>cu_mEnabled = False, cu_mSecKeys = no_keys\<rparr>"

definition mIV :: string where "mIV = replicate AES_BLOCK_SIZE (CHR 0x00)"

text \<open>\<open>mkKeys\<close> is \<^verbatim>\<open>secretFactory.create(reader)\<close>.\<close>

definition CryptoUtil_init :: "ini_reader \<Rightarrow> secret_key res \<Rightarrow> crypto_util \<Rightarrow> crypto_util res" where
  "CryptoUtil_init ini mkKeys c =
     (if cu_mEnabled c then Inl RuntimeError
      else let enableCrypt = ini_GetBoolean ini ''aes'' ''enable'' True;
               keyFileName = ini_Get ini ''aes'' ''filename'' [];
               keyPathOnMicrovault = ini_Get ini ''aes'' ''microvault.key_path'' [] in
           if \<not> enableCrypt \<or> (keyFileName = [] \<and> keyPathOnMicrovault = [])
           then Inr (c\<lparr>cu_mEnabled := False\<rparr>)
           else bindR mkKeys (\<lambda>ks. Inr (c\<lparr>cu_mSecKeys := ks, cu_mEnabled := True\<rparr>)))"

definition SecretKeyFactoryDefault_create ::
  "(string \<Rightarrow> string option) \<Rightarrow> (string \<Rightarrow> (nat \<times> string) list option) \<Rightarrow> (string \<Rightarrow> string) \<Rightarrow> ini_reader
     \<Rightarrow> secret_key res" where
  "SecretKeyFactoryDefault_create files parse b64 ini =
     FileSecretKey files parse b64 (ini_Get ini ''aes'' ''filename'' [])"

definition getLatestSecKeyVersion :: "crypto_util \<Rightarrow> nat" where
  "getLatestSecKeyVersion c = (if cu_mEnabled c then sk_mLatestVersion (cu_mSecKeys c) else kInvalidSecKeyVersion)"

text \<open>
  The static \<^verbatim>\<open>encrypt\<close> and \<^verbatim>\<open>decrypt\<close>: \<open>None\<close> is the return value \<^verbatim>\<open>-1\<close>. The caller's buffer
  has \<open>room\<close> bytes; writing more is out of bounds.
\<close>

definition evp_encrypt :: "openssl \<Rightarrow> string \<Rightarrow> string \<Rightarrow> string \<Rightarrow> nat \<Rightarrow> string option res" where
  "evp_encrypt ssl plain key iv room =
     (if \<not> evp_new ssl then Inr None
      else if \<not> evp_encryptInit ssl key iv then Inr None
      else case evp_encryptUpdate ssl key iv plain of None \<Rightarrow> Inr None
        | Some upd \<Rightarrow>
           (case evp_encryptFinal ssl key iv plain of None \<Rightarrow> Inr None
            | Some fin \<Rightarrow> if length (upd @ fin) > room then Inl OutOfBounds else Inr (Some (upd @ fin))))"

definition evp_decrypt :: "openssl \<Rightarrow> string \<Rightarrow> string \<Rightarrow> string \<Rightarrow> nat \<Rightarrow> string option res" where
  "evp_decrypt ssl cipher key iv room =
     (if \<not> evp_new ssl then Inr None
      else if \<not> evp_decryptInit ssl key iv then Inr None
      else case evp_decryptUpdate ssl key iv cipher of None \<Rightarrow> Inr None
        | Some upd \<Rightarrow>
           (case evp_decryptFinal ssl key iv cipher of None \<Rightarrow> Inr None
            | Some fin \<Rightarrow> if length (upd @ fin) > room then Inl OutOfBounds else Inr (Some (upd @ fin))))"

text \<open>The in-place operations return the new payload and the code the caller tests against 0.\<close>

definition encrypt :: "openssl \<Rightarrow> string \<Rightarrow> nat \<Rightarrow> crypto_util \<Rightarrow> (string \<times> int) res" where
  "encrypt ssl payload version c =
     (if \<not> cu_mEnabled c then Inr (payload, 0)
      else bindR (getKeyByVersion version (cu_mSecKeys c)) (\<lambda>key.
           bindR (evp_encrypt ssl payload key mIV (length payload + AES_BLOCK_SIZE)) (\<lambda>r.
           Inr (case r of None \<Rightarrow> (payload, - 1) | Some cipher \<Rightarrow> (cipher, 0)))))"

definition decrypt :: "openssl \<Rightarrow> string \<Rightarrow> nat \<Rightarrow> crypto_util \<Rightarrow> (string \<times> int) res" where
  "decrypt ssl payload version c =
     (if \<not> cu_mEnabled c then Inr (payload, 0)
      else bindR (getKeyByVersion version (cu_mSecKeys c)) (\<lambda>key.
           bindR (evp_decrypt ssl payload key mIV (length payload)) (\<lambda>r.
           Inr (case r of None \<Rightarrow> (payload, - 1) | Some plain \<Rightarrow> (plain, 0)))))"

definition hmac :: "openssl \<Rightarrow> string \<Rightarrow> nat \<Rightarrow> crypto_util \<Rightarrow> string res" where
  "hmac ssl payload version c =
     (if \<not> cu_mEnabled c then Inr []
      else bindR (getKeyByVersion version (cu_mSecKeys c)) (\<lambda>key.
           case ossl_HMAC ssl key payload of None \<Rightarrow> Inl AssertFailed
           | Some digest \<Rightarrow> ensure (length digest = 32) (Inr digest)))"

text \<open>
  What OpenSSL documents of these calls: with a 256-bit key they succeed, the cipher text is at
  most one block longer than the text, decryption with the same key gives the text back, and
  SHA-256 has 32 bytes.
\<close>

definition openssl_ok :: "openssl \<Rightarrow> bool" where
  "openssl_ok ssl \<longleftrightarrow> evp_new ssl \<and>
     (\<forall>key. length key = kKeyLen \<longrightarrow>
        evp_encryptInit ssl key mIV \<and> evp_decryptInit ssl key mIV \<and>
        (\<forall>text. \<exists>u f u' f'. evp_encryptUpdate ssl key mIV text = Some u \<and> evp_encryptFinal ssl key mIV text = Some f \<and>
            length (u @ f) \<le> length text + AES_BLOCK_SIZE \<and> length text \<le> length (u @ f) \<and>
            evp_decryptUpdate ssl key mIV (u @ f) = Some u' \<and> evp_decryptFinal ssl key mIV (u @ f) = Some f' \<and>
            u' @ f' = text) \<and>
        (\<forall>text. \<exists>d. ossl_HMAC ssl key text = Some d \<and> length d = 32))"

text \<open>Keys as the loader leaves them: versions 1 to the latest, each of 32 bytes.\<close>

definition keys_ok :: "secret_key \<Rightarrow> bool" where
  "keys_ok sk \<longleftrightarrow> kOldestSecKeyVersion \<le> sk_mLatestVersion sk \<and> sk_mLatestVersion sk < length (sk_mAllKeys sk) \<and>
     (\<forall>k \<in> set (sk_mAllKeys sk). length k = kKeyLen)"

definition crypto_ok :: "crypto_util \<Rightarrow> bool" where
  "crypto_ok c \<longleftrightarrow> (cu_mEnabled c \<longrightarrow> keys_ok (cu_mSecKeys c))"

section \<open>Loading keys\<close>

lemma loadKey_Inr:
  "loadKey b64 (v, key) k = Inr k' \<longleftrightarrow>
     0 < v \<and> v < length (kl_keys k) \<and> length (b64 key) = kKeyLen \<and>
     k' = \<lparr>kl_keys = (kl_keys k)[v := b64 key], kl_latest = max v (kl_latest k),
           kl_oldest = (if kl_oldest k = 0 \<or> v < kl_oldest k then v else kl_oldest k)\<rparr>"
  by (auto simp: loadKey_def decodeBase64Key_def Let_def kInvalidSecKeyVersion_def max_def)

text \<open>The invariant of the loading loop over the keys \<open>seen\<close> so far.\<close>

definition load_inv :: "(string \<Rightarrow> string) \<Rightarrow> nat \<Rightarrow> (nat \<times> string) list \<Rightarrow> key_load \<Rightarrow> bool" where
  "load_inv b64 n seen k \<longleftrightarrow> length (kl_keys k) = n \<and> (\<forall>x \<in> set (kl_keys k). length x = kKeyLen) \<and>
     (\<forall>v \<in> fst ` set seen. 0 < v \<and> v < n) \<and> kl_latest k = Max (insert 0 (fst ` set seen)) \<and>
     (\<forall>v key. map_of (rev seen) v = Some key \<longrightarrow> kl_keys k ! v = b64 key)"

lemma load_inv_step:
  assumes "load_inv b64 n seen k" and "loadKey b64 (v, key) k = Inr k'"
  shows "load_inv b64 n (seen @ [(v, key)]) k'"
proof -
  have k': "0 < v" "v < length (kl_keys k)" "length (b64 key) = kKeyLen" "kl_keys k' = (kl_keys k)[v := b64 key]"
    "kl_latest k' = max v (kl_latest k)"
    using assms(2) by (auto simp: loadKey_Inr)
  have len: "\<forall>x \<in> set (kl_keys k'). length x = kKeyLen"
    using assms(1) k' set_update_subset_insert[of "kl_keys k" v "b64 key"] by (auto simp: load_inv_def)
  have mx: "kl_latest k' = Max (insert 0 (fst ` set (seen @ [(v, key)])))"
  proof -
    have "insert 0 (fst ` set (seen @ [(v, key)])) = insert v (insert 0 (fst ` set seen))" by auto
    then show ?thesis using assms(1) k'(5) by (simp only: Max_insert finite_insert finite_imageI finite_set) (simp add: load_inv_def)
  qed
  show ?thesis
    unfolding load_inv_def using assms(1) k' len mx by (auto simp: load_inv_def nth_list_update)
qed

lemma load_inv_fold:
  "load_inv b64 n seen k \<Longrightarrow> foldR (loadKey b64) xs k = Inr k' \<Longrightarrow> load_inv b64 n (seen @ xs) k'"
proof (induction xs arbitrary: seen k)
  case (Cons x xs)
  then obtain k1 where "loadKey b64 x k = Inr k1" "foldR (loadKey b64) xs k1 = Inr k'" by auto
  then show ?case using Cons.IH[of "seen @ [x]" k1] Cons.prems(1) load_inv_step[of b64 n seen k]
    by (cases x) auto
qed simp

lemma FileSecretKey_Inr:
  assumes "FileSecretKey files parse b64 path = Inr sk" and "files path = Some content" and "parse content = Some keySet"
  shows "\<exists>k. load_inv b64 (length keySet + 1) keySet k \<and> sk_mAllKeys sk = kl_keys k \<and> sk_mLatestVersion sk = kl_latest k \<and>
    0 < kl_latest k \<and> kl_latest k = card (fst ` set keySet)"
proof -
  have init: "load_inv b64 n [] (load_start n)" for n
    by (auto simp: load_inv_def load_start_def kInvalidSecKeyVersion_def)
  obtain k where k: "foldR (loadKey b64) keySet (load_start (length keySet + 1)) = Inr k"
      "kl_latest k \<noteq> 0" "kl_latest k = card (fst ` set keySet)"
      "sk = \<lparr>sk_mAllKeys = kl_keys k, sk_mLatestVersion = kl_latest k\<rparr>"
    using assms(1) unfolding FileSecretKey_def assms(2,3) option.case
    by (elim resE, intro that) (auto simp: kInvalidSecKeyVersion_def length_remdups_card_conv)
  show ?thesis
    using load_inv_fold[OF init k(1)] k(2-4) by (intro exI[of _ k]) (simp add: card_gt_0_iff)
qed

text \<open>A finite set of positive numbers whose maximum is its size is an initial segment.\<close>

lemma dense_versions:
  assumes "finite V" and "\<And>v. v \<in> V \<Longrightarrow> 0 < v" and "Max (insert 0 V) = card V"
  shows "V = {1..card V}"
proof (rule card_subset_eq)
  have "v \<le> card V" if "v \<in> V" for v
    using assms(1) that Max_ge[of "insert 0 V" v] unfolding assms(3) by simp
  moreover have "1 \<le> v" if "v \<in> V" for v using assms(2)[OF that] by simp
  ultimately show "V \<subseteq> {1..card V}" by (intro subsetI) simp
qed simp_all

lemma FileSecretKey_keys:
  assumes "FileSecretKey files parse b64 path = Inr sk" and "files path = Some content" and "parse content = Some keySet"
  shows "keys_ok sk" and "fst ` set keySet = {1..sk_mLatestVersion sk}"
    and "map_of (rev keySet) v = Some key \<Longrightarrow> getKeyByVersion v sk = Inr (b64 key)"
proof -
  obtain k where k: "load_inv b64 (length keySet + 1) keySet k" "sk_mAllKeys sk = kl_keys k" "sk_mLatestVersion sk = kl_latest k"
    and pos: "0 < kl_latest k" and card: "kl_latest k = card (fst ` set keySet)"
    using FileSecretKey_Inr[OF assms] by blast
  have mx: "Max (insert 0 (fst ` set keySet)) = card (fst ` set keySet)"
    using k card by (auto simp: load_inv_def)
  show V: "fst ` set keySet = {1..sk_mLatestVersion sk}"
  proof -
    have "\<And>v. v \<in> fst ` set keySet \<Longrightarrow> 0 < v" using k(1) unfolding load_inv_def by blast
    then show ?thesis using dense_versions[OF _ _ mx] k(3) card by simp
  qed
  have le: "card (fst ` set keySet) \<le> length keySet"
    by (metis card_image_le card_length finite_set le_trans)
  show "keys_ok sk"
    using k pos le by (auto simp: keys_ok_def load_inv_def kOldestSecKeyVersion_def card)
  show "getKeyByVersion v sk = Inr (b64 key)" if "map_of (rev keySet) v = Some key"
  proof -
    have "v \<in> fst ` set keySet"
      using map_of_SomeD[OF that] by (metis fst_conv image_eqI set_rev)
    then have "v \<le> sk_mLatestVersion sk" unfolding V by simp
    moreover have "sk_mAllKeys sk ! v = b64 key" "sk_mLatestVersion sk < length (sk_mAllKeys sk)"
      using k that le card by (simp_all add: load_inv_def)
    ultimately show ?thesis by (simp add: getKeyByVersion_def assertValidVersion_def)
  qed
qed

section \<open>Encryption and digests\<close>

lemma getKeyByVersion_ok:
  assumes "keys_ok sk"
  shows "v \<le> sk_mLatestVersion sk \<Longrightarrow> \<exists>key. getKeyByVersion v sk = Inr key \<and> length key = kKeyLen"
    and "sk_mLatestVersion sk < v \<Longrightarrow> getKeyByVersion v sk = Inl RuntimeError"
  using assms by (auto simp: keys_ok_def getKeyByVersion_def assertValidVersion_def)

lemma encrypt_decrypt:
  assumes "openssl_ok ssl" and "crypto_ok c" and "cu_mEnabled c \<Longrightarrow> v \<le> getLatestSecKeyVersion c"
  shows "\<exists>cipher. encrypt ssl text v c = Inr (cipher, 0) \<and> decrypt ssl cipher v c = Inr (text, 0)"
proof (cases "cu_mEnabled c")
  case True
  then obtain key where key: "getKeyByVersion v (cu_mSecKeys c) = Inr key" "length key = kKeyLen"
    using assms getKeyByVersion_ok(1)[of "cu_mSecKeys c" v] by (auto simp: crypto_ok_def getLatestSecKeyVersion_def)
  then obtain u f u' f' where e: "evp_encryptInit ssl key mIV" "evp_decryptInit ssl key mIV" "evp_new ssl"
    "evp_encryptUpdate ssl key mIV text = Some u" "evp_encryptFinal ssl key mIV text = Some f"
    "length (u @ f) \<le> length text + AES_BLOCK_SIZE" "length text \<le> length (u @ f)"
    "evp_decryptUpdate ssl key mIV (u @ f) = Some u'" "evp_decryptFinal ssl key mIV (u @ f) = Some f'" "u' @ f' = text"
    using assms(1) unfolding openssl_ok_def by blast
  show ?thesis
    using True key e by (simp add: encrypt_def decrypt_def evp_encrypt_def evp_decrypt_def)
qed (simp add: encrypt_def decrypt_def)

lemma hmac_ok:
  assumes "openssl_ok ssl" and "crypto_ok c" and "cu_mEnabled c" and "v \<le> getLatestSecKeyVersion c"
  shows "\<exists>d. hmac ssl text v c = Inr d \<and> length d = 32"
proof -
  obtain key where key: "getKeyByVersion v (cu_mSecKeys c) = Inr key" "length key = kKeyLen"
    using assms getKeyByVersion_ok(1)[of "cu_mSecKeys c" v] by (auto simp: crypto_ok_def getLatestSecKeyVersion_def)
  then obtain d where "ossl_HMAC ssl key text = Some d" "length d = 32"
    using assms(1) unfolding openssl_ok_def by blast
  then show ?thesis using key assms(3) by (simp add: hmac_def)
qed

lemma hmac_Inr_length: "hmac ssl text v c = Inr d \<Longrightarrow> cu_mEnabled c \<Longrightarrow> length d = 32"
  unfolding hmac_def by (elim resE) auto

end
