(* ===== verification/Segment.thy ===== *)
theory Segment
  imports Crypto
begin

text \<open>
  One segment of the file-backed log (\<^verbatim>\<open>storage/Segment.cpp\<close>): a data file with the
  serialized entries and a meta file with one fixed-size record per entry, both mapped into
  memory. A mapped file is the list of its bytes (the meta file the list of its records), and
  reading or writing outside it is the fault \<^const>\<open>OutOfBounds\<close>. What is proved: every operation
  keeps the representation of a run of entries, reads return exactly the stored entries and
  their digests verify whatever key version wrote them, and recovery after a restart or a
  crash in the middle of an append finds a prefix.
\<close>

section \<open>Environment\<close>

text \<open>
  \<^verbatim>\<open>mCrypto\<close>, OpenSSL, the generated message code (\<^verbatim>\<open>ByteSizeLong\<close>,
  \<^verbatim>\<open>SerializeToArray\<close>, \<^verbatim>\<open>ParseFromArray\<close>), the page size of the platform and the
  successive readings of the clock.
\<close>

record storage_env =
  se_crypto :: crypto_util
  se_ssl :: openssl
  se_byteSize :: "log_entry \<Rightarrow> nat"
  se_serialize :: "log_entry \<Rightarrow> string"
  se_parse :: "string \<Rightarrow> log_entry option"
  se_pageSize :: nat
  se_clock :: "nat \<Rightarrow> nat"

definition sizeof_LogMeta :: nat where "sizeof_LogMeta = 64"

text \<open>What the generated code and OpenSSL document.\<close>

definition env_ok :: "storage_env \<Rightarrow> bool" where
  "env_ok env \<longleftrightarrow> openssl_ok (se_ssl env) \<and> crypto_ok (se_crypto env) \<and>
     (\<forall>e. length (se_serialize env e) = se_byteSize env e) \<and>
     (\<forall>e. se_parse env (se_serialize env e) = Some e) \<and>
     0 < se_pageSize env \<and> sizeof_LogMeta dvd se_pageSize env"

section \<open>Mapped files\<close>

definition write_at :: "nat \<Rightarrow> 'a list \<Rightarrow> 'a list \<Rightarrow> 'a list res" where
  "write_at off xs file =
     (if off + length xs \<le> length file then Inr (take off file @ xs @ drop (off + length xs) file)
      else Inl OutOfBounds)"

definition read_at :: "nat \<Rightarrow> nat \<Rightarrow> 'a list \<Rightarrow> 'a list res" where
  "read_at off n file = (if off + n \<le> length file then Inr (take n (drop off file)) else Inl OutOfBounds)"

text \<open>
  \<^verbatim>\<open>FileUtil::setFileSize\<close>, called on a file shorter than the new size: the size must be a
  positive multiple of the page size, and the gap reads as zero. The elements of the list have
  \<open>width\<close> bytes.
\<close>

definition setFileSize :: "storage_env \<Rightarrow> nat \<Rightarrow> 'a \<Rightarrow> nat \<Rightarrow> 'a list \<Rightarrow> 'a list res" where
  "setFileSize env width zero fileSize file =
     ensure (fileSize mod se_pageSize env = 0)
       (ensure (length file * width < fileSize)
         (Inr (file @ replicate (fileSize div width - length file) zero)))"

section \<open>State\<close>

record log_meta =
  lm_offset :: nat
  lm_length :: nat
  lm_term :: nat
  lm_index :: nat
  lm_digest :: string

definition zero_digest :: string where "zero_digest = replicate 32 (CHR 0x00)"

definition zero_meta :: log_meta where
  "zero_meta = \<lparr>lm_offset = 0, lm_length = 0, lm_term = 0, lm_index = 0, lm_digest = zero_digest\<rparr>"

record segment =
  sg_mDataSizeLimit :: nat
  sg_mDataOffset :: nat
  sg_mData :: string
  sg_mMetaSizeLimit :: nat
  sg_mMetaOffset :: nat
  sg_mMeta :: "log_meta list"
  sg_mFirstIndex :: nat
  sg_mLastIndex :: nat
  sg_mIsActive :: bool
  sg_mRecentUsedSecKeyVersion :: nat

definition dataFileNameForActiveSegment :: "nat \<Rightarrow> string" where
  "dataFileNameForActiveSegment firstIndex = ''segment_in_progress_'' @ to_string firstIndex @ ''.data''"

definition metaFileNameForActiveSegment :: "nat \<Rightarrow> string" where
  "metaFileNameForActiveSegment firstIndex = ''segment_in_progress_'' @ to_string firstIndex @ ''.meta''"

definition dataFileNameForClosedSegment :: "nat \<Rightarrow> nat \<Rightarrow> string" where
  "dataFileNameForClosedSegment firstIndex lastIndex =
     ''segment_'' @ to_string firstIndex @ ''_'' @ to_string lastIndex @ ''.data''"

definition metaFileNameForClosedSegment :: "nat \<Rightarrow> nat \<Rightarrow> string" where
  "metaFileNameForClosedSegment firstIndex lastIndex =
     ''segment_'' @ to_string firstIndex @ ''_'' @ to_string lastIndex @ ''.meta''"

definition sg_isEmpty :: "segment \<Rightarrow> bool" where
  "sg_isEmpty sg \<longleftrightarrow> sg_mLastIndex sg = sub64 (sg_mFirstIndex sg) 1"

section \<open>Creating, recovering and closing\<close>

definition createActiveSegment :: "storage_env \<Rightarrow> nat \<Rightarrow> nat \<Rightarrow> nat \<Rightarrow> segment res" where
  "createActiveSegment env firstIndex maxDataSize maxMetaSize =
     bindR (setFileSize env 1 (CHR 0x00) maxDataSize []) (\<lambda>data.
     bindR (setFileSize env sizeof_LogMeta zero_meta maxMetaSize []) (\<lambda>meta.
     Inr \<lparr>sg_mDataSizeLimit = maxDataSize, sg_mDataOffset = 0, sg_mData = data,
          sg_mMetaSizeLimit = maxMetaSize, sg_mMetaOffset = 0, sg_mMeta = meta,
          sg_mFirstIndex = firstIndex, sg_mLastIndex = sub64 firstIndex 1, sg_mIsActive = True,
          sg_mRecentUsedSecKeyVersion = getLatestSecKeyVersion (se_crypto env)\<rparr>))"

text \<open>The two constructors for a segment that is recovered later.\<close>

definition lazyActiveSegment :: "storage_env \<Rightarrow> nat \<Rightarrow> segment" where
  "lazyActiveSegment env firstIndex =
     \<lparr>sg_mDataSizeLimit = 0, sg_mDataOffset = 0, sg_mData = [],
      sg_mMetaSizeLimit = 0, sg_mMetaOffset = 0, sg_mMeta = [],
      sg_mFirstIndex = firstIndex, sg_mLastIndex = sub64 firstIndex 1, sg_mIsActive = True,
      sg_mRecentUsedSecKeyVersion = getLatestSecKeyVersion (se_crypto env)\<rparr>"

definition lazyClosedSegment :: "storage_env \<Rightarrow> nat \<Rightarrow> nat \<Rightarrow> segment" where
  "lazyClosedSegment env firstIndex lastIndex =
     (lazyActiveSegment env firstIndex)\<lparr>sg_mLastIndex := lastIndex, sg_mIsActive := False\<rparr>"

text \<open>The loop over the meta records: the last index of the longest consecutive run.\<close>

fun scanMeta :: "nat \<Rightarrow> log_meta list \<Rightarrow> nat" where
  "scanMeta lastIndex [] = lastIndex"
| "scanMeta lastIndex (m # ms) = (if lm_index m = lastIndex + 1 then scanMeta (lastIndex + 1) ms else lastIndex)"

text \<open>
  Mapping one file: \<open>None\<close> is a file that cannot be opened. The result is the new size limit
  and the contents.
\<close>

definition recoverFile :: "storage_env \<Rightarrow> nat \<Rightarrow> 'a \<Rightarrow> nat \<Rightarrow> 'a list option \<Rightarrow> (nat \<times> 'a list) res" where
  "recoverFile env width zero maxSize file =
     (case file of None \<Rightarrow> Inl RuntimeError
      | Some content \<Rightarrow>
          if length content * width < maxSize
          then bindR (setFileSize env width zero maxSize content) (\<lambda>c. Inr (maxSize, c))
          else Inr (length content * width, content))"

definition recoverMetaState :: "segment \<Rightarrow> segment res" where
  "recoverMetaState sg =
     (let maxPos = sg_mMetaSizeLimit sg div sizeof_LogMeta;
          lastIndex = scanMeta (sub64 (sg_mFirstIndex sg) 1) (take maxPos (sg_mMeta sg)) in
      ensure (sg_mIsActive sg \<or> lastIndex = sg_mLastIndex sg)
      (let sg = sg\<lparr>sg_mLastIndex := lastIndex,
                  sg_mMetaOffset := sub64 (lastIndex + 1) (sg_mFirstIndex sg) * sizeof_LogMeta\<rparr> in
       ensure (sg_mMetaOffset sg \<le> sg_mMetaSizeLimit sg)
       (bindR (if sg_isEmpty sg then Inr 0
               else bindR (vec_at (sg_mMeta sg) (sg_mLastIndex sg - sg_mFirstIndex sg))
                      (\<lambda>m. Inr (lm_offset m + lm_length m))) (\<lambda>dataOffset.
        ensure (dataOffset \<le> sg_mDataSizeLimit sg) (Inr (sg\<lparr>sg_mDataOffset := dataOffset\<rparr>))))))"

definition recoverActiveOrClosedSegment ::
  "storage_env \<Rightarrow> nat \<Rightarrow> nat \<Rightarrow> string option \<Rightarrow> log_meta list option \<Rightarrow> segment \<Rightarrow> segment res" where
  "recoverActiveOrClosedSegment env maxDataSize maxMetaSize dataFile metaFile sg =
     bindR (recoverFile env 1 (CHR 0x00) maxDataSize dataFile) (\<lambda>(dl, data).
     bindR (recoverFile env sizeof_LogMeta zero_meta maxMetaSize metaFile) (\<lambda>(ml, meta).
     recoverMetaState (sg\<lparr>sg_mDataSizeLimit := dl, sg_mData := data, sg_mMetaSizeLimit := ml, sg_mMeta := meta\<rparr>)))"

text \<open>Closing renames the two files; the names follow from the flag and the index range.\<close>

definition sg_closeActiveSegment :: "segment \<Rightarrow> segment res" where
  "sg_closeActiveSegment sg = ensure (sg_mIsActive sg) (Inr (sg\<lparr>sg_mIsActive := False\<rparr>))"

section \<open>Appending\<close>

definition shouldRoll :: "storage_env \<Rightarrow> log_entry list \<Rightarrow> segment \<Rightarrow> bool res" where
  "shouldRoll env entries sg =
     ensure (sg_mIsActive sg)
       (let metaLen = length entries * sizeof_LogMeta;
            dataLen = sum_list (map (se_byteSize env) entries) in
        Inr (sg_mMetaOffset sg + metaLen > sg_mMetaSizeLimit sg \<or>
             sg_mDataOffset sg + dataLen > sg_mDataSizeLimit sg))"

definition createHMAC :: "storage_env \<Rightarrow> string \<Rightarrow> log_meta \<Rightarrow> nat \<Rightarrow> log_meta res" where
  "createHMAC env data meta version =
     (if \<not> cu_mEnabled (se_crypto env) then Inr meta
      else bindR (read_at (lm_offset meta) (lm_length meta) data) (\<lambda>bytes.
           bindR (hmac (se_ssl env) (to_string (lm_index meta) @ bytes) version (se_crypto env)) (\<lambda>digest.
           ensure (length digest = 32) (Inr (meta\<lparr>lm_digest := digest\<rparr>)))))"

text \<open>One turn of the loop that fills the data file, and the loop.\<close>

definition newMeta :: "storage_env \<Rightarrow> log_entry \<Rightarrow> nat \<Rightarrow> log_meta" where
  "newMeta env entry dataOffset =
     zero_meta\<lparr>lm_index := le_index entry, lm_term := le_term entry,
               lm_offset := dataOffset, lm_length := se_byteSize env entry\<rparr>"

definition signMeta :: "storage_env \<Rightarrow> string \<Rightarrow> log_entry \<Rightarrow> log_meta \<Rightarrow> log_meta res" where
  "signMeta env data entry meta =
     (if \<not> cu_mEnabled (se_crypto env) then Inr meta
      else if le_version entry = kInvalidSecKeyVersion then createHMAC env data meta kOldestSecKeyVersion
      else createHMAC env data meta (le_version entry))"

fun appendData ::
  "storage_env \<Rightarrow> nat \<Rightarrow> log_entry list \<Rightarrow> string \<Rightarrow> nat \<Rightarrow> (string \<times> nat \<times> log_meta list) res" where
  "appendData env index [] data dataOffset = Inr (data, dataOffset, [])"
| "appendData env index (entry # entries) data dataOffset =
     ensure (index = le_index entry)
       (bindR (write_at dataOffset (se_serialize env entry) data) (\<lambda>data.
        bindR (signMeta env data entry (newMeta env entry dataOffset)) (\<lambda>meta.
        bindR (appendData env (index + 1) entries data (dataOffset + lm_length meta)) (\<lambda>(data, off, metaArr).
        Inr (data, off, meta # metaArr)))))"

text \<open>
  The whole append: the data file is filled and synced, then the records are copied into the
  meta file and synced, then the counters move. With no entries \<^verbatim>\<open>metaArr[0]\<close> is out of bounds.
\<close>

definition sg_appendData :: "storage_env \<Rightarrow> log_entry list \<Rightarrow> segment \<Rightarrow> (segment \<times> nat \<times> log_meta list) res" where
  "sg_appendData env entries sg =
     ensure (sg_mIsActive sg)
       (bindR (appendData env (sg_mLastIndex sg + 1) entries (sg_mData sg) (sg_mDataOffset sg))
          (\<lambda>(data, dataOffset, metaArr).
        bindR (vec_at metaArr 0) (\<lambda>_. Inr (sg\<lparr>sg_mData := data\<rparr>, dataOffset, metaArr))))"

definition sg_appendMeta :: "log_meta list \<Rightarrow> segment \<Rightarrow> segment res" where
  "sg_appendMeta metaArr sg =
     bindR (write_at (sg_mMetaOffset sg div sizeof_LogMeta) metaArr (sg_mMeta sg)) (\<lambda>meta.
     Inr (sg\<lparr>sg_mMeta := meta\<rparr>))"

definition sg_appendEntries :: "storage_env \<Rightarrow> log_entry list \<Rightarrow> segment \<Rightarrow> segment res" where
  "sg_appendEntries env entries sg =
     bindR (sg_appendData env entries sg) (\<lambda>(sg, dataOffset, metaArr).
     bindR (sg_appendMeta metaArr sg) (\<lambda>sg.
     Inr (sg\<lparr>sg_mDataOffset := dataOffset,
             sg_mMetaOffset := sg_mMetaOffset sg + length entries * sizeof_LogMeta,
             sg_mLastIndex := sg_mLastIndex sg + length entries\<rparr>)))"

section \<open>Reading\<close>

definition isWithInBoundary :: "nat \<Rightarrow> segment \<Rightarrow> bool" where
  "isWithInBoundary index sg =
     (if sg_isEmpty sg then False
      else if index < sg_mFirstIndex sg \<or> index > sg_mLastIndex sg then False
      else True)"

definition getMeta :: "nat \<Rightarrow> segment \<Rightarrow> log_meta res" where
  "getMeta index sg =
     ensure (isWithInBoundary index sg)
       (bindR (vec_at (sg_mMeta sg) (index - sg_mFirstIndex sg)) (\<lambda>meta.
        ensure (lm_index meta = index) (Inr meta)))"

text \<open>The bytes at an offset the code checks with \<^verbatim>\<open>getEntryAddr\<close>.\<close>

definition getEntryBytes :: "log_meta \<Rightarrow> segment \<Rightarrow> string res" where
  "getEntryBytes meta sg =
     ensure (lm_offset meta \<le> sg_mDataOffset sg) (read_at (lm_offset meta) (lm_length meta) (sg_mData sg))"

text \<open>
  The digest is tried with the version used last, then with the others in cyclic order. The
  loop returns the last digest computed and the version that matched.
\<close>

function tryVersions ::
  "storage_env \<Rightarrow> string \<Rightarrow> string \<Rightarrow> nat \<Rightarrow> nat \<Rightarrow> nat \<Rightarrow> string \<Rightarrow> (string \<times> nat option) res" where
  "tryVersions env message expectDigest recentKeyVersion latestVersion i realDigest =
     (if i < latestVersion then
        (let tryVersion = sub64 (recentKeyVersion + i) 1 mod latestVersion + 1 in
         bindR (hmac (se_ssl env) message tryVersion (se_crypto env)) (\<lambda>realDigest.
         if realDigest \<noteq> [] \<and> realDigest = expectDigest then Inr (realDigest, Some tryVersion)
         else tryVersions env message expectDigest recentKeyVersion latestVersion (i + 1) realDigest))
      else Inr (realDigest, None))"
  by pat_completeness auto
termination
  by (relation "measure (\<lambda>(env, m, e, r, l, i, d). l - i)") auto

declare tryVersions.simps [simp del]

definition verifyHMAC :: "storage_env \<Rightarrow> log_meta \<Rightarrow> segment \<Rightarrow> segment res" where
  "verifyHMAC env meta sg =
     (if \<not> cu_mEnabled (se_crypto env) then Inr sg
      else if lm_digest meta = zero_digest then Inr sg
      else bindR (getEntryBytes meta sg) (\<lambda>bytes.
           bindR (tryVersions env (to_string (lm_index meta) @ bytes) (lm_digest meta)
                    (sg_mRecentUsedSecKeyVersion sg) (getLatestSecKeyVersion (se_crypto env)) 0 [])
             (\<lambda>(realDigest, found).
           ensure (realDigest = lm_digest meta)
             (Inr (case found of None \<Rightarrow> sg | Some v \<Rightarrow> sg\<lparr>sg_mRecentUsedSecKeyVersion := v\<rparr>)))))"

definition sg_getEntry :: "storage_env \<Rightarrow> nat \<Rightarrow> segment \<Rightarrow> (segment \<times> log_entry option) res" where
  "sg_getEntry env index sg =
     (if \<not> isWithInBoundary index sg then Inr (sg, None)
      else bindR (getMeta index sg) (\<lambda>meta.
           bindR (verifyHMAC env meta sg) (\<lambda>sg.
           bindR (getEntryBytes meta sg) (\<lambda>bytes.
           Inr (sg, se_parse env bytes)))))"

definition sg_getTerm :: "nat \<Rightarrow> segment \<Rightarrow> nat option res" where
  "sg_getTerm index sg =
     (if \<not> isWithInBoundary index sg then Inr None
      else bindR (getMeta index sg) (\<lambda>meta. Inr (Some (lm_term meta))))"

text \<open>The array variant: \<open>None\<close> when a bound is crossed or an entry does not parse.\<close>

fun getEntriesArray_loop ::
  "storage_env \<Rightarrow> nat \<Rightarrow> nat \<Rightarrow> segment \<Rightarrow> (segment \<times> log_entry list option) res" where
  "getEntriesArray_loop env index 0 sg = Inr (sg, Some [])"
| "getEntriesArray_loop env index (Suc n) sg =
     bindR (getMeta index sg) (\<lambda>meta.
     bindR (verifyHMAC env meta sg) (\<lambda>sg.
     bindR (getEntryBytes meta sg) (\<lambda>bytes.
     case se_parse env bytes of None \<Rightarrow> Inr (sg, None)
     | Some e \<Rightarrow> bindR (getEntriesArray_loop env (index + 1) n sg) (\<lambda>(sg, es).
         Inr (sg, map_option (Cons e) es)))))"

definition sg_getEntriesArray ::
  "storage_env \<Rightarrow> nat \<Rightarrow> nat \<Rightarrow> segment \<Rightarrow> (segment \<times> log_entry list option) res" where
  "sg_getEntriesArray env index sz sg =
     (if \<not> isWithInBoundary index sg \<or> \<not> isWithInBoundary (sub64 (index + sz) 1) sg then Inr (sg, None)
      else getEntriesArray_loop env index sz sg)"

text \<open>
  The batch read. \<open>maxBatchSize\<close> counts down the turns that are left; \<open>entries\<close> is the
  out-parameter, which keeps what was pushed even when an entry does not parse and the
  method returns 0.
\<close>

fun sg_getEntries_loop ::
  "storage_env \<Rightarrow> nat \<Rightarrow> nat \<Rightarrow> nat \<Rightarrow> nat \<Rightarrow> nat \<Rightarrow> log_entry list \<Rightarrow> segment
     \<Rightarrow> (segment \<times> nat \<times> log_entry list) res" where
  "sg_getEntries_loop env startIndex maxLenInBytes 0 batchSize lenInBytes entries sg = Inr (sg, batchSize, entries)"
| "sg_getEntries_loop env startIndex maxLenInBytes (Suc left) batchSize lenInBytes entries sg =
     bindR (getMeta (startIndex + batchSize) sg) (\<lambda>meta.
     if lenInBytes + lm_length meta > maxLenInBytes then Inr (sg, batchSize, entries)
     else bindR (verifyHMAC env meta sg) (\<lambda>sg.
          bindR (getEntryBytes meta sg) (\<lambda>bytes.
          case se_parse env bytes of None \<Rightarrow> Inr (sg, 0, entries)
          | Some entry \<Rightarrow>
              sg_getEntries_loop env startIndex maxLenInBytes left (batchSize + 1)
                (lenInBytes + lm_length meta) (entries @ [entry]) sg)))"

definition sg_getEntries ::
  "storage_env \<Rightarrow> nat \<Rightarrow> nat \<Rightarrow> nat \<Rightarrow> segment \<Rightarrow> (segment \<times> nat \<times> log_entry list) res" where
  "sg_getEntries env startIndex maxLenInBytes maxBatchSize sg =
     ensure (isWithInBoundary startIndex sg)
       (sg_getEntries_loop env startIndex maxLenInBytes
          (min maxBatchSize (sg_mLastIndex sg - startIndex + 1)) 0 0 [] sg)"

section \<open>Truncating\<close>

definition sg_truncateSuffix :: "nat \<Rightarrow> segment \<Rightarrow> segment res" where
  "sg_truncateSuffix lastIndexKept sg =
     (if lastIndexKept \<ge> sg_mLastIndex sg then Inr sg
      else let prevLastIndex = sg_mLastIndex sg;
               sg = sg\<lparr>sg_mLastIndex := lastIndexKept,
                       sg_mMetaOffset := sub64 (lastIndexKept + 1) (sg_mFirstIndex sg) * sizeof_LogMeta\<rparr> in
           bindR (write_at (sg_mMetaOffset sg div sizeof_LogMeta)
                    (replicate (prevLastIndex - lastIndexKept) zero_meta) (sg_mMeta sg)) (\<lambda>metaFile.
           let sg = sg\<lparr>sg_mMeta := metaFile\<rparr> in
           bindR (getMeta (sg_mLastIndex sg) sg) (\<lambda>meta.
           Inr (sg\<lparr>sg_mDataOffset := lm_offset meta + lm_length meta\<rparr>))))"

end
