(* ===== verification/Segment_Rep.thy ===== *)
theory Segment_Rep
  imports Segment
begin

text \<open>
  What a segment holds. \<open>seg_rep env sg es\<close> says that the mapped files of \<open>sg\<close> represent the
  entries \<open>es\<close>; every operation of \<^verbatim>\<open>Segment.cpp\<close> is shown correct against it.
\<close>

section \<open>Mapped files\<close>

lemma write_at_Inr [simp]:
  "write_at off xs file = Inr file' \<longleftrightarrow>
     off + length xs \<le> length file \<and> file' = take off file @ xs @ drop (off + length xs) file"
  by (auto simp: write_at_def)

lemma read_at_Inr [simp]:
  "read_at off n file = Inr xs \<longleftrightarrow> off + n \<le> length file \<and> xs = take n (drop off file)"
  by (auto simp: read_at_def)

lemma setFileSize_Inr:
  "setFileSize env width zero n file = Inr file' \<longleftrightarrow> n mod se_pageSize env = 0 \<and> length file * width < n \<and>
     file' = file @ replicate (n div width - length file) zero"
  by (auto simp: setFileSize_def)

section \<open>The representation\<close>

text \<open>A digest is good if there is none, or some known key version gives it.\<close>

definition digest_ok :: "storage_env \<Rightarrow> log_entry \<Rightarrow> string \<Rightarrow> bool" where
  "digest_ok env e d \<longleftrightarrow> \<not> cu_mEnabled (se_crypto env) \<or> d = zero_digest \<or>
     (\<exists>v. 1 \<le> v \<and> v \<le> getLatestSecKeyVersion (se_crypto env) \<and>
        hmac (se_ssl env) (to_string (le_index e) @ se_serialize env e) v (se_crypto env) = Inr d)"

definition meta_ok :: "storage_env \<Rightarrow> nat \<Rightarrow> log_entry \<Rightarrow> log_meta \<Rightarrow> bool" where
  "meta_ok env off e m \<longleftrightarrow> lm_offset m = off \<and> lm_length m = se_byteSize env e \<and>
     lm_term m = le_term e \<and> lm_index m = le_index e \<and> digest_ok env e (lm_digest m)"

fun metas_ok :: "storage_env \<Rightarrow> nat \<Rightarrow> log_entry list \<Rightarrow> log_meta list \<Rightarrow> bool" where
  "metas_ok env off [] [] \<longleftrightarrow> True"
| "metas_ok env off (e # es) (m # ms) \<longleftrightarrow> meta_ok env off e m \<and> metas_ok env (off + se_byteSize env e) es ms"
| "metas_ok env off es ms \<longleftrightarrow> False"

abbreviation bytes_of :: "storage_env \<Rightarrow> log_entry list \<Rightarrow> string" where
  "bytes_of env es \<equiv> concat (map (se_serialize env) es)"

abbreviation size_of :: "storage_env \<Rightarrow> log_entry list \<Rightarrow> nat" where
  "size_of env es \<equiv> sum_list (map (se_byteSize env) es)"

definition key_ok :: "storage_env \<Rightarrow> nat \<Rightarrow> bool" where
  "key_ok env v \<longleftrightarrow> (cu_mEnabled (se_crypto env) \<longrightarrow> 1 \<le> v \<and> v \<le> getLatestSecKeyVersion (se_crypto env))"

text \<open>The files of a segment that starts at \<open>f\<close> represent \<open>es\<close>.\<close>

definition files_ok :: "storage_env \<Rightarrow> nat \<Rightarrow> log_entry list \<Rightarrow> string \<Rightarrow> log_meta list \<Rightarrow> bool" where
  "files_ok env f es data meta \<longleftrightarrow> 1 \<le> f \<and> consec f es \<and> prefix (bytes_of env es) data \<and>
     (\<exists>ms n. meta = ms @ replicate n zero_meta \<and> metas_ok env 0 es ms)"

definition seg_rep :: "storage_env \<Rightarrow> segment \<Rightarrow> log_entry list \<Rightarrow> bool" where
  "seg_rep env sg es \<longleftrightarrow> env_ok env \<and> key_ok env (sg_mRecentUsedSecKeyVersion sg) \<and>
     sg_mLastIndex sg + 1 = sg_mFirstIndex sg + length es \<and>
     sg_mDataSizeLimit sg = length (sg_mData sg) \<and>
     sg_mMetaSizeLimit sg = length (sg_mMeta sg) * sizeof_LogMeta \<and>
     sg_mDataOffset sg = size_of env es \<and> sg_mMetaOffset sg = length es * sizeof_LogMeta \<and>
     files_ok env (sg_mFirstIndex sg) es (sg_mData sg) (sg_mMeta sg)"

text \<open>The entries a segment holds, read back from its files.\<close>

definition seg_entries :: "storage_env \<Rightarrow> segment \<Rightarrow> log_entry list" where
  "seg_entries env sg =
     map (\<lambda>m. the (se_parse env (take (lm_length m) (drop (lm_offset m) (sg_mData sg)))))
       (take (sg_mLastIndex sg + 1 - sg_mFirstIndex sg) (sg_mMeta sg))"

lemma length_bytes_of: "env_ok env \<Longrightarrow> length (bytes_of env es) = size_of env es"
  by (induction es) (simp_all add: env_ok_def)

lemma metas_ok_length: "metas_ok env off es ms \<Longrightarrow> length ms = length es"
  by (induction env off es ms rule: metas_ok.induct) auto

lemma metas_ok_append:
  "length es = length ms \<Longrightarrow> metas_ok env off (es @ es') (ms @ ms') \<longleftrightarrow>
     metas_ok env off es ms \<and> metas_ok env (off + size_of env es) es' ms'"
  by (induction env off es ms rule: metas_ok.induct) (auto simp: add.assoc)

lemma metas_ok_nth:
  "metas_ok env off es ms \<Longrightarrow> j < length es \<Longrightarrow> meta_ok env (off + size_of env (take j es)) (es ! j) (ms ! j)"
  by (induction env off es ms arbitrary: j rule: metas_ok.induct) (auto simp: nth_Cons add.assoc split: nat.splits)

lemma metas_ok_take: "metas_ok env off es ms \<Longrightarrow> metas_ok env off (take j es) (take j ms)"
  by (induction env off es ms arbitrary: j rule: metas_ok.induct) (auto simp: take_Cons split: nat.splits)

lemma read_prefix:
  assumes "env_ok env" and "prefix (bytes_of env es) data" and "j < length es"
  shows "size_of env (take j es) + se_byteSize env (es ! j) \<le> length data"
    and "take (se_byteSize env (es ! j)) (drop (size_of env (take j es)) data) = se_serialize env (es ! j)"
proof -
  have len: "length (se_serialize env e) = se_byteSize env e" for e using assms(1) by (simp add: env_ok_def)
  obtain rest where "data = bytes_of env es @ rest" using assms(2) by (auto elim: prefixE)
  then have "data = bytes_of env (take j es) @ se_serialize env (es ! j) @ bytes_of env (drop (Suc j) es) @ rest"
    using id_take_nth_drop[OF assms(3)] by (metis append.assoc concat.simps(2) concat_append list.simps(9) map_append)
  then show "size_of env (take j es) + se_byteSize env (es ! j) \<le> length data"
    and "take (se_byteSize env (es ! j)) (drop (size_of env (take j es)) data) = se_serialize env (es ! j)"
    using length_bytes_of[OF assms(1), of "take j es"] len by auto
qed

section \<open>Consequences of the representation\<close>

lemma seg_rep_last: "seg_rep env sg es \<Longrightarrow> Suc (sg_mLastIndex sg) - sg_mFirstIndex sg = length es"
  by (simp add: seg_rep_def)

lemma seg_rep_meta:
  assumes "seg_rep env sg es"
  obtains ms n where "sg_mMeta sg = ms @ replicate n zero_meta" "metas_ok env 0 es ms" "length ms = length es"
  using assms metas_ok_length by (auto simp: seg_rep_def files_ok_def)

lemma seg_rep_entries:
  assumes "seg_rep env sg es"
  shows "seg_entries env sg = es"
proof (rule nth_equalityI)
  obtain ms n where m: "sg_mMeta sg = ms @ replicate n zero_meta" "metas_ok env 0 es ms" "length ms = length es"
    using assms by (rule seg_rep_meta)
  show "length (seg_entries env sg) = length es"
    by (simp add: seg_entries_def seg_rep_last[OF assms] m)
  fix j assume "j < length (seg_entries env sg)"
  then have j: "j < length es" by (simp add: seg_entries_def seg_rep_last[OF assms] m)
  have "meta_ok env (size_of env (take j es)) (es ! j) (ms ! j)" using metas_ok_nth[OF m(2) j] by simp
  moreover have "take (se_byteSize env (es ! j)) (drop (size_of env (take j es)) (sg_mData sg)) = se_serialize env (es ! j)"
    using read_prefix(2)[OF _ _ j] assms by (auto simp: seg_rep_def files_ok_def)
  ultimately show "seg_entries env sg ! j = es ! j"
    using j assms by (simp add: seg_entries_def seg_rep_last[OF assms] m meta_ok_def nth_append seg_rep_def env_ok_def)
qed

lemma seg_rep_unique: "seg_rep env sg es \<Longrightarrow> seg_rep env sg es' \<Longrightarrow> es = es'"
  using seg_rep_entries by metis

lemma seg_rep_empty: "seg_rep env sg es \<Longrightarrow> sg_isEmpty sg \<longleftrightarrow> es = []"
  by (auto simp: seg_rep_def sg_isEmpty_def files_ok_def)

lemma seg_rep_boundary:
  "seg_rep env sg es \<Longrightarrow> isWithInBoundary i sg \<longleftrightarrow> sg_mFirstIndex sg \<le> i \<and> i \<le> sg_mLastIndex sg"
  using seg_rep_empty[of env sg es] by (auto simp: isWithInBoundary_def seg_rep_def)

lemma seg_rep_index:
  assumes "seg_rep env sg es" and "isWithInBoundary i sg"
  shows "i - sg_mFirstIndex sg < length es" and "sg_mFirstIndex sg + (i - sg_mFirstIndex sg) = i"
  using assms seg_rep_boundary[OF assms(1), of i] by (auto simp: seg_rep_def)

section \<open>Reading\<close>

text \<open>Every read of one entry starts the same way: its record, its digest, its bytes.\<close>

lemma getMeta_ok:
  assumes "seg_rep env sg es" and "isWithInBoundary i sg"
  shows "\<exists>m. getMeta i sg = Inr m \<and> meta_ok env (size_of env (take (i - sg_mFirstIndex sg) es)) (es ! (i - sg_mFirstIndex sg)) m"
proof -
  obtain ms n where m: "sg_mMeta sg = ms @ replicate n zero_meta" "metas_ok env 0 es ms" "length ms = length es"
    using assms(1) by (rule seg_rep_meta)
  have j: "i - sg_mFirstIndex sg < length es" "sg_mFirstIndex sg + (i - sg_mFirstIndex sg) = i"
    using seg_rep_index[OF assms] by auto
  have ok: "meta_ok env (size_of env (take (i - sg_mFirstIndex sg) es)) (es ! (i - sg_mFirstIndex sg)) (ms ! (i - sg_mFirstIndex sg))"
    using metas_ok_nth[OF m(2) j(1)] by simp
  have "le_index (es ! (i - sg_mFirstIndex sg)) = i"
    using consec_nth[OF _ j(1)] j(2) assms(1) by (auto simp: seg_rep_def files_ok_def)
  then show ?thesis using ok assms(2) m(1,3) j(1) by (simp add: getMeta_def meta_ok_def vec_at_def nth_append)
qed

lemma getMeta_outside: "\<not> isWithInBoundary i sg \<Longrightarrow> getMeta i sg = Inl AssertFailed"
  by (simp add: getMeta_def)

lemma size_of_take_le: "size_of env (take j es) \<le> size_of env es"
  by (rule sum_list_take_le)

lemma getEntryBytes_ok:
  assumes "seg_rep env sg es" and "j < length es" and "meta_ok env (size_of env (take j es)) (es ! j) m"
  shows "getEntryBytes m sg = Inr (se_serialize env (es ! j))"
  using assms read_prefix[of env es "sg_mData sg" j] size_of_take_le[of env j es]
  by (auto simp: getEntryBytes_def meta_ok_def seg_rep_def files_ok_def read_at_def)

text \<open>The cyclic search reaches every version.\<close>

lemma cyclic_reaches:
  fixes r v n :: nat
  assumes "1 \<le> r" "r \<le> n" "1 \<le> v" "v \<le> n"
  shows "\<exists>i < n. sub64 (r + i) 1 mod n + 1 = v"
proof (intro exI conjI)
  let ?i = "(v + n - r) mod n"
  show "?i < n" using assms by simp
  have "(r - 1 + ?i) mod n = (r - 1 + (v + n - r)) mod n" by (simp add: mod_add_right_eq)
  also have "r - 1 + (v + n - r) = v - 1 + n" using assms by simp
  also have "(v - 1 + n) mod n = v - 1" using assms by (simp only: mod_add_self2) simp
  finally have "(r - 1 + ?i) mod n = v - 1" .
  then show "sub64 (r + ?i) 1 mod n + 1 = v" using assms by (simp add: sub64_def)
qed

lemma tryVersions_finds:
  assumes "env_ok env" and "cu_mEnabled (se_crypto env)" and "n = getLatestSecKeyVersion (se_crypto env)"
    and "\<exists>i' < n. i \<le> i' \<and> hmac (se_ssl env) msg (sub64 (r + i') 1 mod n + 1) (se_crypto env) = Inr d"
  shows "\<exists>v. tryVersions env msg d r n i acc = Inr (d, Some v) \<and> 1 \<le> v \<and> v \<le> n"
  using assms(4)
proof (induction "n - i" arbitrary: i acc)
  case 0
  then show ?case by auto
next
  case (Suc k)
  let ?v = "sub64 (r + i) 1 mod n + 1"
  have n: "i < n" "0 < n" using Suc.hyps(2) by auto
  then have v: "1 \<le> ?v" "?v \<le> n" by (simp_all add: Suc_le_eq)
  obtain d' where d': "hmac (se_ssl env) msg ?v (se_crypto env) = Inr d'" "length d' = 32"
    using hmac_ok[of "se_ssl env" "se_crypto env" ?v msg] assms(1-3) v(2) by (auto simp: env_ok_def)
  have d'_ne: "d' \<noteq> []" using d'(2) by auto
  show ?case
  proof (cases "d' = d")
    case True
    then show ?thesis using n d' d'_ne v by (subst tryVersions.simps) (simp add: Let_def)
  next
    case False
    have "\<exists>i' < n. Suc i \<le> i' \<and> hmac (se_ssl env) msg (sub64 (r + i') 1 mod n + 1) (se_crypto env) = Inr d"
      using Suc.prems d'(1) False by (metis Inr_inject le_neq_implies_less Suc_leI)
    then have "\<exists>v. tryVersions env msg d r n (i + 1) d' = Inr (d, Some v) \<and> 1 \<le> v \<and> v \<le> n"
      using Suc.hyps by simp
    then show ?thesis using n d' False by (subst tryVersions.simps) (simp add: Let_def)
  qed
qed

lemma seg_rep_recent:
  "seg_rep env (sg\<lparr>sg_mRecentUsedSecKeyVersion := v\<rparr>) es \<longleftrightarrow> seg_rep env sg es \<and> key_ok env v"
  if "key_ok env (sg_mRecentUsedSecKeyVersion sg)"
  using that by (auto simp: seg_rep_def)

text \<open>Only the cached key version may change in a read.\<close>

definition same_files :: "storage_env \<Rightarrow> segment \<Rightarrow> segment \<Rightarrow> bool" where
  "same_files env sg sg' \<longleftrightarrow> (\<exists>v. sg' = sg\<lparr>sg_mRecentUsedSecKeyVersion := v\<rparr> \<and>
     (key_ok env (sg_mRecentUsedSecKeyVersion sg) \<longrightarrow> key_ok env v))"

lemma same_files_refl [simp]: "same_files env sg sg"
  by (auto simp: same_files_def intro!: exI[of _ "sg_mRecentUsedSecKeyVersion sg"])

lemma same_files_trans: "same_files env a b \<Longrightarrow> same_files env b c \<Longrightarrow> same_files env a c"
  by (auto simp: same_files_def)

lemma same_files_simps:
  assumes "same_files env sg sg'"
  shows "sg_mFirstIndex sg' = sg_mFirstIndex sg" "sg_mLastIndex sg' = sg_mLastIndex sg"
    "sg_mData sg' = sg_mData sg" "sg_mMeta sg' = sg_mMeta sg" "sg_mIsActive sg' = sg_mIsActive sg"
    "sg_mDataSizeLimit sg' = sg_mDataSizeLimit sg" "sg_mMetaSizeLimit sg' = sg_mMetaSizeLimit sg"
    "isWithInBoundary i sg' = isWithInBoundary i sg"
  using assms by (auto simp: same_files_def isWithInBoundary_def sg_isEmpty_def)

lemma same_files_rep: "same_files env sg sg' \<Longrightarrow> seg_rep env sg es \<Longrightarrow> seg_rep env sg' es"
  by (auto simp: same_files_def seg_rep_def)

lemma verifyHMAC_ok:
  assumes "seg_rep env sg es" and "j < length es" and "meta_ok env (size_of env (take j es)) (es ! j) m"
  shows "\<exists>sg'. verifyHMAC env m sg = Inr sg' \<and> same_files env sg sg'"
proof (cases "cu_mEnabled (se_crypto env) \<and> lm_digest m \<noteq> zero_digest")
  case True
  let ?n = "getLatestSecKeyVersion (se_crypto env)"
  let ?msg = "to_string (le_index (es ! j)) @ se_serialize env (es ! j)"
  have ok: "env_ok env" "key_ok env (sg_mRecentUsedSecKeyVersion sg)" using assms(1) by (auto simp: seg_rep_def)
  obtain v where v: "1 \<le> v" "v \<le> ?n" "hmac (se_ssl env) ?msg v (se_crypto env) = Inr (lm_digest m)"
    using assms(3) True by (auto simp: meta_ok_def digest_ok_def)
  obtain i where i: "i < ?n" "sub64 (sg_mRecentUsedSecKeyVersion sg + i) 1 mod ?n + 1 = v"
    using cyclic_reaches[of "sg_mRecentUsedSecKeyVersion sg" ?n v] v ok(2) True by (auto simp: key_ok_def)
  obtain w where w: "tryVersions env ?msg (lm_digest m) (sg_mRecentUsedSecKeyVersion sg) ?n 0 [] = Inr (lm_digest m, Some w)"
      "1 \<le> w" "w \<le> ?n"
    using tryVersions_finds[OF ok(1), of ?n 0 ?msg "sg_mRecentUsedSecKeyVersion sg" "lm_digest m" "[]"] True v(3) i by auto
  show ?thesis
    using True w getEntryBytes_ok[OF assms] assms(3)
    by (auto simp: verifyHMAC_def meta_ok_def same_files_def key_ok_def)
qed (auto simp: verifyHMAC_def)

lemma read_entry_ok:
  assumes "seg_rep env sg es" and "isWithInBoundary i sg"
  shows "\<exists>m sg'. getMeta i sg = Inr m \<and> lm_length m = se_byteSize env (es ! (i - sg_mFirstIndex sg)) \<and>
    lm_term m = le_term (es ! (i - sg_mFirstIndex sg)) \<and>
    verifyHMAC env m sg = Inr sg' \<and> same_files env sg sg' \<and>
    getEntryBytes m sg' = Inr (se_serialize env (es ! (i - sg_mFirstIndex sg)))"
proof -
  let ?j = "i - sg_mFirstIndex sg"
  have j: "?j < length es" using seg_rep_index[OF assms] by simp
  obtain m where m: "getMeta i sg = Inr m" "meta_ok env (size_of env (take ?j es)) (es ! ?j) m"
    using getMeta_ok[OF assms] by blast
  obtain sg' where sg': "verifyHMAC env m sg = Inr sg'" "same_files env sg sg'"
    using verifyHMAC_ok[OF assms(1) j m(2)] by blast
  show ?thesis
    using m sg' getEntryBytes_ok[OF same_files_rep[OF sg'(2) assms(1)] j m(2)] by (auto simp: meta_ok_def)
qed

lemma parse_serialize: "seg_rep env sg es \<Longrightarrow> se_parse env (se_serialize env e) = Some e"
  by (simp add: seg_rep_def env_ok_def)

theorem sg_getEntry_ok:
  assumes "seg_rep env sg es" and "isWithInBoundary i sg"
  shows "\<exists>sg'. sg_getEntry env i sg = Inr (sg', Some (es ! (i - sg_mFirstIndex sg))) \<and> same_files env sg sg'"
  using read_entry_ok[OF assms] assms(2) parse_serialize[OF assms(1)] by (auto simp: sg_getEntry_def)

theorem sg_getTerm_ok:
  assumes "seg_rep env sg es"
  shows "sg_getTerm i sg = Inr (if isWithInBoundary i sg then Some (le_term (es ! (i - sg_mFirstIndex sg))) else None)"
  using read_entry_ok[OF assms, of i] by (auto simp: sg_getTerm_def)

lemma boundary_next:
  "isWithInBoundary i sg \<Longrightarrow> i < sg_mLastIndex sg \<Longrightarrow> isWithInBoundary (Suc i) sg"
  by (auto simp: isWithInBoundary_def split: if_splits)

lemma take_drop_Suc: "k < length xs \<Longrightarrow> take (Suc n) (drop k xs) = xs ! k # take n (drop (Suc k) xs)"
  by (simp add: Cons_nth_drop_Suc[symmetric])

text \<open>The array read and the batch read return the stored entries.\<close>

lemma getEntriesArray_loop_ok:
  assumes "seg_rep env sg es" and "sg_mFirstIndex sg \<le> i" and "i + n \<le> sg_mLastIndex sg + 1"
  shows "\<exists>sg'. getEntriesArray_loop env i n sg = Inr (sg', Some (take n (drop (i - sg_mFirstIndex sg) es))) \<and>
    same_files env sg sg'"
  using assms
proof (induction n arbitrary: i sg)
  case (Suc n)
  have b: "isWithInBoundary i sg" using Suc.prems by (simp add: seg_rep_boundary[OF Suc.prems(1)])
  obtain m sg1 where r: "getMeta i sg = Inr m" "verifyHMAC env m sg = Inr sg1" "same_files env sg sg1"
      "getEntryBytes m sg1 = Inr (se_serialize env (es ! (i - sg_mFirstIndex sg)))"
    using read_entry_ok[OF Suc.prems(1) b] by blast
  obtain sg2 where r2: "getEntriesArray_loop env (i + 1) n sg1 = Inr (sg2, Some (take n (drop (i + 1 - sg_mFirstIndex sg) es)))"
      "same_files env sg1 sg2"
    using Suc.IH[OF same_files_rep[OF r(3) Suc.prems(1)], of "i + 1"] Suc.prems(2,3) same_files_simps[OF r(3)] by auto
  have "Suc i - sg_mFirstIndex sg = Suc (i - sg_mFirstIndex sg)" using Suc.prems by simp
  then show ?case
    using r r2 same_files_trans[OF r(3) r2(2)] parse_serialize[OF Suc.prems(1)]
      take_drop_Suc[OF seg_rep_index(1)[OF Suc.prems(1) b], of n]
    by simp
qed simp

theorem sg_getEntriesArray_ok:
  assumes "seg_rep env sg es" and "isWithInBoundary i sg" and "0 < n" and "isWithInBoundary (i + n - 1) sg"
  shows "\<exists>sg'. sg_getEntriesArray env i n sg = Inr (sg', Some (take n (drop (i - sg_mFirstIndex sg) es))) \<and>
    same_files env sg sg'"
  using assms getEntriesArray_loop_ok[OF assms(1), of i n] seg_rep_boundary[OF assms(1)]
  by (auto simp: sg_getEntriesArray_def)

lemma sg_getEntries_loop_ok:
  assumes "seg_rep env sg es" and "sg_mFirstIndex sg \<le> st + b" and "st + b + left \<le> sg_mLastIndex sg + 1" and "len \<le> maxLen"
    and "tf = take_fit (se_byteSize env) (maxLen - len) (take left (drop (st + b - sg_mFirstIndex sg) es))"
  shows "\<exists>sg'. sg_getEntries_loop env st maxLen left b len acc sg = Inr (sg', b + length tf, acc @ tf) \<and>
    same_files env sg sg'"
  using assms
proof (induction left arbitrary: b len acc sg tf)
  case (Suc left)
  let ?e = "es ! (st + b - sg_mFirstIndex sg)"
  have b: "isWithInBoundary (st + b) sg" using Suc.prems by (simp add: seg_rep_boundary[OF Suc.prems(1)])
  obtain m sg1 where r: "getMeta (st + b) sg = Inr m" "lm_length m = se_byteSize env ?e" "verifyHMAC env m sg = Inr sg1"
      "same_files env sg sg1" "getEntryBytes m sg1 = Inr (se_serialize env ?e)"
    using read_entry_ok[OF Suc.prems(1) b] by blast
  have split: "take (Suc left) (drop (st + b - sg_mFirstIndex sg) es) =
      ?e # take left (drop (st + (b + 1) - sg_mFirstIndex sg) es)"
    using take_drop_Suc[OF seg_rep_index(1)[OF Suc.prems(1) b], of left] Suc.prems(2) by (simp add: Suc_diff_le)
  show ?case
  proof (cases "len + se_byteSize env ?e > maxLen")
    case True
    then show ?thesis using r Suc.prems(4,5) split by auto
  next
    case False
    define tf' where "tf' = take_fit (se_byteSize env) (maxLen - (len + se_byteSize env ?e))
        (take left (drop (st + (b + 1) - sg_mFirstIndex sg) es))"
    have "tf = ?e # tf'" using False Suc.prems(4,5) split by (simp add: tf'_def diff_diff_left)
    moreover obtain sg2 where "sg_getEntries_loop env st maxLen left (b + 1) (len + se_byteSize env ?e) (acc @ [?e]) sg1 =
        Inr (sg2, b + 1 + length tf', (acc @ [?e]) @ tf')" "same_files env sg1 sg2"
      using Suc.IH[OF same_files_rep[OF r(4) Suc.prems(1)], of "b + 1" "len + se_byteSize env ?e" tf' "acc @ [?e]"]
        Suc.prems(2,3) False same_files_simps[OF r(4)] by (auto simp: tf'_def)
    ultimately show ?thesis
      using r False same_files_trans[OF r(4)] parse_serialize[OF Suc.prems(1)] by auto
  qed
qed simp

theorem sg_getEntries_ok:
  assumes "seg_rep env sg es" and "isWithInBoundary i sg"
    and "tf = take_fit (se_byteSize env) maxLen (take maxBatch (drop (i - sg_mFirstIndex sg) es))"
  shows "\<exists>sg'. sg_getEntries env i maxLen maxBatch sg = Inr (sg', length tf, tf) \<and> same_files env sg sg'"
proof -
  have i: "sg_mFirstIndex sg \<le> i" "i \<le> sg_mLastIndex sg" using assms(2) by (auto simp: seg_rep_boundary[OF assms(1)])
  let ?n = "min maxBatch (sg_mLastIndex sg - i + 1)"
  have "length (drop (i - sg_mFirstIndex sg) es) = sg_mLastIndex sg - i + 1"
    using i assms(1) by (auto simp: seg_rep_def)
  then have "take ?n (drop (i - sg_mFirstIndex sg) es) = take maxBatch (drop (i - sg_mFirstIndex sg) es)"
    by (metis min.commute take_take take_all_iff order_refl)
  then show ?thesis
    using sg_getEntries_loop_ok[OF assms(1), of i 0 ?n 0 maxLen tf "[]"] i assms(2,3) by (auto simp: sg_getEntries_def)
qed

section \<open>Creating and closing\<close>

theorem createActiveSegment_ok:
  assumes "env_ok env" and "1 \<le> f" and "createActiveSegment env f maxData maxMeta = Inr sg"
  shows "seg_rep env sg [] \<and> sg_mFirstIndex sg = f \<and> sg_mIsActive sg \<and>
    sg_mDataSizeLimit sg = maxData \<and> sg_mMetaSizeLimit sg = maxMeta"
proof -
  have "key_ok env (getLatestSecKeyVersion (se_crypto env))"
    using assms(1) by (auto simp: env_ok_def key_ok_def crypto_ok_def keys_ok_def kOldestSecKeyVersion_def getLatestSecKeyVersion_def)
  moreover have "sizeof_LogMeta dvd maxMeta" if "maxMeta mod se_pageSize env = 0"
    using assms(1) that by (auto simp: env_ok_def dvd_trans mod_eq_0_iff_dvd)
  ultimately show ?thesis
    using assms by (auto simp: createActiveSegment_def setFileSize_Inr seg_rep_def files_ok_def intro!: exI[of _ "[]"])
qed

lemma createActiveSegment_total:
  "0 < maxData \<Longrightarrow> 0 < maxMeta \<Longrightarrow> maxData mod se_pageSize env = 0 \<Longrightarrow> maxMeta mod se_pageSize env = 0 \<Longrightarrow>
   \<exists>sg. createActiveSegment env f maxData maxMeta = Inr sg"
  by (simp add: createActiveSegment_def setFileSize_def)

lemma sg_closeActiveSegment_ok:
  "seg_rep env sg es \<Longrightarrow> sg_closeActiveSegment sg = Inr sg' \<Longrightarrow> seg_rep env sg' es \<and> \<not> sg_mIsActive sg' \<and>
   sg_mFirstIndex sg' = sg_mFirstIndex sg \<and> sg_mLastIndex sg' = sg_mLastIndex sg"
  by (auto simp: sg_closeActiveSegment_def seg_rep_def)

section \<open>Appending\<close>

lemma signMeta_Inr:
  assumes "env_ok env" and "take (se_byteSize env e) (drop off data) = se_serialize env e"
    and "signMeta env data e (newMeta env e off) = Inr m"
  shows "meta_ok env off e m"
proof (cases "cu_mEnabled (se_crypto env)")
  case True
  define v where "v = (if le_version e = kInvalidSecKeyVersion then kOldestSecKeyVersion else le_version e)"
  have v1: "1 \<le> v" by (simp add: v_def kInvalidSecKeyVersion_def kOldestSecKeyVersion_def)
  obtain d where d: "hmac (se_ssl env) (to_string (le_index e) @ se_serialize env e) v (se_crypto env) = Inr d"
      "m = (newMeta env e off)\<lparr>lm_digest := d\<rparr>"
    using assms(2,3) True by (auto simp: signMeta_def createHMAC_def newMeta_def v_def split: if_splits)
  have "v \<le> getLatestSecKeyVersion (se_crypto env)"
    using d(1) True by (auto simp: hmac_def getKeyByVersion_def assertValidVersion_def getLatestSecKeyVersion_def split: if_splits)
  then show ?thesis using d v1 by (auto simp: meta_ok_def digest_ok_def newMeta_def)
qed (use assms(3) in \<open>auto simp: signMeta_def meta_ok_def newMeta_def digest_ok_def\<close>)

lemma appendData_Inr:
  assumes "env_ok env" and "appendData env i es data off = Inr (data', off', ms)" and "off \<le> length data"
  shows "consec i es \<and> off' = off + size_of env es \<and> off' \<le> length data \<and> length data' = length data \<and>
    take off' data' = take off data @ bytes_of env es \<and> metas_ok env off es ms"
  using assms(2,3)
proof (induction es arbitrary: i data off ms)
  case (Cons e es)
  let ?n = "se_byteSize env e"
  have len: "length (se_serialize env e) = ?n" using assms(1) by (simp add: env_ok_def)
  define data1 where "data1 = take off data @ se_serialize env e @ drop (off + ?n) data"
  obtain m ms' where step: "i = le_index e" "off + ?n \<le> length data"
      "signMeta env data1 e (newMeta env e off) = Inr m"
      "appendData env (i + 1) es data1 (off + lm_length m) = Inr (data', off', ms')" "ms = m # ms'"
    using Cons.prems(1) len by (auto simp: data1_def)
  have at: "take ?n (drop off data1) = se_serialize env e" and pre: "take (off + ?n) data1 = take off data @ se_serialize env e"
    and l1: "length data1 = length data"
    using step(2) Cons.prems(2) len by (auto simp: data1_def)
  have m: "meta_ok env off e m" using signMeta_Inr[OF assms(1) at step(3)] .
  then show ?case
    using Cons.IH[OF step(4)] step pre l1 by (auto simp: meta_ok_def)
qed simp

definition versions_ok :: "storage_env \<Rightarrow> log_entry list \<Rightarrow> bool" where
  "versions_ok env es \<longleftrightarrow> (cu_mEnabled (se_crypto env) \<longrightarrow>
     (\<forall>e \<in> set es. le_version e \<le> getLatestSecKeyVersion (se_crypto env)))"

lemma signMeta_total:
  assumes "env_ok env" and "versions_ok env [e]" and "off + se_byteSize env e \<le> length data"
  shows "\<exists>m. signMeta env data e (newMeta env e off) = Inr m \<and> lm_length m = se_byteSize env e"
proof (cases "cu_mEnabled (se_crypto env)")
  case True
  have oldest: "kOldestSecKeyVersion \<le> getLatestSecKeyVersion (se_crypto env)"
    using assms(1) True by (auto simp: env_ok_def crypto_ok_def keys_ok_def getLatestSecKeyVersion_def)
  have "\<exists>d. hmac (se_ssl env) msg v (se_crypto env) = Inr d \<and> length d = 32"
    if "v \<le> getLatestSecKeyVersion (se_crypto env)" for msg v
    using hmac_ok[of "se_ssl env" "se_crypto env" v msg] assms(1) True that by (auto simp: env_ok_def)
  from this[OF oldest] this[of "le_version e"] show ?thesis
    using assms(2,3) True by (fastforce simp: signMeta_def createHMAC_def newMeta_def versions_ok_def read_at_def)
qed (simp add: signMeta_def newMeta_def)

lemma appendData_total:
  assumes "env_ok env" and "versions_ok env es" and "consec i es" and "off + size_of env es \<le> length data"
  shows "\<exists>r. appendData env i es data off = Inr r"
  using assms(2-4)
proof (induction es arbitrary: i data off)
  case (Cons e es)
  let ?n = "se_byteSize env e"
  have len: "length (se_serialize env e) = ?n" using assms(1) by (simp add: env_ok_def)
  define data1 where "data1 = take off data @ se_serialize env e @ drop (off + ?n) data"
  have l1: "length data1 = length data" using Cons.prems(3) len by (simp add: data1_def)
  obtain m where m: "signMeta env data1 e (newMeta env e off) = Inr m" "lm_length m = ?n"
    using signMeta_total[OF assms(1), of e off data1] Cons.prems l1 by (auto simp: versions_ok_def)
  obtain r where "appendData env (i + 1) es data1 (off + ?n) = Inr r"
    using Cons.IH[of "i + 1" "off + ?n" data1] Cons.prems l1 by (auto simp: versions_ok_def)
  then show ?case
    using m len Cons.prems by (cases r) (auto simp: write_at_def data1_def)
qed simp

text \<open>What the files represent after each phase of an append.\<close>

lemma sg_appendData_Inr:
  assumes "seg_rep env sg es" and "sg_appendData env new sg = Inr (sg1, off, ms)"
  shows "\<exists>data. sg1 = sg\<lparr>sg_mData := data\<rparr> \<and> length data = length (sg_mData sg) \<and> sg_mIsActive sg \<and>
    new \<noteq> [] \<and> consec (sg_mLastIndex sg + 1) new \<and> off = size_of env (es @ new) \<and> off \<le> length data \<and>
    prefix (bytes_of env (es @ new)) data \<and> metas_ok env (size_of env es) new ms"
proof -
  have rep: "env_ok env" "sg_mDataOffset sg = size_of env es" "prefix (bytes_of env es) (sg_mData sg)"
    using assms(1) by (auto simp: seg_rep_def files_ok_def)
  have off: "sg_mDataOffset sg \<le> length (sg_mData sg)" "take (sg_mDataOffset sg) (sg_mData sg) = bytes_of env es"
    using rep prefix_length_le[OF rep(3)] length_bytes_of[OF rep(1), of es] by (auto elim!: prefixE)
  obtain data where d: "sg_mIsActive sg" "sg1 = sg\<lparr>sg_mData := data\<rparr>" "ms \<noteq> []"
      "appendData env (sg_mLastIndex sg + 1) new (sg_mData sg) (sg_mDataOffset sg) = Inr (data, off, ms)"
    using assms(2) by (auto simp: sg_appendData_def)
  have A: "consec (sg_mLastIndex sg + 1) new \<and> off = sg_mDataOffset sg + size_of env new \<and> off \<le> length (sg_mData sg) \<and>
      length data = length (sg_mData sg) \<and> take off data = bytes_of env es @ bytes_of env new \<and>
      metas_ok env (sg_mDataOffset sg) new ms"
    using appendData_Inr[OF rep(1) d(4) off(1)] off(2) by auto
  then have "prefix (bytes_of env (es @ new)) data"
    by (metis concat_append map_append take_is_prefix)
  with A d show ?thesis by (auto simp: rep(2))
qed

lemma write_meta:
  assumes "metas_ok env 0 es ms0" and "write_at (length es) ms (ms0 @ replicate n zero_meta) = Inr meta"
  shows "meta = (ms0 @ ms) @ replicate (n - length ms) zero_meta" and "length ms \<le> n"
  using assms metas_ok_length[OF assms(1)] by auto

lemma files_ok_append:
  assumes "seg_rep env sg es" and "consec (sg_mLastIndex sg + 1) new" and "prefix (bytes_of env (es @ new)) data"
    and "metas_ok env (size_of env es) new ms" and "write_at (length es) ms (sg_mMeta sg) = Inr meta"
  shows "files_ok env (sg_mFirstIndex sg) (es @ new) data meta" and "length meta = length (sg_mMeta sg)"
proof -
  obtain ms0 n where m: "sg_mMeta sg = ms0 @ replicate n zero_meta" "metas_ok env 0 es ms0" "length ms0 = length es"
    using assms(1) by (rule seg_rep_meta)
  have w: "meta = (ms0 @ ms) @ replicate (n - length ms) zero_meta" "length ms \<le> n"
    using write_meta[OF m(2)] assms(5) m(1) by auto
  have "metas_ok env 0 (es @ new) (ms0 @ ms)" using m assms(4) by (simp add: metas_ok_append)
  then show "files_ok env (sg_mFirstIndex sg) (es @ new) data meta"
    using assms(1-3) w(1) unfolding files_ok_def seg_rep_def by (metis Suc_eq_plus1 consec_append)
  show "length meta = length (sg_mMeta sg)" using w m by simp
qed

theorem sg_appendEntries_ok:
  assumes "seg_rep env sg es" and "sg_appendEntries env new sg = Inr sg'"
  shows "seg_rep env sg' (es @ new) \<and> sg_mFirstIndex sg' = sg_mFirstIndex sg \<and> sg_mIsActive sg \<and> sg_mIsActive sg' \<and>
    sg_mDataSizeLimit sg' = sg_mDataSizeLimit sg \<and> sg_mMetaSizeLimit sg' = sg_mMetaSizeLimit sg \<and>
    new \<noteq> [] \<and> consec (sg_mLastIndex sg + 1) new \<and> sg_mLastIndex sg' = sg_mLastIndex sg + length new"
proof -
  obtain sg1 off ms sg2 where d: "sg_appendData env new sg = Inr (sg1, off, ms)" "sg_appendMeta ms sg1 = Inr sg2"
      "sg' = sg2\<lparr>sg_mDataOffset := off, sg_mMetaOffset := sg_mMetaOffset sg2 + length new * sizeof_LogMeta,
        sg_mLastIndex := sg_mLastIndex sg2 + length new\<rparr>"
    using assms(2) by (auto simp: sg_appendEntries_def)
  obtain data where D: "sg1 = sg\<lparr>sg_mData := data\<rparr>" "length data = length (sg_mData sg)" "sg_mIsActive sg" "new \<noteq> []"
      "consec (sg_mLastIndex sg + 1) new" "off = size_of env (es @ new)" "prefix (bytes_of env (es @ new)) data"
      "metas_ok env (size_of env es) new ms"
    using sg_appendData_Inr[OF assms(1) d(1)] by blast
  have slot: "sg_mMetaOffset sg div sizeof_LogMeta = length es"
    using assms(1) by (simp add: seg_rep_def sizeof_LogMeta_def)
  obtain meta where M: "write_at (length es) ms (sg_mMeta sg) = Inr meta" "sg2 = sg1\<lparr>sg_mMeta := meta\<rparr>"
    using d(2) D(1) slot unfolding sg_appendMeta_def by (elim resE) simp
  show ?thesis
    using assms(1) d(3) M(2) D(1-6) files_ok_append[OF assms(1) D(5,7,8) M(1)]
    by (simp add: seg_rep_def add_mult_distrib)
qed

theorem sg_appendEntries_total:
  assumes "seg_rep env sg es" and "sg_mIsActive sg" and "new \<noteq> []" and "consec (sg_mLastIndex sg + 1) new"
    and "versions_ok env new" and "shouldRoll env new sg = Inr False"
  shows "\<exists>sg'. sg_appendEntries env new sg = Inr sg'"
proof -
  have fit: "size_of env es + size_of env new \<le> length (sg_mData sg)"
    "(length es + length new) * sizeof_LogMeta \<le> length (sg_mMeta sg) * sizeof_LogMeta"
    using assms(1,2,6) by (auto simp: shouldRoll_def seg_rep_def Let_def add_mult_distrib not_less)
  have slots: "length es + length new \<le> length (sg_mMeta sg)" using fit(2) by (simp add: sizeof_LogMeta_def)
  obtain data off ms where A: "appendData env (sg_mLastIndex sg + 1) new (sg_mData sg) (sg_mDataOffset sg) = Inr (data, off, ms)"
    using appendData_total[OF _ assms(5,4), of "sg_mDataOffset sg" "sg_mData sg"] assms(1) fit(1) by (auto simp: seg_rep_def)
  have "metas_ok env (sg_mDataOffset sg) new ms"
    using appendData_Inr[OF _ A] assms(1) fit(1) by (auto simp: seg_rep_def)
  then have "length ms = length new" by (rule metas_ok_length)
  then show ?thesis
    using A assms(1-3) slots
    by (auto simp: sg_appendEntries_def sg_appendData_def sg_appendMeta_def vec_at_def write_at_def seg_rep_def sizeof_LogMeta_def)
qed

section \<open>Truncating\<close>

lemma getMeta_dataOffset: "getMeta i (sg\<lparr>sg_mDataOffset := x\<rparr>) = getMeta i sg"
  by (simp add: getMeta_def isWithInBoundary_def sg_isEmpty_def cong: if_cong)

theorem sg_truncateSuffix_ok:
  assumes "seg_rep env sg es" and "sg_mFirstIndex sg \<le> k" and "k < sg_mLastIndex sg"
  shows "\<exists>sg'. sg_truncateSuffix k sg = Inr sg' \<and> seg_rep env sg' (take (k + 1 - sg_mFirstIndex sg) es) \<and>
    sg_mFirstIndex sg' = sg_mFirstIndex sg \<and> sg_mLastIndex sg' = k \<and> sg_mIsActive sg' = sg_mIsActive sg \<and>
    sg_mDataSizeLimit sg' = sg_mDataSizeLimit sg \<and> sg_mMetaSizeLimit sg' = sg_mMetaSizeLimit sg"
proof -
  let ?c = "k + 1 - sg_mFirstIndex sg"
  obtain ms n where m: "sg_mMeta sg = ms @ replicate n zero_meta" "metas_ok env 0 es ms" "length ms = length es"
    using assms(1) by (rule seg_rep_meta)
  have c: "?c < length es" "?c + (sg_mLastIndex sg - k) = length es" "sub64 (k + 1) (sg_mFirstIndex sg) = ?c"
    using assms by (auto simp: seg_rep_def sub64_def)
  define d where "d = sg_mLastIndex sg - k"
  define meta where "meta = take ?c ms @ replicate (d + n) zero_meta"
  have w: "write_at ?c (replicate (sg_mLastIndex sg - k) zero_meta) (sg_mMeta sg) = Inr meta"
    using c m(1,3) unfolding d_def[symmetric] meta_def by (simp add: replicate_add)
  define sg2 where "sg2 = sg\<lparr>sg_mLastIndex := k, sg_mMetaOffset := ?c * sizeof_LogMeta, sg_mMeta := meta\<rparr>
      \<lparr>sg_mDataOffset := size_of env (take ?c es)\<rparr>"
  have "prefix (bytes_of env (take ?c es)) (sg_mData sg)"
    using assms(1) take_is_prefix[of ?c es] unfolding seg_rep_def files_ok_def
    by (metis append_take_drop_id concat_append map_append prefix_def prefix_order.trans)
  moreover have "\<exists>ms' n'. meta = ms' @ replicate n' zero_meta \<and> metas_ok env 0 (take ?c es) ms'"
    using metas_ok_take[OF m(2)] by (auto simp: meta_def)
  ultimately have rep: "seg_rep env sg2 (take ?c es)"
    using assms c m(1,3) by (auto simp: seg_rep_def files_ok_def sg2_def meta_def d_def)
  have "isWithInBoundary k sg2" using assms(2) by (simp add: seg_rep_boundary[OF rep]) (simp add: sg2_def)
  moreover have "take (k - sg_mFirstIndex sg) (take ?c es) = take (k - sg_mFirstIndex sg) es"
    using assms(2) by (simp add: min_def)
  moreover have "sg_mFirstIndex sg2 = sg_mFirstIndex sg" by (simp add: sg2_def)
  ultimately obtain mk where mk: "getMeta k sg2 = Inr mk" "lm_offset mk = size_of env (take (k - sg_mFirstIndex sg) es)"
      "lm_length mk = se_byteSize env (es ! (k - sg_mFirstIndex sg))"
    using getMeta_ok[OF rep, of k] assms(2) c(1) by (auto simp: meta_ok_def)
  have "?c = Suc (k - sg_mFirstIndex sg)" using assms(2) by simp
  then have "lm_offset mk + lm_length mk = size_of env (take ?c es)"
    using mk(2,3) c(1) by (simp add: take_Suc_conv_app_nth)
  moreover have "getMeta k (sg\<lparr>sg_mLastIndex := k, sg_mMetaOffset := ?c * sizeof_LogMeta, sg_mMeta := meta\<rparr>) = Inr mk"
    using mk(1) unfolding sg2_def getMeta_dataOffset .
  ultimately have "sg_truncateSuffix k sg = Inr sg2"
    using assms(3) c(3) w by (simp add: sg_truncateSuffix_def sg2_def sizeof_LogMeta_def Let_def)
  then show ?thesis using rep by (auto simp: sg2_def)
qed

lemma sg_truncateSuffix_noop: "sg_mLastIndex sg \<le> k \<Longrightarrow> sg_truncateSuffix k sg = Inr sg"
  by (simp add: sg_truncateSuffix_def)

section \<open>Recovery\<close>

lemma recoverFile_ok:
  assumes "maxSize mod se_pageSize env = 0" and "0 < width"
  shows "recoverFile env width zero maxSize (Some c) =
    Inr (max maxSize (length c * width), c @ replicate (maxSize div width - length c) zero)"
proof (cases "length c * width < maxSize")
  case False
  then have "maxSize div width \<le> length c"
    using assms(2) by (metis div_le_mono linorder_not_less nonzero_mult_div_cancel_right not_gr_zero)
  then show ?thesis using False by (simp add: recoverFile_def)
qed (use assms in \<open>simp add: recoverFile_def setFileSize_def\<close>)

lemma scanMeta_ok:
  "metas_ok env off es ms \<Longrightarrow> consec (Suc l) es \<Longrightarrow> scanMeta l (ms @ replicate n zero_meta) = l + length es"
proof (induction env off es ms arbitrary: l rule: metas_ok.induct)
  case (1 env off)
  then show ?case by (cases n) (auto simp: zero_meta_def)
qed (auto simp: meta_ok_def)

lemma files_ok_extend:
  "files_ok env f es data meta \<Longrightarrow> files_ok env f es (data @ xs) (meta @ replicate n zero_meta)"
  unfolding files_ok_def by (auto simp: prefix_prefix) (metis replicate_add)

lemma recoverMetaState_ok:
  assumes "env_ok env" and "files_ok env (sg_mFirstIndex sg) es (sg_mData sg) (sg_mMeta sg)"
    and "sg_mDataSizeLimit sg = length (sg_mData sg)" and "sg_mMetaSizeLimit sg = length (sg_mMeta sg) * sizeof_LogMeta"
    and "key_ok env (sg_mRecentUsedSecKeyVersion sg)"
    and "sg_mIsActive sg \<or> sg_mLastIndex sg + 1 = sg_mFirstIndex sg + length es"
  shows "\<exists>sg'. recoverMetaState sg = Inr sg' \<and> seg_rep env sg' es \<and> sg_mFirstIndex sg' = sg_mFirstIndex sg \<and>
    sg_mIsActive sg' = sg_mIsActive sg \<and> sg_mData sg' = sg_mData sg \<and> sg_mMeta sg' = sg_mMeta sg"
proof -
  let ?f = "sg_mFirstIndex sg" and ?n = "length es"
  obtain ms n where m: "sg_mMeta sg = ms @ replicate n zero_meta" "metas_ok env 0 es ms" and f: "1 \<le> ?f" "consec ?f es"
    using assms(2) by (auto simp: files_ok_def)
  have len: "length ms = ?n" using metas_ok_length[OF m(2)] .
  have scan: "scanMeta (sub64 ?f 1) (take (sg_mMetaSizeLimit sg div sizeof_LogMeta) (sg_mMeta sg)) = ?f - 1 + ?n"
    using scanMeta_ok[OF m(2), of "?f - 1" n] f by (simp add: assms(4) sizeof_LogMeta_def m(1))
  define sg2 where "sg2 = sg\<lparr>sg_mLastIndex := ?f - 1 + ?n, sg_mMetaOffset := ?n * sizeof_LogMeta, sg_mDataOffset := size_of env es\<rparr>"
  have rep: "seg_rep env sg2 es" using assms f by (simp add: seg_rep_def sg2_def)
  have size: "size_of env es \<le> length (sg_mData sg)"
    using assms(1,2) length_bytes_of[of env es] prefix_length_le by (fastforce simp: files_ok_def)
  have "lm_offset (ms ! (?n - 1)) + lm_length (ms ! (?n - 1)) = size_of env es" if "es \<noteq> []"
    using metas_ok_nth[OF m(2), of "?n - 1"] that
    by (cases es rule: rev_cases) (auto simp: meta_ok_def nth_append)
  moreover have "?f - 1 + ?n \<noteq> ?f - 1" if "es \<noteq> []" using that by simp
  ultimately have "recoverMetaState sg = Inr sg2"
    using scan f assms(3,4,6) size m(1) len
    by (cases "es = []") (auto simp: recoverMetaState_def Let_def sg_isEmpty_def sg2_def vec_at_def nth_append sizeof_LogMeta_def sub64_def)
  then show ?thesis using rep by (auto simp: sg2_def)
qed

text \<open>Recovering the files of a segment gives a segment with the same entries.\<close>

lemma recover_limits:
  assumes "env_ok env" and "maxMeta mod se_pageSize env = 0"
  shows "max maxMeta (length meta * sizeof_LogMeta) =
    length (meta @ replicate (maxMeta div sizeof_LogMeta - length meta) zero) * sizeof_LogMeta"
proof -
  have "sizeof_LogMeta dvd maxMeta"
    using assms by (auto simp: env_ok_def mod_eq_0_iff_dvd intro: dvd_trans)
  then obtain c where "maxMeta = sizeof_LogMeta * c" by (rule dvdE)
  then show ?thesis by (auto simp: sizeof_LogMeta_def max_def)
qed

theorem recoverSegment_ok:
  assumes "env_ok env" and "files_ok env (sg_mFirstIndex sg) es data meta"
    and "maxData mod se_pageSize env = 0" and "maxMeta mod se_pageSize env = 0"
    and "key_ok env (sg_mRecentUsedSecKeyVersion sg)"
    and "sg_mIsActive sg \<or> sg_mLastIndex sg + 1 = sg_mFirstIndex sg + length es"
  shows "\<exists>sg'. recoverActiveOrClosedSegment env maxData maxMeta (Some data) (Some meta) sg = Inr sg' \<and> seg_rep env sg' es \<and>
    sg_mFirstIndex sg' = sg_mFirstIndex sg \<and> sg_mIsActive sg' = sg_mIsActive sg \<and>
    maxData \<le> sg_mDataSizeLimit sg' \<and> maxMeta \<le> sg_mMetaSizeLimit sg'"
proof -
  let ?data = "data @ replicate (maxData div 1 - length data) (CHR 0x00)"
  let ?meta = "meta @ replicate (maxMeta div sizeof_LogMeta - length meta) zero_meta"
  define sg0 where "sg0 = sg\<lparr>sg_mDataSizeLimit := max maxData (length data * 1), sg_mData := ?data,
      sg_mMetaSizeLimit := max maxMeta (length meta * sizeof_LogMeta), sg_mMeta := ?meta\<rparr>"
  have eq: "recoverActiveOrClosedSegment env maxData maxMeta (Some data) (Some meta) sg = recoverMetaState sg0"
    using recoverFile_ok[OF assms(3), of 1 "CHR 0x00" data] recoverFile_ok[OF assms(4), of sizeof_LogMeta zero_meta meta]
    by (simp add: recoverActiveOrClosedSegment_def sizeof_LogMeta_def sg0_def)
  have files: "files_ok env (sg_mFirstIndex sg0) es (sg_mData sg0) (sg_mMeta sg0)"
    using files_ok_extend[OF assms(2)] by (simp add: sg0_def)
  have lim: "sg_mDataSizeLimit sg0 = length (sg_mData sg0)" "sg_mMetaSizeLimit sg0 = length (sg_mMeta sg0) * sizeof_LogMeta"
    using recover_limits[OF assms(1,4), of meta zero_meta] by (auto simp: sg0_def)
  have key: "key_ok env (sg_mRecentUsedSecKeyVersion sg0)" "sg_mIsActive sg0 \<or> sg_mLastIndex sg0 + 1 = sg_mFirstIndex sg0 + length es"
    using assms(5,6) by (simp_all add: sg0_def)
  obtain sg' where r: "recoverMetaState sg0 = Inr sg'" "seg_rep env sg' es" "sg_mFirstIndex sg' = sg_mFirstIndex sg0"
      "sg_mIsActive sg' = sg_mIsActive sg0" "sg_mData sg' = sg_mData sg0" "sg_mMeta sg' = sg_mMeta sg0"
    using recoverMetaState_ok[OF assms(1) files lim key] by blast
  have "maxData \<le> sg_mDataSizeLimit sg0" "maxMeta \<le> sg_mMetaSizeLimit sg0" by (simp_all add: sg0_def)
  then have "maxData \<le> sg_mDataSizeLimit sg'" "maxMeta \<le> sg_mMetaSizeLimit sg'"
    using r(2,5,6) lim by (simp_all add: seg_rep_def)
  then show ?thesis using r unfolding eq by (auto simp: sg0_def)
qed

lemma latest_key_ok: "env_ok env \<Longrightarrow> key_ok env (getLatestSecKeyVersion (se_crypto env))"
  by (auto simp: env_ok_def key_ok_def crypto_ok_def keys_ok_def kOldestSecKeyVersion_def getLatestSecKeyVersion_def)

lemma recoverActive_ok:
  assumes "env_ok env" and "files_ok env f es data meta"
    and "maxData mod se_pageSize env = 0" and "maxMeta mod se_pageSize env = 0"
  shows "\<exists>sg'. recoverActiveOrClosedSegment env maxData maxMeta (Some data) (Some meta) (lazyActiveSegment env f) = Inr sg' \<and>
    seg_rep env sg' es \<and> sg_mFirstIndex sg' = f \<and> sg_mIsActive sg' \<and> maxData \<le> sg_mDataSizeLimit sg' \<and> maxMeta \<le> sg_mMetaSizeLimit sg'"
  using recoverSegment_ok[of env "lazyActiveSegment env f" es data meta maxData maxMeta] assms latest_key_ok[OF assms(1)]
  by (simp add: lazyActiveSegment_def)

lemma recoverClosed_ok:
  assumes "env_ok env" and "files_ok env f es data meta" and "la + 1 = f + length es"
  shows "\<exists>sg'. recoverActiveOrClosedSegment env 0 0 (Some data) (Some meta) (lazyClosedSegment env f la) = Inr sg' \<and>
    seg_rep env sg' es \<and> sg_mFirstIndex sg' = f \<and> \<not> sg_mIsActive sg'"
  using recoverSegment_ok[of env "lazyClosedSegment env f la" es data meta 0 0] assms latest_key_ok[OF assms(1)]
  by (simp add: lazyActiveSegment_def lazyClosedSegment_def)

text \<open>
  A crash in an append. The data is on disk before the first record is written, so when the
  records of the first \<open>k\<close> new entries made it to the meta file, recovery finds the old
  entries and these \<open>k\<close>, and nothing else.
\<close>

theorem append_crash_recovery:
  assumes "seg_rep env sg es" and "sg_appendData env new sg = Inr (sg1, off, ms)" and "sg_appendMeta (take k ms) sg1 = Inr sg2"
    and "maxData mod se_pageSize env = 0" and "maxMeta mod se_pageSize env = 0"
  shows "\<exists>sg'. recoverActiveOrClosedSegment env maxData maxMeta (Some (sg_mData sg2)) (Some (sg_mMeta sg2))
      (lazyActiveSegment env (sg_mFirstIndex sg)) = Inr sg' \<and> seg_rep env sg' (es @ take k new)"
proof -
  obtain data where D: "sg1 = sg\<lparr>sg_mData := data\<rparr>" "consec (sg_mLastIndex sg + 1) new"
      "prefix (bytes_of env (es @ new)) data" "metas_ok env (size_of env es) new ms"
    using sg_appendData_Inr[OF assms(1,2)] by blast
  have slot: "sg_mMetaOffset sg div sizeof_LogMeta = length es"
    using assms(1) by (simp add: seg_rep_def sizeof_LogMeta_def)
  have M: "write_at (length es) (take k ms) (sg_mMeta sg) = Inr (sg_mMeta sg2)" and data: "sg_mData sg2 = data"
    using assms(3) slot unfolding sg_appendMeta_def D(1) by (elim resE, auto)+
  have "prefix (bytes_of env (es @ take k new)) data"
    using D(3) by (metis append.assoc append_take_drop_id concat_append map_append prefix_def prefix_order.trans)
  then have "files_ok env (sg_mFirstIndex sg) (es @ take k new) data (sg_mMeta sg2)"
    using files_ok_append(1)[OF assms(1) _ _ metas_ok_take[OF D(4)] M] D(2) by blast
  then show ?thesis
    using recoverActive_ok[OF _ _ assms(4,5)] assms(1) unfolding data seg_rep_def by blast
qed

end
