(* ===== verification/SegmentLog.thy ===== *)
theory SegmentLog
  imports Segment_Rep
begin

text \<open>
  The file-backed log (\<^verbatim>\<open>storage/SegmentLog.cpp\<close>): closed segments in index order, one
  active segment, and three small text files with the term, the vote and the first index. A
  live segment maps its two files, whose names follow from its index range and its state, so
  the directory is the files of the live segments, the three text files, and \<open>sl_others\<close>, the
  files no live segment maps (dropped, or left behind by a prefix truncation).
\<close>

section \<open>State\<close>

datatype dir_file = DataFile string | MetaFile "log_meta list"

record segment_log =
  sl_mLogDir :: string
  sl_mSegmentDataSizeLimit :: nat
  sl_mSegmentMetaSizeLimit :: nat
  sl_mFirstIndex :: nat
  sl_mLastIndex :: nat
  sl_mCurrentTerm :: nat
  sl_mVoteFor :: nat
  sl_mClosedSegments :: "(nat \<times> segment) list"
  sl_mActiveSegment :: "segment option"
  sl_currentTermFile :: "string option"
  sl_voteForFile :: "string option"
  sl_firstIndexFile :: "string option"
  sl_others :: "(string \<times> dir_file) list"
  sl_drops :: nat

definition dataFileName :: "segment \<Rightarrow> string" where
  "dataFileName sg = (if sg_mIsActive sg then dataFileNameForActiveSegment (sg_mFirstIndex sg)
     else dataFileNameForClosedSegment (sg_mFirstIndex sg) (sg_mLastIndex sg))"

definition metaFileName :: "segment \<Rightarrow> string" where
  "metaFileName sg = (if sg_mIsActive sg then metaFileNameForActiveSegment (sg_mFirstIndex sg)
     else metaFileNameForClosedSegment (sg_mFirstIndex sg) (sg_mLastIndex sg))"

definition seg_files :: "segment \<Rightarrow> (string \<times> dir_file) list" where
  "seg_files sg = [(dataFileName sg, DataFile (sg_mData sg)), (metaFileName sg, MetaFile (sg_mMeta sg))]"

text \<open>
  A segment takes its file names (creating truncates and renaming replaces a file of that name),
  and gives its files back to the directory when no segment maps them any more.
\<close>

definition claim_files :: "segment \<Rightarrow> segment_log \<Rightarrow> segment_log" where
  "claim_files sg l = l\<lparr>sl_others := filter (\<lambda>p. fst p \<notin> {dataFileName sg, metaFileName sg}) (sl_others l)\<rparr>"

definition release_files :: "segment \<Rightarrow> segment_log \<Rightarrow> segment_log" where
  "release_files sg l = l\<lparr>sl_others := seg_files sg @ sl_others l\<rparr>"

definition sl_newActive :: "storage_env \<Rightarrow> segment_log \<Rightarrow> segment_log res" where
  "sl_newActive env l =
     bindR (createActiveSegment env (sl_mLastIndex l + 1) (sl_mSegmentDataSizeLimit l) (sl_mSegmentMetaSizeLimit l))
       (\<lambda>sg. Inr (claim_files sg (l\<lparr>sl_mActiveSegment := Some sg\<rparr>)))"

section \<open>The text files\<close>

definition persistCurrentTerm :: "nat \<Rightarrow> segment_log \<Rightarrow> segment_log" where
  "persistCurrentTerm term' l = l\<lparr>sl_currentTermFile := Some (to_string term')\<rparr>"

definition persistVoteFor :: "nat \<Rightarrow> segment_log \<Rightarrow> segment_log" where
  "persistVoteFor vote l = l\<lparr>sl_voteForFile := Some (to_string vote)\<rparr>"

definition persistFirstIndex :: "nat \<Rightarrow> segment_log \<Rightarrow> segment_log" where
  "persistFirstIndex index l = l\<lparr>sl_firstIndexFile := Some (to_string index)\<rparr>"

definition recoverCurrentTerm :: "segment_log \<Rightarrow> (segment_log \<times> nat) res" where
  "recoverCurrentTerm l = (case sl_currentTermFile l of
       Some content \<Rightarrow> bindR (stoull content) (\<lambda>n. Inr (l, n))
     | None \<Rightarrow> Inr (persistCurrentTerm 0 l, 0))"

definition recoverVoteFor :: "segment_log \<Rightarrow> (segment_log \<times> nat) res" where
  "recoverVoteFor l = (case sl_voteForFile l of
       Some content \<Rightarrow> bindR (stoull content) (\<lambda>n. Inr (l, n))
     | None \<Rightarrow> Inr (persistVoteFor 0 l, 0))"

definition recoverFirstIndex :: "segment_log \<Rightarrow> (segment_log \<times> nat) res" where
  "recoverFirstIndex l = (case sl_firstIndexFile l of
       Some content \<Rightarrow> bindR (stoull content) (\<lambda>n. Inr (l, n))
     | None \<Rightarrow> Inr (persistFirstIndex 1 l, 1))"

definition sl_setCurrentTerm :: "nat \<Rightarrow> segment_log \<Rightarrow> segment_log" where
  "sl_setCurrentTerm term' l = (persistCurrentTerm term' l)\<lparr>sl_mCurrentTerm := term'\<rparr>"

definition sl_setVoteFor :: "nat \<Rightarrow> segment_log \<Rightarrow> segment_log" where
  "sl_setVoteFor voteFor l = (persistVoteFor voteFor l)\<lparr>sl_mVoteFor := voteFor\<rparr>"

section \<open>Recovery\<close>

text \<open>
  The two regular expressions, \<^verbatim>\<open>segment_([0-9]+)_([0-9]+).meta$\<close> and
  \<^verbatim>\<open>segment_in_progress_([0-9]+).meta$\<close>, matched from the end of the path. The dot is any
  character but a line terminator. A group is maximal because a non-digit must precede it.
\<close>

definition strip_meta :: "string \<Rightarrow> string option" where
  "strip_meta path = (case rev path of
       a # t # e # m # dot # r \<Rightarrow>
         if [m, e, t, a] = ''meta'' \<and> dot \<noteq> CHR 0x0A \<and> dot \<noteq> CHR 0x0D then Some r else None
     | _ \<Rightarrow> None)"

definition split_digits :: "string \<Rightarrow> (string \<times> string) option" where
  "split_digits r = (let ds = takeWhile is_digit r in
     if ds = [] then None else Some (rev ds, dropWhile is_digit r))"

definition matchClosed :: "string \<Rightarrow> (string \<times> string) option" where
  "matchClosed path =
     (case strip_meta path of None \<Rightarrow> None | Some r \<Rightarrow>
      case split_digits r of None \<Rightarrow> None | Some (d2, r) \<Rightarrow>
      case r of [] \<Rightarrow> None | c # r \<Rightarrow>
      if c \<noteq> CHR ''_'' then None else
      case split_digits r of None \<Rightarrow> None | Some (d1, r) \<Rightarrow>
      if prefix (rev ''segment_'') r then Some (d1, d2) else None)"

definition matchActive :: "string \<Rightarrow> string option" where
  "matchActive path =
     (case strip_meta path of None \<Rightarrow> None | Some r \<Rightarrow>
      case split_digits r of None \<Rightarrow> None | Some (d, r) \<Rightarrow>
      if prefix (rev ''segment_in_progress_'') r then Some d else None)"

definition listSegment :: "storage_env \<Rightarrow> string \<Rightarrow> segment_log \<Rightarrow> segment_log res" where
  "listSegment env fileName l =
     (let path = sl_mLogDir l @ ''/'' @ fileName in
      case matchClosed path of
        Some (d1, d2) \<Rightarrow>
          bindR (stoull d1) (\<lambda>firstIndex.
          bindR (stoull d2) (\<lambda>lastIndex.
          ensure (map_of (sl_mClosedSegments l) firstIndex = None)
            (Inr (l\<lparr>sl_mClosedSegments := om_upd firstIndex (lazyClosedSegment env firstIndex lastIndex) (sl_mClosedSegments l)\<rparr>))))
      | None \<Rightarrow>
          (case matchActive path of
             Some d \<Rightarrow>
               bindR (stoull d) (\<lambda>firstIndex.
               ensure (sl_mActiveSegment l = None)
                 (Inr (l\<lparr>sl_mActiveSegment := Some (lazyActiveSegment env firstIndex)\<rparr>)))
           | None \<Rightarrow> Inr l))"

definition listSegments :: "storage_env \<Rightarrow> segment_log \<Rightarrow> segment_log res" where
  "listSegments env l = foldR (listSegment env) (map fst (sl_others l)) l"

definition find_data :: "string \<Rightarrow> (string \<times> dir_file) list \<Rightarrow> string option" where
  "find_data name files = (case map_of files name of Some (DataFile d) \<Rightarrow> Some d | _ \<Rightarrow> None)"

definition find_meta :: "string \<Rightarrow> (string \<times> dir_file) list \<Rightarrow> log_meta list option" where
  "find_meta name files = (case map_of files name of Some (MetaFile m) \<Rightarrow> Some m | _ \<Rightarrow> None)"

definition sl_recoverSegment ::
  "storage_env \<Rightarrow> nat \<Rightarrow> nat \<Rightarrow> (string \<times> dir_file) list \<Rightarrow> segment \<Rightarrow> segment res" where
  "sl_recoverSegment env maxDataSize maxMetaSize files sg =
     recoverActiveOrClosedSegment env maxDataSize maxMetaSize
       (find_data (dataFileName sg) files) (find_meta (metaFileName sg) files) sg"

text \<open>The loop over the closed segments; \<open>prev\<close> is the last index of \<^verbatim>\<open>prevSegPtr\<close>, if set.\<close>

fun recoverClosed ::
  "storage_env \<Rightarrow> (string \<times> dir_file) list \<Rightarrow> nat \<Rightarrow> nat option \<Rightarrow> (nat \<times> segment) list
     \<Rightarrow> ((nat \<times> segment) list \<times> nat option) res" where
  "recoverClosed env files firstIndex prev [] = Inr ([], prev)"
| "recoverClosed env files firstIndex prev ((key, sg) # rest) =
     ensure (sg_mFirstIndex sg \<le> sg_mLastIndex sg)
     (ensure (case prev of None \<Rightarrow> True | Some p \<Rightarrow> sg_mFirstIndex sg = p + 1)
     (ensure (prev \<noteq> None \<or> firstIndex \<ge> sg_mFirstIndex sg)
     (if prev = None \<and> firstIndex > sg_mLastIndex sg then recoverClosed env files firstIndex prev rest
      else bindR (sl_recoverSegment env 0 0 files sg) (\<lambda>sg.
           bindR (recoverClosed env files firstIndex (Some (sg_mLastIndex sg)) rest) (\<lambda>(closed, last').
           Inr ((key, sg) # closed, last'))))))"

definition recoverActive :: "storage_env \<Rightarrow> nat option \<Rightarrow> segment_log \<Rightarrow> segment_log res" where
  "recoverActive env prev l = (case sl_mActiveSegment l of None \<Rightarrow> Inr l
     | Some sg \<Rightarrow>
         ensure (prev \<noteq> None \<or> sl_mFirstIndex l \<ge> sg_mFirstIndex sg)
         (ensure (case prev of None \<Rightarrow> True | Some p \<Rightarrow> sg_mFirstIndex sg = p + 1)
         (bindR (sl_recoverSegment env (sl_mSegmentDataSizeLimit l) (sl_mSegmentMetaSizeLimit l) (sl_others l) sg) (\<lambda>sg.
          Inr (if sl_mFirstIndex l > sg_mLastIndex sg
               then release_files sg (claim_files sg (l\<lparr>sl_mActiveSegment := None\<rparr>))
               else l\<lparr>sl_mActiveSegment := Some sg, sl_mLastIndex := sg_mLastIndex sg\<rparr>)))))"

text \<open>When recovery is done, the files of the loaded segments are mapped.\<close>

definition claim_live :: "segment_log \<Rightarrow> segment_log" where
  "claim_live l = fold claim_files
     (map snd (sl_mClosedSegments l) @ (case sl_mActiveSegment l of None \<Rightarrow> [] | Some sg \<Rightarrow> [sg])) l"

definition recoverSegments :: "storage_env \<Rightarrow> segment_log \<Rightarrow> segment_log res" where
  "recoverSegments env l =
     bindR (recoverClosed env (sl_others l) (sl_mFirstIndex l) None (sl_mClosedSegments l)) (\<lambda>(closed, prev).
     bindR (recoverActive env prev
              (l\<lparr>sl_mClosedSegments := closed,
                 sl_mLastIndex := (case prev of None \<Rightarrow> sl_mLastIndex l | Some i \<Rightarrow> i)\<rparr>)) (\<lambda>l.
     Inr (claim_live l)))"

definition sl_init :: "storage_env \<Rightarrow> segment_log \<Rightarrow> segment_log res" where
  "sl_init env l =
     bindR (recoverCurrentTerm l) (\<lambda>(l, t). let l = l\<lparr>sl_mCurrentTerm := t\<rparr> in
     bindR (recoverVoteFor l) (\<lambda>(l, v). let l = l\<lparr>sl_mVoteFor := v\<rparr> in
     bindR (recoverFirstIndex l) (\<lambda>(l, i). let l = l\<lparr>sl_mFirstIndex := i\<rparr> in
     bindR (listSegments env l) (\<lambda>l.
     bindR (recoverSegments env l) (\<lambda>l.
     let l = (if sl_mLastIndex l = 0 then l\<lparr>sl_mLastIndex := sub64 (sl_mFirstIndex l) 1\<rparr> else l) in
     if sl_mActiveSegment l = None then sl_newActive env l else Inr l)))))"

text \<open>The constructor on a directory, and the directory a log leaves when the process ends.\<close>

definition SegmentLog_open ::
  "storage_env \<Rightarrow> string \<Rightarrow> nat \<Rightarrow> nat \<Rightarrow> string option \<Rightarrow> string option \<Rightarrow> string option
     \<Rightarrow> (string \<times> dir_file) list \<Rightarrow> segment_log res" where
  "SegmentLog_open env logDir dataLimit metaLimit termFile voteFile firstFile files =
     sl_init env \<lparr>sl_mLogDir = logDir, sl_mSegmentDataSizeLimit = dataLimit, sl_mSegmentMetaSizeLimit = metaLimit,
       sl_mFirstIndex = 1, sl_mLastIndex = 0, sl_mCurrentTerm = 0, sl_mVoteFor = 0,
       sl_mClosedSegments = [], sl_mActiveSegment = None,
       sl_currentTermFile = termFile, sl_voteForFile = voteFile, sl_firstIndexFile = firstFile,
       sl_others = files, sl_drops = 0\<rparr>"

definition sl_directory :: "segment_log \<Rightarrow> (string \<times> dir_file) list" where
  "sl_directory l = concat (map (seg_files \<circ> snd) (sl_mClosedSegments l)) @
     (case sl_mActiveSegment l of None \<Rightarrow> [] | Some sg \<Rightarrow> seg_files sg) @ sl_others l"

section \<open>Rolling, looking up and reading\<close>

definition rollActiveSegment :: "storage_env \<Rightarrow> segment_log \<Rightarrow> segment_log res" where
  "rollActiveSegment env l = (case sl_mActiveSegment l of None \<Rightarrow> Inl AssertFailed
     | Some act \<Rightarrow>
         bindR (sg_closeActiveSegment act) (\<lambda>act.
         sl_newActive env (claim_files act
           (l\<lparr>sl_mClosedSegments := om_upd (sg_mFirstIndex act) act (sl_mClosedSegments l), sl_mActiveSegment := None\<rparr>))))"

datatype seg_ref = ActiveRef | ClosedRef nat

text \<open>\<^verbatim>\<open>--upper_bound(index)\<close>: the last key that is at most the index.\<close>

definition getSegment :: "nat \<Rightarrow> segment_log \<Rightarrow> (seg_ref \<times> segment) option res" where
  "getSegment index l =
     (if log_isEmpty (sl_mFirstIndex l) (sl_mLastIndex l) then Inr None
      else if index < sl_mFirstIndex l \<or> index > sl_mLastIndex l then Inr None
      else case sl_mActiveSegment l of
        Some act \<Rightarrow>
          if index \<ge> sg_mFirstIndex act then Inr (Some (ActiveRef, act))
          else ensure (sl_mClosedSegments l \<noteq> [])
            (case rev (takeWhile (\<lambda>p. fst p \<le> index) (sl_mClosedSegments l)) of
               [] \<Rightarrow> Inl OutOfBounds | (key, sg) # _ \<Rightarrow> Inr (Some (ClosedRef key, sg)))
      | None \<Rightarrow>
          ensure (sl_mClosedSegments l \<noteq> [])
            (case rev (takeWhile (\<lambda>p. fst p \<le> index) (sl_mClosedSegments l)) of
               [] \<Rightarrow> Inl OutOfBounds | (key, sg) # _ \<Rightarrow> Inr (Some (ClosedRef key, sg))))"

text \<open>A method of a segment works on the object the log points to.\<close>

fun put_segment :: "seg_ref \<Rightarrow> segment \<Rightarrow> segment_log \<Rightarrow> segment_log" where
  "put_segment ActiveRef sg l = l\<lparr>sl_mActiveSegment := Some sg\<rparr>"
| "put_segment (ClosedRef key) sg l = l\<lparr>sl_mClosedSegments := om_upd key sg (sl_mClosedSegments l)\<rparr>"

definition sl_getEntry :: "storage_env \<Rightarrow> nat \<Rightarrow> segment_log \<Rightarrow> (segment_log \<times> log_entry option) res" where
  "sl_getEntry env index l =
     bindR (getSegment index l) (\<lambda>seg. case seg of None \<Rightarrow> Inr (l, None)
     | Some (r, sg) \<Rightarrow> bindR (sg_getEntry env index sg) (\<lambda>(sg, e). Inr (put_segment r sg l, e)))"

definition sl_getTerm :: "nat \<Rightarrow> segment_log \<Rightarrow> nat option res" where
  "sl_getTerm index l =
     (if index = sub64 (sl_mFirstIndex l) 1 then Inr (Some 0)
      else bindR (getSegment index l) (\<lambda>seg. case seg of None \<Rightarrow> Inr None | Some (r, sg) \<Rightarrow> sg_getTerm index sg))"

definition sl_getEntries ::
  "storage_env \<Rightarrow> nat \<Rightarrow> nat \<Rightarrow> nat \<Rightarrow> segment_log \<Rightarrow> (segment_log \<times> nat \<times> log_entry list) res" where
  "sl_getEntries env startIndex maxLenInBytes maxBatchSize l =
     (if startIndex > sl_mLastIndex l then ensure (startIndex = sl_mLastIndex l + 1) (Inr (l, 0, []))
      else bindR (getSegment startIndex l) (\<lambda>seg. case seg of None \<Rightarrow> Inr (l, 0, [])
        | Some (r, sg) \<Rightarrow> bindR (sg_getEntries env startIndex maxLenInBytes maxBatchSize sg) (\<lambda>(sg, n, es).
            Inr (put_segment r sg l, n, es))))"

section \<open>Appending\<close>

text \<open>The common part of the two appends: roll if needed, then write to the active segment.\<close>

definition sl_append :: "storage_env \<Rightarrow> log_entry list \<Rightarrow> segment_log \<Rightarrow> segment_log res" where
  "sl_append env entries l = (case sl_mActiveSegment l of None \<Rightarrow> Inl AssertFailed
     | Some act \<Rightarrow>
         bindR (shouldRoll env entries act) (\<lambda>roll.
         bindR (if roll then rollActiveSegment env l else Inr l) (\<lambda>l.
         case sl_mActiveSegment l of None \<Rightarrow> Inl AssertFailed
         | Some act \<Rightarrow>
             bindR (sg_appendEntries env entries act) (\<lambda>act.
             Inr (l\<lparr>sl_mActiveSegment := Some act, sl_mLastIndex := sl_mLastIndex l + length entries\<rparr>)))))"

definition sl_appendEntry :: "storage_env \<Rightarrow> log_entry \<Rightarrow> segment_log \<Rightarrow> (segment_log \<times> bool) res" where
  "sl_appendEntry env entry l =
     (if le_index entry \<noteq> sl_mLastIndex l + 1 then Inr (l, False)
      else bindR (sl_append env [entry] l) (\<lambda>l. Inr (l, True)))"

definition sl_appendEntries :: "storage_env \<Rightarrow> log_entry list \<Rightarrow> segment_log \<Rightarrow> (segment_log \<times> bool) res" where
  "sl_appendEntries env entries l = (case entries of [] \<Rightarrow> Inr (l, True)
     | entry # _ \<Rightarrow>
         if le_index entry \<noteq> sl_mLastIndex l + 1 then Inr (l, False)
         else bindR (sl_append env entries l) (\<lambda>l. Inr (l, True)))"

section \<open>Truncating\<close>

text \<open>The loop over the closed segments: those below the new first index leave the map.\<close>

definition tp_closed :: "nat \<Rightarrow> segment_log \<Rightarrow> segment_log" where
  "tp_closed firstIndexKept l =
     (let gone = (\<lambda>p. sg_mLastIndex (snd p) < firstIndexKept);
          released = fold (\<lambda>p. release_files (snd p)) (takeWhile gone (sl_mClosedSegments l)) l in
      released\<lparr>sl_mClosedSegments := dropWhile gone (sl_mClosedSegments l)\<rparr>)"

definition sl_truncatePrefix :: "storage_env \<Rightarrow> nat \<Rightarrow> segment_log \<Rightarrow> segment_log res" where
  "sl_truncatePrefix env firstIndexKept l =
     (if sl_mFirstIndex l \<ge> firstIndexKept then Inr l
      else let l = tp_closed firstIndexKept ((persistFirstIndex firstIndexKept l)\<lparr>sl_mFirstIndex := firstIndexKept\<rparr>) in
           if sl_mClosedSegments l \<noteq> [] then Inr l
           else case sl_mActiveSegment l of None \<Rightarrow> Inl AssertFailed
           | Some act \<Rightarrow>
               if sg_mLastIndex act < firstIndexKept
               then sl_newActive env (release_files act (l\<lparr>sl_mLastIndex := sl_mFirstIndex l - 1\<rparr>))
               else Inr l)"

definition dropSegment :: "storage_env \<Rightarrow> segment \<Rightarrow> segment_log \<Rightarrow> segment_log" where
  "dropSegment env sg l =
     (let suffix = ''.dropped.'' @ to_string (se_clock env (sl_drops l));
          dataTo = dataFileName sg @ suffix;
          metaTo = metaFileName sg @ suffix in
      l\<lparr>sl_others := (dataTo, DataFile (sg_mData sg)) # (metaTo, MetaFile (sg_mMeta sg)) #
            filter (\<lambda>p. fst p \<notin> {dataTo, metaTo}) (sl_others l),
        sl_drops := sl_drops l + 1\<rparr>)"

text \<open>
  \<^verbatim>\<open>truncateSuffix\<close> in its three parts: choosing the segment that is cut and those that are
  dropped, cutting it, and dropping the others.
\<close>

definition ts_choose ::
  "nat \<Rightarrow> segment_log \<Rightarrow> (segment_log \<times> segment list \<times> (seg_ref \<times> segment) option) res" where
  "ts_choose lastIndexKept l = (case sl_mActiveSegment l of None \<Rightarrow> Inl AssertFailed
     | Some act \<Rightarrow>
         if sg_mFirstIndex act \<le> lastIndexKept then Inr (l, [], Some (ActiveRef, act))
         else let above = (\<lambda>p. sg_mFirstIndex (snd p) > lastIndexKept);
                  rclosed = rev (sl_mClosedSegments l);
                  dropped = act # map snd (takeWhile above rclosed);
                  lastSegment = (case dropWhile above rclosed of [] \<Rightarrow> None
                    | (key, sg) # _ \<Rightarrow> Some (ClosedRef key, sg));
                  closed = fold (\<lambda>sg. om_erase (sg_mFirstIndex sg)) dropped (sl_mClosedSegments l) in
              Inr (l\<lparr>sl_mActiveSegment := None, sl_mClosedSegments := closed,
                     sl_mFirstIndex := (if closed = [] then sl_mLastIndex l + 1 else sl_mFirstIndex l)\<rparr>,
                   dropped, lastSegment))"

definition ts_cut ::
  "nat \<Rightarrow> segment list \<Rightarrow> (seg_ref \<times> segment) option \<Rightarrow> segment_log \<Rightarrow> (segment_log \<times> segment list) res" where
  "ts_cut lastIndexKept dropped lastSegment l = (case lastSegment of None \<Rightarrow> Inr (l, dropped)
     | Some (r, sg) \<Rightarrow>
         if sl_mFirstIndex l \<le> sl_mLastIndex l
         then bindR (sg_truncateSuffix lastIndexKept sg) (\<lambda>sg. Inr (claim_files sg (put_segment r sg l), dropped))
         else Inr ((case r of ActiveRef \<Rightarrow> l\<lparr>sl_mActiveSegment := None\<rparr>
                    | ClosedRef key \<Rightarrow> l\<lparr>sl_mClosedSegments := om_erase (sg_mFirstIndex sg) (sl_mClosedSegments l)\<rparr>),
                   dropped @ [sg]))"

definition sl_truncateSuffix :: "storage_env \<Rightarrow> nat \<Rightarrow> segment_log \<Rightarrow> segment_log res" where
  "sl_truncateSuffix env lastIndexKept l =
     (if sl_mLastIndex l \<le> lastIndexKept then Inr l
      else bindR (ts_choose lastIndexKept (l\<lparr>sl_mLastIndex := lastIndexKept\<rparr>)) (\<lambda>(l, dropped, lastSegment).
           bindR (ts_cut lastIndexKept dropped lastSegment l) (\<lambda>(l, dropped).
           let l = fold (dropSegment env) dropped l in
           if sl_mActiveSegment l = None then sl_newActive env l else Inr l)))"

section \<open>The method table\<close>

definition seg_ops :: "storage_env \<Rightarrow> segment_log log_ops" where
  "seg_ops env = \<lparr>
     lo_getLatestSecKeyVersion = (\<lambda>l. getLatestSecKeyVersion (se_crypto env)),
     lo_appendEntry = sl_appendEntry env,
     lo_appendEntries = sl_appendEntries env,
     lo_getEntry = sl_getEntry env,
     lo_getTerm = sl_getTerm,
     lo_getEntries = sl_getEntries env,
     lo_truncatePrefix = sl_truncatePrefix env,
     lo_truncateSuffix = sl_truncateSuffix env,
     lo_getFirstLogIndex = sl_mFirstIndex,
     lo_getLastLogIndex = sl_mLastIndex,
     lo_setCurrentTerm = sl_setCurrentTerm,
     lo_setVoteFor = sl_setVoteFor,
     lo_getCurrentTerm = sl_mCurrentTerm,
     lo_getVote = sl_mVoteFor\<rparr>"

end
