(* ===== verification/SegmentLog_Rep.thy ===== *)
theory SegmentLog_Rep
  imports SegmentLog
begin

text \<open>
  The file-backed log implements the abstract log: its representation as a chain of segments,
  what every operation does to the chain, and the contract of the storage interface
  interpreted on it.
\<close>

section \<open>The chain of closed segments\<close>

fun closed_chain :: "storage_env \<Rightarrow> nat \<Rightarrow> (nat \<times> segment) list \<Rightarrow> log_entry list \<Rightarrow> bool" where
  "closed_chain env n [] es \<longleftrightarrow> es = []"
| "closed_chain env n ((f, sg) # cl) es \<longleftrightarrow> f = n \<and> sg_mFirstIndex sg = n \<and> \<not> sg_mIsActive sg \<and>
     (\<exists>es1 es2. es = es1 @ es2 \<and> es1 \<noteq> [] \<and> seg_rep env sg es1 \<and> closed_chain env (n + length es1) cl es2)"

lemma closed_chain_append:
  "closed_chain env n (cl1 @ cl2) es \<longleftrightarrow>
     (\<exists>es1 es2. es = es1 @ es2 \<and> closed_chain env n cl1 es1 \<and> closed_chain env (n + length es1) cl2 es2)"
proof (induction cl1 arbitrary: n es)
  case (Cons p cl1)
  obtain f sg where p: "p = (f, sg)" by fastforce
  show ?case
    unfolding p append_Cons closed_chain.simps(2) Cons.IH
    by (auto simp: add.assoc) (metis add.assoc append.assoc length_append)+
qed simp

lemma closed_chain_keys:
  "closed_chain env n cl es \<Longrightarrow> \<forall>p \<in> set cl. n \<le> fst p \<and> fst p = sg_mFirstIndex (snd p) \<and>
     sg_mLastIndex (snd p) < n + length es \<and> fst p \<le> sg_mLastIndex (snd p)"
proof (induction cl arbitrary: n es)
  case (Cons p cl)
  obtain f sg where p: "p = (f, sg)" by fastforce
  obtain es1 es2 where e: "es = es1 @ es2" "es1 \<noteq> []" "seg_rep env sg es1" "closed_chain env (n + length es1) cl es2"
      "f = n" "sg_mFirstIndex sg = n"
    using Cons.prems unfolding p closed_chain.simps by blast
  then show ?case using Cons.IH[OF e(4)] by (auto simp: p seg_rep_def neq_Nil_conv)
qed simp

lemma closed_chain_sorted: "closed_chain env n cl es \<Longrightarrow> om_ok cl"
proof (induction cl arbitrary: n es)
  case (Cons p cl)
  obtain f sg where p: "p = (f, sg)" by fastforce
  obtain es1 es2 :: "log_entry list" where e: "es1 \<noteq> []" "closed_chain env (n + length es1) cl es2" and f: "f = n"
    using Cons.prems unfolding p closed_chain.simps by blast
  have "n < fst q" if "q \<in> set cl" for q
    using closed_chain_keys[OF e(2)] that e(1) by (cases es1) auto
  then show ?case using Cons.IH[OF e(2)] f by (simp add: p)
qed simp

lemma closed_chain_start: "closed_chain env n (p # cl) es \<Longrightarrow> fst p = n"
  by (cases p) auto

lemma closed_chain_entries: "closed_chain env n cl es \<Longrightarrow> concat (map (seg_entries env \<circ> snd) cl) = es"
  by (induction env n cl es rule: closed_chain.induct) (auto dest: seg_rep_entries)

lemma closed_chain_consec: "closed_chain env n cl es \<Longrightarrow> consec n es"
proof (induction env n cl es rule: closed_chain.induct)
  case (2 env n f sg cl es)
  then show ?case by (fastforce simp: seg_rep_def files_ok_def)
qed simp

lemma closed_chain_last:
  "closed_chain env n cl es \<Longrightarrow> cl \<noteq> [] \<Longrightarrow> sg_mLastIndex (snd (last cl)) + 1 = n + length es"
proof (induction env n cl es rule: closed_chain.induct)
  case (2 env n f sg cl es)
  then show ?case by (cases "cl = []") (auto simp: seg_rep_def)
qed simp

text \<open>The segment that holds an index, and what changing it in place does.\<close>

lemma closed_chain_at:
  assumes "closed_chain env n cl es" and "n \<le> i" and "i < n + length es"
  shows "\<exists>cl1 f sg cl2 pre es1 post. cl = cl1 @ (f, sg) # cl2 \<and> es = pre @ es1 @ post \<and> closed_chain env n cl1 pre \<and>
    f = n + length pre \<and> sg_mFirstIndex sg = f \<and> \<not> sg_mIsActive sg \<and> seg_rep env sg es1 \<and> es1 \<noteq> [] \<and>
    closed_chain env (f + length es1) cl2 post \<and> f \<le> i \<and> i < f + length es1"
  using assms
proof (induction cl arbitrary: n es)
  case (Cons p cl)
  obtain f sg where p: "p = (f, sg)" by fastforce
  obtain es1 es2 where e: "es = es1 @ es2" "es1 \<noteq> []" "seg_rep env sg es1" "closed_chain env (n + length es1) cl es2"
      "f = n" "sg_mFirstIndex sg = n" "\<not> sg_mIsActive sg"
    using Cons.prems unfolding p closed_chain.simps by blast
  show ?case
  proof (cases "i < n + length es1")
    case True
    have "p # cl = [] @ (f, sg) # cl" "es = [] @ es1 @ es2" using p e(1) by auto
    then show ?thesis using e True Cons.prems(2) by (intro exI conjI) auto
  next
    case False
    then obtain cl1 f' sg' cl2 pre es1' post where I: "cl = cl1 @ (f', sg') # cl2" "es2 = pre @ es1' @ post"
        "closed_chain env (n + length es1) cl1 pre" "f' = n + length es1 + length pre" "sg_mFirstIndex sg' = f'"
        "\<not> sg_mIsActive sg'" "seg_rep env sg' es1'" "es1' \<noteq> []" "closed_chain env (f' + length es1') cl2 post" "f' \<le> i"
        "i < f' + length es1'"
      using Cons.IH[OF e(4)] Cons.prems e(1) by (auto simp: add.assoc)
    have "p # cl = (p # cl1) @ (f', sg') # cl2" "es = (es1 @ pre) @ es1' @ post" "closed_chain env n (p # cl1) (es1 @ pre)"
      using I(1-3) e p by auto
    then show ?thesis using I(4-) by (intro exI conjI) auto
  qed
qed simp

lemma om_upd_mid:
  "om_ok (cl1 @ (k, v) # cl2) \<Longrightarrow> om_upd k v' (cl1 @ (k, v) # cl2) = cl1 @ (k, v') # cl2"
  by (induction cl1) (auto simp: sorted_wrt_append)

lemma closed_chain_mid:
  assumes "closed_chain env n cl1 pre" and "sg_mFirstIndex sg = n + length pre" and "\<not> sg_mIsActive sg"
    and "seg_rep env sg es1" and "es1 \<noteq> []" and "closed_chain env (n + length pre + length es1) cl2 post"
  shows "closed_chain env n (cl1 @ (n + length pre, sg) # cl2) (pre @ es1 @ post)"
proof -
  have "closed_chain env (n + length pre) ((n + length pre, sg) # cl2) (es1 @ post)"
    using assms(2-) by auto
  then show ?thesis using assms(1) by (auto simp: closed_chain_append simp del: closed_chain.simps)
qed

lemma closed_chain_put:
  assumes "closed_chain env n cl es" and "cl = cl1 @ (f, sg) # cl2" and "same_files env sg sg'"
  shows "closed_chain env n (cl1 @ (f, sg') # cl2) es"
proof -
  obtain es1 es2 where "es = es1 @ es2" "closed_chain env n cl1 es1" "closed_chain env (n + length es1) ((f, sg) # cl2) es2"
    using assms(1,2) by (auto simp: closed_chain_append)
  moreover have "closed_chain env (n + length es1) ((f, sg') # cl2) es2"
    using calculation(3) same_files_rep[OF assms(3)] same_files_simps[OF assms(3)] by auto
  ultimately show ?thesis by (auto simp: closed_chain_append)
qed

lemma takeWhile_keys:
  assumes "om_ok (cl1 @ (f, sg) # cl2)" and "f \<le> i" and "\<forall>p \<in> set cl2. i < fst p"
  shows "takeWhile (\<lambda>p. fst p \<le> i) (cl1 @ (f, sg) # cl2) = cl1 @ [(f, sg)]"
proof -
  have "\<forall>p \<in> set cl1. fst p \<le> i" using assms(1,2) by (auto simp: sorted_wrt_append intro: order.trans less_imp_le)
  moreover have "takeWhile (\<lambda>p. fst p \<le> i) cl2 = []" using assms(3) by (cases cl2) (auto simp: not_le)
  ultimately show ?thesis using assms(2) by (simp add: takeWhile_append2)
qed

section \<open>The representation\<close>

definition limits_ok :: "storage_env \<Rightarrow> nat \<Rightarrow> nat \<Rightarrow> bool" where
  "limits_ok env maxData maxMeta \<longleftrightarrow> 0 < maxData \<and> 0 < maxMeta \<and>
     maxData mod se_pageSize env = 0 \<and> maxMeta mod se_pageSize env = 0"

definition sl_rep :: "storage_env \<Rightarrow> segment_log \<Rightarrow> nat \<Rightarrow> log_entry list \<Rightarrow> log_entry list \<Rightarrow> segment \<Rightarrow> bool" where
  "sl_rep env l n esc esa act \<longleftrightarrow> limits_ok env (sl_mSegmentDataSizeLimit l) (sl_mSegmentMetaSizeLimit l) \<and>
      closed_chain env n (sl_mClosedSegments l) esc \<and>
     sl_mActiveSegment l = Some act \<and> sg_mIsActive act \<and> sg_mFirstIndex act = n + length esc \<and> seg_rep env act esa \<and>
     sl_mSegmentDataSizeLimit l \<le> sg_mDataSizeLimit act \<and> sl_mSegmentMetaSizeLimit l \<le> sg_mMetaSizeLimit act \<and>
     sl_mLastIndex l + 1 = n + length esc + length esa \<and> n \<le> sl_mFirstIndex l \<and>
     sl_mFirstIndex l \<le> sl_mLastIndex l + 1 \<and> (esa \<noteq> [] \<longrightarrow> sl_mFirstIndex l \<le> sl_mLastIndex l) \<and> 1 \<le> n \<and>
     (sl_mClosedSegments l \<noteq> [] \<longrightarrow> sl_mFirstIndex l \<le> sg_mLastIndex (snd (hd (sl_mClosedSegments l))))"

definition sl_inv :: "storage_env \<Rightarrow> segment_log \<Rightarrow> bool" where
  "sl_inv env l \<longleftrightarrow> (\<exists>n esc esa act. sl_rep env l n esc esa act)"

definition sl_start :: "segment_log \<Rightarrow> nat" where
  "sl_start l = (case sl_mClosedSegments l of p # _ \<Rightarrow> fst p
     | [] \<Rightarrow> (case sl_mActiveSegment l of None \<Rightarrow> sl_mFirstIndex l | Some act \<Rightarrow> sg_mFirstIndex act))"

definition sl_entries :: "storage_env \<Rightarrow> segment_log \<Rightarrow> log_entry list" where
  "sl_entries env l = concat (map (seg_entries env \<circ> snd) (sl_mClosedSegments l)) @
     (case sl_mActiveSegment l of None \<Rightarrow> [] | Some act \<Rightarrow> seg_entries env act)"

definition sl_abs :: "storage_env \<Rightarrow> segment_log \<Rightarrow> alog" where
  "sl_abs env l = \<lparr>al_first = sl_mFirstIndex l, al_entries = drop (sl_mFirstIndex l - sl_start l) (sl_entries env l),
     al_term = sl_mCurrentTerm l, al_vote = sl_mVoteFor l\<rparr>"

lemma sl_rep_start: "sl_rep env l n esc esa act \<Longrightarrow> sl_start l = n"
  by (auto simp: sl_rep_def sl_start_def split: list.splits dest: closed_chain_start)

lemma sl_inv_start: "sl_inv env l \<Longrightarrow> sl_start l \<le> sl_mFirstIndex l"
  using sl_rep_start unfolding sl_inv_def sl_rep_def by blast

lemma sl_rep_entries: "sl_rep env l n esc esa act \<Longrightarrow> sl_entries env l = esc @ esa"
  using closed_chain_entries seg_rep_entries by (fastforce simp: sl_rep_def sl_entries_def)

lemma sl_rep_abs:
  assumes "sl_rep env l n esc esa act"
  shows "sl_abs env l = \<lparr>al_first = sl_mFirstIndex l, al_entries = drop (sl_mFirstIndex l - n) (esc @ esa),
     al_term = sl_mCurrentTerm l, al_vote = sl_mVoteFor l\<rparr>"
  by (simp add: sl_abs_def sl_rep_start[OF assms] sl_rep_entries[OF assms])

lemma sl_rep_inv: "sl_rep env l n esc esa act \<Longrightarrow> sl_inv env l"
  by (auto simp: sl_inv_def)

lemma sl_inv_wf:
  assumes "sl_inv env l"
  shows "alog_wf (sl_abs env l) \<and> al_last (sl_abs env l) = sl_mLastIndex l"
proof -
  obtain n esc esa act where r: "sl_rep env l n esc esa act" using assms by (auto simp: sl_inv_def)
  have "consec n (esc @ esa)"
    using r closed_chain_consec by (fastforce simp: sl_rep_def seg_rep_def files_ok_def)
  from consec_drop[OF this, of "sl_mFirstIndex l - n"]
  show ?thesis using r by (auto simp: sl_rep_abs[OF r] sl_rep_def alog_wf_def al_last_def)
qed

section \<open>Looking up\<close>

lemma getSegment_outside:
  "index < sl_mFirstIndex l \<or> index > sl_mLastIndex l \<Longrightarrow> getSegment index l = Inr None"
  by (auto simp: getSegment_def)

lemma getSegment_inside:
  assumes "sl_inv env l" and "sl_mFirstIndex l \<le> i" and "i \<le> sl_mLastIndex l"
  shows "\<exists>r sg pre es post. getSegment i l = Inr (Some (r, sg)) \<and> sl_entries env l = pre @ es @ post \<and>
    sg_mFirstIndex sg = sl_start l + length pre \<and> seg_rep env sg es \<and> isWithInBoundary i sg \<and>
    (\<forall>sg'. same_files env sg sg' \<longrightarrow> sl_inv env (put_segment r sg' l) \<and> sl_abs env (put_segment r sg' l) = sl_abs env l)"
proof -
  obtain n esc esa act where r: "sl_rep env l n esc esa act" using assms by (auto simp: sl_inv_def)
  have ne: "\<not> log_isEmpty (sl_mFirstIndex l) (sl_mLastIndex l)"
    using assms r by (auto simp: log_isEmpty_def sl_rep_def)
  have start: "sl_start l = n" and ents: "sl_entries env l = esc @ esa" using sl_rep_start[OF r] sl_rep_entries[OF r] .
  show ?thesis
  proof (cases "sg_mFirstIndex act \<le> i")
    case True
    have rep: "seg_rep env act esa" using r by (simp add: sl_rep_def)
    have put: "sl_rep env (put_segment ActiveRef sg' l) n esc esa sg'" if "same_files env act sg'" for sg'
      using r same_files_rep[OF that rep] same_files_simps[OF that] by (auto simp: sl_rep_def)
    have "getSegment i l = Inr (Some (ActiveRef, act))" "isWithInBoundary i act"
      using True assms(2,3) ne r by (auto simp: getSegment_def sl_rep_def seg_rep_boundary[OF rep] seg_rep_def)
    moreover have "sl_entries env l = esc @ esa @ []" "sg_mFirstIndex act = sl_start l + length esc"
      using ents start r by (auto simp: sl_rep_def)
    ultimately show ?thesis
      using rep put sl_rep_inv[OF put] sl_rep_abs[OF put] sl_rep_abs[OF r]
      by (intro exI[of _ ActiveRef] exI[of _ act] exI[of _ esc] exI[of _ esa] exI[of _ "[]"]) auto
  next
    case False
    have ch: "closed_chain env n (sl_mClosedSegments l) esc" and i: "n \<le> i" "i < n + length esc"
      using r False assms(2) by (auto simp: sl_rep_def)
    obtain cl1 f sg cl2 pre es1 post where A: "sl_mClosedSegments l = cl1 @ (f, sg) # cl2" "esc = pre @ es1 @ post"
        "closed_chain env n cl1 pre" "f = n + length pre" "sg_mFirstIndex sg = f" "\<not> sg_mIsActive sg" "seg_rep env sg es1"
        "closed_chain env (f + length es1) cl2 post" "f \<le> i" "i < f + length es1"
      using closed_chain_at[OF ch i] by blast
    have sorted: "om_ok (cl1 @ (f, sg) # cl2)" using closed_chain_sorted[OF ch] A(1) by simp
    have "\<forall>p \<in> set cl2. i < fst p" using closed_chain_keys[OF A(8)] A(10) by auto
    then have get: "getSegment i l = Inr (Some (ClosedRef f, sg))"
      using takeWhile_keys[OF sorted A(9)] ne assms(2,3) False r A(1) by (auto simp: getSegment_def sl_rep_def)
    have put: "sl_rep env (put_segment (ClosedRef f) sg' l) n esc esa act" if "same_files env sg sg'" for sg'
      using r closed_chain_put[OF ch A(1) that] same_files_simps[OF that] om_upd_mid[OF sorted] A(1)
      by (cases cl1) (auto simp: sl_rep_def)
    have "isWithInBoundary i sg" using A(5,7,9,10) by (auto simp: seg_rep_boundary[OF A(7)] seg_rep_def)
    moreover have "sl_entries env l = pre @ es1 @ post @ esa" "sg_mFirstIndex sg = sl_start l + length pre"
      using ents A(2,4,5) start by auto
    ultimately show ?thesis
      using get A(7) put sl_rep_inv[OF put] sl_rep_abs[OF put] sl_rep_abs[OF r]
      by (intro exI[of _ "ClosedRef f"] exI[of _ sg] exI[of _ pre] exI[of _ es1] exI[of _ "post @ esa"]) auto
  qed
qed

text \<open>The position of an index in its segment is its position in the abstract log.\<close>

lemma sl_abs_drop:
  assumes "sl_inv env l" and "sl_mFirstIndex l \<le> i" and "sl_entries env l = pre @ es @ post"
    and "f = sl_start l + length pre" and "f \<le> i" and "i < f + length es"
  shows "drop (i - sl_mFirstIndex l) (al_entries (sl_abs env l)) = drop (i - f) es @ post"
    and "al_at (sl_abs env l) i = es ! (i - f)"
proof -
  have n: "sl_start l \<le> sl_mFirstIndex l" using sl_inv_start[OF assms(1)] .
  have e: "i - sl_mFirstIndex l + (sl_mFirstIndex l - sl_start l) = length pre + (i - f)"
    using n assms(2,4,5) by simp
  have d: "drop (i - sl_mFirstIndex l) (al_entries (sl_abs env l)) = drop (length pre + (i - f)) (pre @ es @ post)"
    unfolding sl_abs_def alog.select_convs drop_drop e assms(3) ..
  then show "drop (i - sl_mFirstIndex l) (al_entries (sl_abs env l)) = drop (i - f) es @ post"
    using assms(5,6) by simp
  then show "al_at (sl_abs env l) i = es ! (i - f)"
    using assms(5,6) unfolding al_at_def
    by (metis (no_types, lifting) add_diff_inverse_nat alog.select_convs(1) hd_append2 hd_drop_conv_nth drop_eq_Nil
        less_diff_conv2 linorder_not_less nat_add_left_cancel_less sl_abs_def append_is_Nil_conv)
qed

section \<open>Reading\<close>

theorem sl_getEntry_ok:
  assumes "sl_inv env l" and "sl_mFirstIndex l \<le> i" and "i \<le> sl_mLastIndex l"
  shows "\<exists>l'. sl_getEntry env i l = Inr (l', Some (al_at (sl_abs env l) i)) \<and> sl_inv env l' \<and> sl_abs env l' = sl_abs env l"
proof -
  obtain r sg pre es post where g: "getSegment i l = Inr (Some (r, sg))" "sl_entries env l = pre @ es @ post"
      "sg_mFirstIndex sg = sl_start l + length pre" "seg_rep env sg es" "isWithInBoundary i sg"
      "\<forall>sg'. same_files env sg sg' \<longrightarrow> sl_inv env (put_segment r sg' l) \<and> sl_abs env (put_segment r sg' l) = sl_abs env l"
    using getSegment_inside[OF assms] by blast
  have b: "sg_mFirstIndex sg \<le> i" "i < sg_mFirstIndex sg + length es"
    using g(4,5) by (auto simp: seg_rep_boundary[OF g(4)] seg_rep_def)
  obtain sg' where "sg_getEntry env i sg = Inr (sg', Some (es ! (i - sg_mFirstIndex sg)))" "same_files env sg sg'"
    using sg_getEntry_ok[OF g(4,5)] by blast
  then show ?thesis
    using g(1,6) sl_abs_drop(2)[OF assms(1,2) g(2,3) b] by (simp add: sl_getEntry_def)
qed

theorem sl_getTerm_ok:
  assumes "sl_inv env l" and "sl_mFirstIndex l \<le> i"
  shows "sl_getTerm i l = Inr (if i \<le> sl_mLastIndex l then Some (le_term (al_at (sl_abs env l) i)) else None)"
proof (cases "i \<le> sl_mLastIndex l")
  case True
  obtain r sg pre es post where g: "getSegment i l = Inr (Some (r, sg))" "sl_entries env l = pre @ es @ post"
      "sg_mFirstIndex sg = sl_start l + length pre" "seg_rep env sg es" "isWithInBoundary i sg"
    using getSegment_inside[OF assms(1,2) True] by blast
  have b: "sg_mFirstIndex sg \<le> i" "i < sg_mFirstIndex sg + length es"
    using g(4,5) by (auto simp: seg_rep_boundary[OF g(4)] seg_rep_def)
  have "i \<noteq> sub64 (sl_mFirstIndex l) 1" using assms by (auto simp: sl_inv_def sl_rep_def)
  then show ?thesis
    using g(1,5) True sl_abs_drop(2)[OF assms(1,2) g(2,3) b] sg_getTerm_ok[OF g(4)] by (simp add: sl_getTerm_def)
next
  case False
  have "i \<noteq> sub64 (sl_mFirstIndex l) 1" using assms by (auto simp: sl_inv_def sl_rep_def)
  then show ?thesis using False by (simp add: sl_getTerm_def getSegment_outside)
qed

lemma sl_getTerm_before: "sl_inv env l \<Longrightarrow> sl_getTerm (sl_mFirstIndex l - 1) l = Inr (Some 0)"
  by (auto simp: sl_getTerm_def sl_inv_def sl_rep_def)

text \<open>
  A batch read returns the longest run that fits the size, the count and the segment that
  holds the first index: it does not cross into the next segment.
\<close>

theorem sl_getEntries_ok:
  assumes "sl_inv env l" and "sl_mFirstIndex l \<le> i" and "i \<le> sl_mLastIndex l"
  shows "\<exists>l' k es. sl_getEntries env i maxLen maxBatch l = Inr (l', length es, es) \<and> sl_inv env l' \<and> sl_abs env l' = sl_abs env l \<and>
    1 \<le> k \<and> es = take_fit (se_byteSize env) maxLen (take (min k maxBatch) (drop (i - sl_mFirstIndex l) (al_entries (sl_abs env l))))"
proof -
  obtain r sg pre es post where g: "getSegment i l = Inr (Some (r, sg))" "sl_entries env l = pre @ es @ post"
      "sg_mFirstIndex sg = sl_start l + length pre" "seg_rep env sg es" "isWithInBoundary i sg"
      "\<forall>sg'. same_files env sg sg' \<longrightarrow> sl_inv env (put_segment r sg' l) \<and> sl_abs env (put_segment r sg' l) = sl_abs env l"
    using getSegment_inside[OF assms] by blast
  have b: "sg_mFirstIndex sg \<le> i" "i < sg_mFirstIndex sg + length es"
    using g(4,5) by (auto simp: seg_rep_boundary[OF g(4)] seg_rep_def)
  let ?k = "length es - (i - sg_mFirstIndex sg)"
  have "take (min ?k maxBatch) (drop (i - sl_mFirstIndex l) (al_entries (sl_abs env l))) = take maxBatch (drop (i - sg_mFirstIndex sg) es)"
    unfolding sl_abs_drop(1)[OF assms(1,2) g(2,3) b] by (simp add: min_def)
  moreover obtain sg' where "sg_getEntries env i maxLen maxBatch sg = Inr (sg',
      length (take_fit (se_byteSize env) maxLen (take maxBatch (drop (i - sg_mFirstIndex sg) es))),
      take_fit (se_byteSize env) maxLen (take maxBatch (drop (i - sg_mFirstIndex sg) es)))" "same_files env sg sg'"
    using sg_getEntries_ok[OF g(4,5) refl] by blast
  moreover have "1 \<le> ?k" using b by simp
  ultimately show ?thesis
    using g(1,6) assms(3) by (intro exI[of _ "put_segment r sg' l"] exI[of _ ?k]) (auto simp: sl_getEntries_def)
qed

lemma take_fit_take_eq: "es = take_fit bs m (take k xs) \<Longrightarrow> length es \<le> k \<and> es = take (length es) xs"
  using take_fit_length[of bs m "take k xs"] take_fit_eq_take[of bs m "take k xs"]
  by (auto simp: min_def split: if_splits)

lemma sl_getEntries_frame:
  assumes "sl_inv env l" and "sl_getEntries env i maxLen maxBatch l = Inr (l', n, es)"
  shows "sl_inv env l' \<and> sl_abs env l' = sl_abs env l"
proof (cases "sl_mFirstIndex l \<le> i \<and> i \<le> sl_mLastIndex l")
  case True
  then show ?thesis using sl_getEntries_ok[OF assms(1), of i maxLen maxBatch] assms(2) by auto
next
  case False
  then show ?thesis using assms by (auto simp: sl_getEntries_def getSegment_outside split: if_splits)
qed

section \<open>The parts of the state the representation does not depend on\<close>

definition sl_same :: "segment_log \<Rightarrow> segment_log \<Rightarrow> bool" where
  "sl_same l l' \<longleftrightarrow>
     l'\<lparr>sl_currentTermFile := None, sl_voteForFile := None, sl_firstIndexFile := None, sl_others := [], sl_drops := 0\<rparr> =
     l\<lparr>sl_currentTermFile := None, sl_voteForFile := None, sl_firstIndexFile := None, sl_others := [], sl_drops := 0\<rparr>"

lemma sl_same_trans: "sl_same a b \<Longrightarrow> sl_same b c \<Longrightarrow> sl_same a c"
  by (simp add: sl_same_def)

lemma sl_same_files [simp]:
  "sl_same l (claim_files sg l)" "sl_same l (release_files sg l)" "sl_same l (dropSegment env sg l)"
  "sl_same l (persistCurrentTerm t l)" "sl_same l (persistVoteFor t l)" "sl_same l (persistFirstIndex t l)"
  by (simp_all add: sl_same_def claim_files_def release_files_def dropSegment_def Let_def
      persistCurrentTerm_def persistVoteFor_def persistFirstIndex_def)

lemma sl_same_fold: "(\<And>x l. sl_same l (f x l)) \<Longrightarrow> sl_same l (fold f xs l)"
  by (induction xs arbitrary: l) (auto simp: sl_same_def)

lemma sl_same_simps:
  assumes "sl_same l l'"
  shows "sl_mClosedSegments l' = sl_mClosedSegments l" "sl_mActiveSegment l' = sl_mActiveSegment l"
    "sl_mFirstIndex l' = sl_mFirstIndex l" "sl_mLastIndex l' = sl_mLastIndex l" "sl_mCurrentTerm l' = sl_mCurrentTerm l"
    "sl_mVoteFor l' = sl_mVoteFor l" "sl_mSegmentDataSizeLimit l' = sl_mSegmentDataSizeLimit l"
    "sl_mSegmentMetaSizeLimit l' = sl_mSegmentMetaSizeLimit l"
  using assms by (cases l, cases l', simp add: sl_same_def)+

lemmas sl_frame = sl_same_simps[OF sl_same_files(1)] sl_same_simps[OF sl_same_files(2)] sl_same_simps[OF sl_same_files(3)]
  sl_same_simps[OF sl_same_files(4)] sl_same_simps[OF sl_same_files(5)] sl_same_simps[OF sl_same_files(6)]

lemma sl_same_upd:
  assumes "sl_same l l'"
  shows "sl_same (l\<lparr>sl_mClosedSegments := x\<rparr>) (l'\<lparr>sl_mClosedSegments := x\<rparr>)"
    and "sl_same (l\<lparr>sl_mFirstIndex := n\<rparr>) (l'\<lparr>sl_mFirstIndex := n\<rparr>)"
  using assms by (cases l, cases l', simp add: sl_same_def)+

lemma sl_same_tp_closed:
  "sl_same (l\<lparr>sl_mFirstIndex := k, sl_mClosedSegments := dropWhile (\<lambda>p. sg_mLastIndex (snd p) < k) (sl_mClosedSegments l)\<rparr>)
     (tp_closed k ((persistFirstIndex k l)\<lparr>sl_mFirstIndex := k\<rparr>))"
proof -
  let ?l = "(persistFirstIndex k l)\<lparr>sl_mFirstIndex := k\<rparr>"
  have "sl_same (l\<lparr>sl_mFirstIndex := k\<rparr>) ?l" by (rule sl_same_upd(2)) simp
  then have "sl_same (l\<lparr>sl_mFirstIndex := k\<rparr>) (fold (\<lambda>p. release_files (snd p)) xs ?l)" for xs :: "(nat \<times> segment) list"
    by (rule sl_same_trans[OF _ sl_same_fold]) simp
  from sl_same_upd(1)[OF this] show ?thesis
    by (simp add: tp_closed_def sl_frame Let_def)
qed

text \<open>A new active segment after the last index extends the chain with nothing.\<close>

lemma sl_newActive_Inr:
  assumes "sl_newActive env l = Inr l'" and "env_ok env"
  shows "\<exists>act. sl_same (l\<lparr>sl_mActiveSegment := Some act\<rparr>) l' \<and> seg_rep env act [] \<and> sg_mFirstIndex act = sl_mLastIndex l + 1 \<and>
    sg_mIsActive act \<and> sg_mDataSizeLimit act = sl_mSegmentDataSizeLimit l \<and> sg_mMetaSizeLimit act = sl_mSegmentMetaSizeLimit l \<and>
    limits_ok env (sl_mSegmentDataSizeLimit l') (sl_mSegmentMetaSizeLimit l')"
proof -
  obtain act where a: "createActiveSegment env (sl_mLastIndex l + 1) (sl_mSegmentDataSizeLimit l) (sl_mSegmentMetaSizeLimit l) = Inr act"
      "l' = claim_files act (l\<lparr>sl_mActiveSegment := Some act\<rparr>)"
    using assms(1) by (auto simp: sl_newActive_def)
  then have "limits_ok env (sl_mSegmentDataSizeLimit l') (sl_mSegmentMetaSizeLimit l')"
    unfolding limits_ok_def sl_frame by (auto simp: sl_frame createActiveSegment_def setFileSize_Inr)
  then show ?thesis using a createActiveSegment_ok[OF assms(2) _ a(1)] by (intro exI[of _ act]) simp
qed

lemma sl_newActive_ok:
  assumes "sl_newActive env l = Inr l'" and "env_ok env"
    and "closed_chain env n (sl_mClosedSegments l) es" and "sl_mLastIndex l + 1 = n + length es" and "1 \<le> n"
    and "n \<le> sl_mFirstIndex l" and "sl_mFirstIndex l \<le> sl_mLastIndex l + 1"
    and "sl_mClosedSegments l \<noteq> [] \<longrightarrow> sl_mFirstIndex l \<le> sg_mLastIndex (snd (hd (sl_mClosedSegments l)))"
  shows "\<exists>act. sl_rep env l' n es [] act" and "sl_mFirstIndex l' = sl_mFirstIndex l" "sl_mLastIndex l' = sl_mLastIndex l"
    "sl_mCurrentTerm l' = sl_mCurrentTerm l" "sl_mVoteFor l' = sl_mVoteFor l"
proof -
  obtain act where a: "sl_same (l\<lparr>sl_mActiveSegment := Some act\<rparr>) l'" "seg_rep env act []" "sg_mFirstIndex act = sl_mLastIndex l + 1"
      "sg_mIsActive act" "sg_mDataSizeLimit act = sl_mSegmentDataSizeLimit l" "sg_mMetaSizeLimit act = sl_mSegmentMetaSizeLimit l"
      "limits_ok env (sl_mSegmentDataSizeLimit l') (sl_mSegmentMetaSizeLimit l')"
    using sl_newActive_Inr[OF assms(1,2)] by blast
  then have "sl_rep env l' n es [] act"
    using assms(3-8) unfolding sl_rep_def sl_same_simps[OF a(1)] by simp
  then show "\<exists>act. sl_rep env l' n es [] act" ..
  show "sl_mFirstIndex l' = sl_mFirstIndex l" "sl_mLastIndex l' = sl_mLastIndex l"
    "sl_mCurrentTerm l' = sl_mCurrentTerm l" "sl_mVoteFor l' = sl_mVoteFor l"
    using sl_same_simps[OF a(1)] by simp_all
qed

lemma sl_newActive_total:
  assumes "limits_ok env (sl_mSegmentDataSizeLimit l) (sl_mSegmentMetaSizeLimit l)"
  shows "\<exists>l'. sl_newActive env l = Inr l'"
  using assms createActiveSegment_total[of "sl_mSegmentDataSizeLimit l" "sl_mSegmentMetaSizeLimit l" env "sl_mLastIndex l + 1"]
  by (auto simp: sl_newActive_def limits_ok_def)

section \<open>Appending\<close>

lemma sl_rep_env: "sl_rep env l n esc esa act \<Longrightarrow> env_ok env"
  by (simp add: sl_rep_def seg_rep_def)

lemma sl_append_active:
  assumes "sl_rep env l n esc esa act" and "sg_appendEntries env es act = Inr act'"
  shows "sl_rep env (l\<lparr>sl_mActiveSegment := Some act', sl_mLastIndex := sl_mLastIndex l + length es\<rparr>) n esc (esa @ es) act'"
    and "es \<noteq> []" and "consec (sl_mLastIndex l + 1) es"
proof -
  have rep: "seg_rep env act esa" using assms(1) by (simp add: sl_rep_def)
  have last: "sl_mLastIndex l = sg_mLastIndex act" using assms(1) by (auto simp: sl_rep_def seg_rep_def)
  note A = sg_appendEntries_ok[OF rep assms(2)]
  show "es \<noteq> []" "consec (sl_mLastIndex l + 1) es" using A last by simp_all
  show "sl_rep env (l\<lparr>sl_mActiveSegment := Some act', sl_mLastIndex := sl_mLastIndex l + length es\<rparr>) n esc (esa @ es) act'"
    using A assms(1) Suc_leI[of 0 "length es"] by (auto simp: sl_rep_def)
qed

lemma om_upd_after: "\<forall>p \<in> set m. fst p < k \<Longrightarrow> om_upd k v m = m @ [(k, v)]"
  by (induction m) auto

text \<open>Rolling moves the entries of a non-empty active segment to the chain.\<close>

lemma rollActiveSegment_ok:
  assumes "sl_rep env l n esc esa act" and "esa \<noteq> []" and "rollActiveSegment env l = Inr l'"
  shows "\<exists>act'. sl_rep env l' n (esc @ esa) [] act'"
    and "sl_mFirstIndex l' = sl_mFirstIndex l" "sl_mLastIndex l' = sl_mLastIndex l"
    "sl_mCurrentTerm l' = sl_mCurrentTerm l" "sl_mVoteFor l' = sl_mVoteFor l"
proof -
  have r: "closed_chain env n (sl_mClosedSegments l) esc" "sl_mActiveSegment l = Some act" "seg_rep env act esa"
      "sg_mFirstIndex act = n + length esc"
    using assms(1) by (auto simp: sl_rep_def)
  obtain act' where c: "sg_closeActiveSegment act = Inr act'" and n: "sl_newActive env (claim_files act'
      (l\<lparr>sl_mClosedSegments := om_upd (sg_mFirstIndex act') act' (sl_mClosedSegments l), sl_mActiveSegment := None\<rparr>)) = Inr l'"
    using assms(3) r(2) by (auto simp: rollActiveSegment_def)
  have a: "seg_rep env act' esa" "\<not> sg_mIsActive act'" "sg_mFirstIndex act' = n + length esc" "sg_mLastIndex act' = sg_mLastIndex act"
    using sg_closeActiveSegment_ok[OF r(3) c] r(4) by auto
  have upd: "om_upd (sg_mFirstIndex act') act' (sl_mClosedSegments l) = sl_mClosedSegments l @ [(n + length esc, act')]"
    using closed_chain_keys[OF r(1)] a(3) by (subst om_upd_after) fastforce+
  have chain: "closed_chain env n (sl_mClosedSegments l @ [(n + length esc, act')]) (esc @ esa)"
    using closed_chain_mid[OF r(1) a(3,2,1) assms(2), of "[]" "[]"] by simp
  define m where "m = claim_files act'
      (l\<lparr>sl_mClosedSegments := om_upd (sg_mFirstIndex act') act' (sl_mClosedSegments l), sl_mActiveSegment := None\<rparr>)"
  have m: "sl_mClosedSegments m = sl_mClosedSegments l @ [(n + length esc, act')]" "sl_mFirstIndex m = sl_mFirstIndex l"
      "sl_mLastIndex m = sl_mLastIndex l" "sl_mCurrentTerm m = sl_mCurrentTerm l" "sl_mVoteFor m = sl_mVoteFor l"
    unfolding m_def sl_frame by (simp_all add: upd)
  have "sl_mFirstIndex l \<le> sl_mLastIndex l" using assms(1,2) by (simp add: sl_rep_def)
  then have hd: "sl_mFirstIndex l \<le> sg_mLastIndex (snd (hd (sl_mClosedSegments m)))"
    using assms(1) a(4) m(1) by (cases "sl_mClosedSegments l") (auto simp: sl_rep_def seg_rep_def)
  have le: "sl_mLastIndex m + 1 = n + length (esc @ esa)" "1 \<le> n" "n \<le> sl_mFirstIndex m" "sl_mFirstIndex m \<le> sl_mLastIndex m + 1"
    using assms(1) m by (auto simp: sl_rep_def)
  note N = sl_newActive_ok[OF n[folded m_def] sl_rep_env[OF assms(1)] chain[folded m(1)] le, of]
  show "\<exists>act'. sl_rep env l' n (esc @ esa) [] act'"
    and "sl_mFirstIndex l' = sl_mFirstIndex l" "sl_mLastIndex l' = sl_mLastIndex l"
    "sl_mCurrentTerm l' = sl_mCurrentTerm l" "sl_mVoteFor l' = sl_mVoteFor l"
    using N hd m by simp_all
qed

text \<open>
  An empty active segment is never rolled by an append that returns: a fresh segment has no
  more room, and writing past its end is out of bounds.
\<close>

lemma seg_rep_fits:
  assumes "seg_rep env sg es"
  shows "size_of env es \<le> sg_mDataSizeLimit sg" and "length es * sizeof_LogMeta \<le> sg_mMetaSizeLimit sg"
proof -
  have "env_ok env" "prefix (bytes_of env es) (sg_mData sg)" using assms by (auto simp: seg_rep_def files_ok_def)
  then show "size_of env es \<le> sg_mDataSizeLimit sg"
    using length_bytes_of[of env es] prefix_length_le assms by (fastforce simp: seg_rep_def)
  obtain ms n where "sg_mMeta sg = ms @ replicate n zero_meta" "length ms = length es"
    using assms by (rule seg_rep_meta)
  then show "length es * sizeof_LogMeta \<le> sg_mMetaSizeLimit sg" using assms by (simp add: seg_rep_def)
qed

lemma roll_nonempty:
  assumes "seg_rep env act esa" and "shouldRoll env es act = Inr True" and "seg_rep env act' es"
    and "sg_mDataSizeLimit act' \<le> sg_mDataSizeLimit act" and "sg_mMetaSizeLimit act' \<le> sg_mMetaSizeLimit act"
  shows "esa \<noteq> []"
  using assms(1,2,4,5) seg_rep_fits[OF assms(3)]
  by (auto simp: shouldRoll_def Let_def seg_rep_def sizeof_LogMeta_def)

lemma rollActiveSegment_limits:
  assumes "rollActiveSegment env l = Inr l'" and "env_ok env"
  shows "\<exists>act'. sl_mActiveSegment l' = Some act' \<and> seg_rep env act' [] \<and>
    sg_mDataSizeLimit act' = sl_mSegmentDataSizeLimit l \<and> sg_mMetaSizeLimit act' = sl_mSegmentMetaSizeLimit l"
proof -
  obtain m where m: "sl_newActive env m = Inr l'" "sl_mSegmentDataSizeLimit m = sl_mSegmentDataSizeLimit l"
      "sl_mSegmentMetaSizeLimit m = sl_mSegmentMetaSizeLimit l"
    using assms(1) unfolding rollActiveSegment_def by (elim resE) (auto intro!: that simp: sl_frame)
  then show ?thesis
    using sl_newActive_Inr[OF m(1) assms(2)] sl_same_simps(2) by fastforce
qed

theorem sl_append_ok:
  assumes "sl_inv env l" and "sl_append env es l = Inr l'"
  shows "sl_inv env l' \<and> sl_abs env l' = al_append es (sl_abs env l) \<and> es \<noteq> [] \<and> consec (sl_mLastIndex l + 1) es"
proof -
  obtain n esc esa act where r: "sl_rep env l n esc esa act" using assms by (auto simp: sl_inv_def)
  have act: "sl_mActiveSegment l = Some act" "seg_rep env act esa" using r by (auto simp: sl_rep_def)
  obtain roll m act1 act2 where d: "shouldRoll env es act = Inr roll" "(if roll then rollActiveSegment env l else Inr l) = Inr m"
      "sl_mActiveSegment m = Some act1" "sg_appendEntries env es act1 = Inr act2"
      "l' = m\<lparr>sl_mActiveSegment := Some act2, sl_mLastIndex := sl_mLastIndex m + length es\<rparr>"
    using assms(2) act(1) unfolding sl_append_def by (elim resE) auto
  have "\<exists>esc' esa'. sl_rep env m n esc' esa' act1 \<and> esc' @ esa' = esc @ esa \<and> sl_mFirstIndex m = sl_mFirstIndex l \<and>
      sl_mLastIndex m = sl_mLastIndex l \<and> sl_mCurrentTerm m = sl_mCurrentTerm l \<and> sl_mVoteFor m = sl_mVoteFor l"
  proof (cases roll)
    case True
    then have roll: "rollActiveSegment env l = Inr m" using d(2) by simp
    have a1: "seg_rep env act1 []" "sg_mDataSizeLimit act1 \<le> sg_mDataSizeLimit act" "sg_mMetaSizeLimit act1 \<le> sg_mMetaSizeLimit act"
      using rollActiveSegment_limits[OF roll sl_rep_env[OF r]] d(3) r by (auto simp: sl_rep_def)
    have "esa \<noteq> []"
      using roll_nonempty[OF act(2), of es act2] True d(1) sg_appendEntries_ok[OF a1(1) d(4)] a1(2,3) by simp
    then show ?thesis
      using rollActiveSegment_ok[OF r _ roll] d(3) by (fastforce simp: sl_rep_def)
  next
    case False
    then show ?thesis using r d(2,3) by (auto simp: sl_rep_def)
  qed
  then obtain esc' esa' where m: "sl_rep env m n esc' esa' act1" "esc' @ esa' = esc @ esa" "sl_mFirstIndex m = sl_mFirstIndex l"
      "sl_mLastIndex m = sl_mLastIndex l" "sl_mCurrentTerm m = sl_mCurrentTerm l" "sl_mVoteFor m = sl_mVoteFor l"
    by blast
  note A = sl_append_active[OF m(1) d(4), folded d(5)]
  have f: "sl_mFirstIndex l' = sl_mFirstIndex l" "sl_mCurrentTerm l' = sl_mCurrentTerm l" "sl_mVoteFor l' = sl_mVoteFor l"
    by (simp_all add: d(5) m(3-6))
  have "sl_mFirstIndex l - n \<le> length (esc @ esa)" using r by (auto simp: sl_rep_def)
  then have "drop (sl_mFirstIndex l - n) ((esc @ esa) @ es) = drop (sl_mFirstIndex l - n) (esc @ esa) @ es"
    by (simp only: drop_append diff_is_0_eq[THEN iffD2] drop0)
  then have "sl_abs env l' = al_append es (sl_abs env l)"
    unfolding sl_rep_abs[OF r] sl_rep_abs[OF A(1)] f al_append_def
    by (simp only: append_assoc[symmetric] m(2) alog.simps)
  then show ?thesis using sl_rep_inv[OF A(1)] A(2,3) m(4) by simp
qed

lemma sl_append_total:
  assumes "sl_inv env l" and "es \<noteq> []" and "consec (sl_mLastIndex l + 1) es" and "versions_ok env es"
    and "size_of env es \<le> sl_mSegmentDataSizeLimit l" and "length es * sizeof_LogMeta \<le> sl_mSegmentMetaSizeLimit l"
  shows "\<exists>l'. sl_append env es l = Inr l'"
proof -
  obtain n esc esa act where r: "sl_rep env l n esc esa act" using assms by (auto simp: sl_inv_def)
  have act: "sl_mActiveSegment l = Some act" "seg_rep env act esa" "sg_mIsActive act" "sg_mLastIndex act = sl_mLastIndex l"
    using r by (auto simp: sl_rep_def seg_rep_def)
  obtain roll where roll: "shouldRoll env es act = Inr roll" using act(3) by (simp add: shouldRoll_def Let_def)
  show ?thesis
  proof (cases roll)
    case False
    then obtain act' where "sg_appendEntries env es act = Inr act'"
      using sg_appendEntries_total[OF act(2,3) assms(2) _ assms(4)] assms(3) act(4) roll by auto
    then show ?thesis using act(1) roll False by (simp add: sl_append_def)
  next
    case True
    obtain act0 where c: "sg_closeActiveSegment act = Inr act0" using act(3) by (simp add: sg_closeActiveSegment_def)
    define m where "m = claim_files act0
      (l\<lparr>sl_mClosedSegments := om_upd (sg_mFirstIndex act0) act0 (sl_mClosedSegments l), sl_mActiveSegment := None\<rparr>)"
    have mf: "sl_mSegmentDataSizeLimit m = sl_mSegmentDataSizeLimit l" "sl_mSegmentMetaSizeLimit m = sl_mSegmentMetaSizeLimit l"
        "sl_mLastIndex m = sl_mLastIndex l"
      unfolding m_def sl_frame by simp_all
    obtain m' where m': "sl_newActive env m = Inr m'"
      using sl_newActive_total[of env m] r mf by (auto simp: sl_rep_def)
    obtain act1 where a: "sl_same (m\<lparr>sl_mActiveSegment := Some act1\<rparr>) m'" "seg_rep env act1 []"
        "sg_mFirstIndex act1 = sl_mLastIndex m + 1" "sg_mIsActive act1"
        "sg_mDataSizeLimit act1 = sl_mSegmentDataSizeLimit m" "sg_mMetaSizeLimit act1 = sl_mSegmentMetaSizeLimit m"
      using sl_newActive_Inr[OF m' sl_rep_env[OF r]] by blast
    have "shouldRoll env es act1 = Inr False"
      using a(2,4-6) mf assms(5,6) by (simp add: shouldRoll_def Let_def seg_rep_def not_less sizeof_LogMeta_def)
    moreover have "sg_mLastIndex act1 = sl_mLastIndex l" using a(2,3) mf(3) by (simp add: seg_rep_def)
    ultimately obtain act2 where "sg_appendEntries env es act1 = Inr act2"
      using sg_appendEntries_total[OF a(2,4) assms(2) _ assms(4)] assms(3) by auto
    moreover have "rollActiveSegment env l = Inr m'" using act(1) c m' by (simp add: rollActiveSegment_def m_def)
    ultimately show ?thesis
      using act(1) roll True sl_same_simps(2)[OF a(1)] by (simp add: sl_append_def)
  qed
qed

section \<open>Truncating\<close>

lemma drop_chain:
  assumes "n \<le> f" and "f \<le> k" and "n + length xs \<le> k"
  shows "drop (k - f) (drop (f - n) (xs @ ys)) = drop (k - (n + length xs)) ys"
proof -
  have "k - f + (f - n) = length xs + (k - (n + length xs))" using assms by simp
  then show ?thesis unfolding drop_drop by simp
qed

lemma chain_dropWhile:
  assumes "closed_chain env n cl es" and "n \<le> k"
  shows "\<exists>es1 es2. es = es1 @ es2 \<and> n + length es1 \<le> k \<and>
    closed_chain env (n + length es1) (dropWhile (\<lambda>p. sg_mLastIndex (snd p) < k) cl) es2"
proof -
  let ?gone = "\<lambda>p. sg_mLastIndex (snd p) < k"
  obtain es1 es2 where e: "es = es1 @ es2" "closed_chain env n (takeWhile ?gone cl) es1"
      "closed_chain env (n + length es1) (dropWhile ?gone cl) es2"
    using assms(1) closed_chain_append[of env n "takeWhile ?gone cl" "dropWhile ?gone cl" es] by auto
  have "n + length es1 \<le> k"
  proof (cases "takeWhile ?gone cl = []")
    case False
    then have "sg_mLastIndex (snd (last (takeWhile ?gone cl))) < k"
      by (metis last_in_set set_takeWhileD)
    then show ?thesis using closed_chain_last[OF e(2) False] by simp
  qed (use e(2) assms(2) in simp)
  with e show ?thesis by blast
qed

theorem sl_truncatePrefix_ok:
  assumes "sl_inv env l" and "sl_truncatePrefix env k l = Inr l'"
  shows "sl_inv env l' \<and> sl_abs env l' = al_truncatePrefix k (sl_abs env l)"
proof (cases "k \<le> sl_mFirstIndex l")
  case True
  then show ?thesis using assms by (simp add: sl_truncatePrefix_def al_truncatePrefix_def sl_abs_def)
next
  case False
  obtain n esc esa act where r: "sl_rep env l n esc esa act" using assms by (auto simp: sl_inv_def)
  have last: "al_last (sl_abs env l) = sl_mLastIndex l" using sl_inv_wf[OF assms(1)] by simp
  define cl where "cl = dropWhile (\<lambda>p. sg_mLastIndex (snd p) < k) (sl_mClosedSegments l)"
  define m where "m = tp_closed k ((persistFirstIndex k l)\<lparr>sl_mFirstIndex := k\<rparr>)"
  have m: "sl_mClosedSegments m = cl" "sl_mFirstIndex m = k" "sl_mLastIndex m = sl_mLastIndex l"
      "sl_mActiveSegment m = Some act" "sl_mCurrentTerm m = sl_mCurrentTerm l" "sl_mVoteFor m = sl_mVoteFor l"
      "sl_mSegmentDataSizeLimit m = sl_mSegmentDataSizeLimit l" "sl_mSegmentMetaSizeLimit m = sl_mSegmentMetaSizeLimit l"
    using sl_same_simps[OF sl_same_tp_closed[where l = l and k = k]] r by (simp_all add: sl_rep_def m_def cl_def)
  have l': "(if cl \<noteq> [] then Inr m else if sg_mLastIndex act < k
      then sl_newActive env (release_files act (m\<lparr>sl_mLastIndex := k - 1\<rparr>)) else Inr m) = Inr l'"
    using assms(2) False m unfolding sl_truncatePrefix_def m_def[symmetric] by (auto simp: Let_def split: if_splits)
  have nk: "n \<le> k" using r False by (simp add: sl_rep_def)
  obtain es1 es2 where e: "esc = es1 @ es2" "n + length es1 \<le> k" "closed_chain env (n + length es1) cl es2"
    using chain_dropWhile[of env n "sl_mClosedSegments l" esc k] r nk unfolding cl_def by (auto simp: sl_rep_def)
  have drop: "drop (k - sl_mFirstIndex l) (drop (sl_mFirstIndex l - n) (esc @ esa)) = drop (k - (n + length es1)) (es2 @ esa)"
    using drop_chain[of n "sl_mFirstIndex l" k es1 "es2 @ esa"] False r e(1,2) by (simp add: sl_rep_def del: drop_drop drop_append)
  show ?thesis
  proof (cases "k \<le> sl_mLastIndex l")
    case True
    have hd: "k \<le> sg_mLastIndex (snd (hd cl))" if "cl \<noteq> []"
      using hd_dropWhile[of "\<lambda>p. sg_mLastIndex (snd p) < k" "sl_mClosedSegments l"] that by (simp add: cl_def not_less)
    have "sg_mLastIndex act = sl_mLastIndex l" using r by (auto simp: sl_rep_def seg_rep_def)
    then have "l' = m" using l' True by (auto split: if_splits)
    moreover have "sl_rep env m (n + length es1) es2 esa act"
      using r m e True hd by (auto simp: sl_rep_def)
    ultimately show ?thesis
      using drop False True last m sl_rep_inv sl_rep_abs by (simp add: al_truncatePrefix_def sl_rep_abs[OF r])
  next
    case above: False
    have "cl = []"
    proof (rule ccontr)
      assume ne: "cl \<noteq> []"
      then have "hd cl \<in> set (sl_mClosedSegments l)" using set_dropWhileD hd_in_set unfolding cl_def by metis
      then have "sg_mLastIndex (snd (hd cl)) < k"
        using closed_chain_keys[of env n "sl_mClosedSegments l" esc] r above by (fastforce simp: sl_rep_def)
      then show False
        using hd_dropWhile[of "\<lambda>p. sg_mLastIndex (snd p) < k" "sl_mClosedSegments l"] ne by (simp add: cl_def)
    qed
    moreover have "sg_mLastIndex act < k" using r above by (auto simp: sl_rep_def seg_rep_def)
    ultimately have l'': "sl_newActive env (release_files act (m\<lparr>sl_mLastIndex := k - 1\<rparr>)) = Inr l'" and cl: "cl = []"
      using l' by auto
    have k: "1 \<le> k" using r nk by (simp add: sl_rep_def)
    note N = sl_newActive_ok[OF l'' sl_rep_env[OF r], of k "[]", unfolded sl_frame, simplified, unfolded m cl, simplified]
    obtain act' where "sl_rep env l' k [] [] act'" using N(1) k by auto
    then show ?thesis
      using N(2-) k False above last sl_rep_inv sl_rep_abs[of env l'] by (auto simp: al_truncatePrefix_def sl_abs_def)
  qed
qed

lemma sg_truncateSuffix_any:
  assumes "seg_rep env sg es" and "sg_mFirstIndex sg \<le> k" and "k \<le> sg_mLastIndex sg"
  shows "\<exists>sg'. sg_truncateSuffix k sg = Inr sg' \<and> seg_rep env sg' (take (k + 1 - sg_mFirstIndex sg) es) \<and>
    sg_mFirstIndex sg' = sg_mFirstIndex sg \<and> sg_mLastIndex sg' = k \<and> sg_mIsActive sg' = sg_mIsActive sg \<and>
    sg_mDataSizeLimit sg' = sg_mDataSizeLimit sg \<and> sg_mMetaSizeLimit sg' = sg_mMetaSizeLimit sg"
proof (cases "k = sg_mLastIndex sg")
  case True
  then have "take (k + 1 - sg_mFirstIndex sg) es = es" using seg_rep_last[OF assms(1)] by simp
  then show ?thesis using True assms(1) by (simp add: sg_truncateSuffix_noop)
next
  case False
  then show ?thesis using sg_truncateSuffix_ok[OF assms(1,2)] assms(3) by simp
qed

text \<open>What a suffix truncation must leave, and the two ways the code ends up there.\<close>

definition ts_result :: "storage_env \<Rightarrow> nat \<Rightarrow> segment_log \<Rightarrow> segment_log \<Rightarrow> bool" where
  "ts_result env k l l' \<longleftrightarrow> sl_inv env l' \<and> sl_abs env l' = al_truncateSuffix k (sl_abs env l) \<and>
     sl_start l \<le> sl_start l'"

lemma ts_resultI:
  assumes "sl_rep env l n esc esa act" and "sl_rep env l' n' esc' esa' act'"
    and "sl_mFirstIndex l \<le> k + 1" and "k < sl_mLastIndex l"
    and "sl_mFirstIndex l' = sl_mFirstIndex l" "sl_mCurrentTerm l' = sl_mCurrentTerm l" "sl_mVoteFor l' = sl_mVoteFor l"
    and "drop (sl_mFirstIndex l - n') (esc' @ esa') = drop (sl_mFirstIndex l - n) (take (k + 1 - n) (esc @ esa))"
    and "n \<le> n'"
  shows "ts_result env k l l'"
proof -
  have n: "n \<le> sl_mFirstIndex l" using assms(1) by (simp add: sl_rep_def)
  then have "drop (sl_mFirstIndex l - n) (take (k + 1 - n) (esc @ esa)) =
      take (k + 1 - sl_mFirstIndex l) (drop (sl_mFirstIndex l - n) (esc @ esa))"
    by (simp add: drop_take del: drop_append take_append)
  then have e: "drop (sl_mFirstIndex l - n') (esc' @ esa') = take (k + 1 - sl_mFirstIndex l) (drop (sl_mFirstIndex l - n) (esc @ esa))"
    using assms(8) by simp
  have "al_last (sl_abs env l) = sl_mLastIndex l" using sl_inv_wf[OF sl_rep_inv[OF assms(1)]] by simp
  then have "al_truncateSuffix k (sl_abs env l) =
      (sl_abs env l)\<lparr>al_entries := take (k + 1 - sl_mFirstIndex l) (al_entries (sl_abs env l))\<rparr>"
    using assms(3,4) by (auto simp: al_truncateSuffix_def sl_abs_def Suc_diff_le)
  then show ?thesis
    using e assms(5-7,9) sl_rep_inv[OF assms(2)] sl_rep_start[OF assms(1)] sl_rep_start[OF assms(2)]
    by (simp add: ts_result_def sl_rep_abs[OF assms(1)] sl_rep_abs[OF assms(2)] del: drop_append take_append)
qed

lemma ts_emptied:
  assumes "sl_rep env l n esc esa act" and "sl_mFirstIndex l = k + 1" and "k < sl_mLastIndex l"
    and "sl_newActive env m = Inr l'" and "sl_mClosedSegments m = []" and "sl_mFirstIndex m = k + 1" and "sl_mLastIndex m = k"
    and "sl_mCurrentTerm m = sl_mCurrentTerm l" "sl_mVoteFor m = sl_mVoteFor l"
  shows "ts_result env k l l'"
proof -
  note N = sl_newActive_ok[OF assms(4) sl_rep_env[OF assms(1)], of "k + 1" "[]", simplified, unfolded assms(5-9), simplified]
  obtain act' where a: "sl_rep env l' (k + 1) [] [] act'" using N(1) by auto
  have n: "n \<le> k + 1" using assms(1,2) by (simp add: sl_rep_def)
  show ?thesis
    by (rule ts_resultI[OF assms(1) a]) (use N(2-) assms(2,3) n in simp_all)
qed

text \<open>Erasing the dropped segments by key leaves the chain below them.\<close>

lemma fold_om_erase:
  "fold (\<lambda>sg. om_erase (sg_mFirstIndex sg)) sgs cl = filter (\<lambda>p. fst p \<notin> sg_mFirstIndex ` set sgs) cl"
  by (induction sgs arbitrary: cl) (auto simp: om_erase_def intro: filter_cong)

lemma split_above:
  "\<exists>cl1 cl2. cl = cl1 @ cl2 \<and> takeWhile P (rev cl) = rev cl2 \<and> dropWhile P (rev cl) = rev cl1 \<and>
     (\<forall>p \<in> set cl2. P p) \<and> (cl1 \<noteq> [] \<longrightarrow> \<not> P (last cl1))"
proof (intro exI conjI)
  let ?cl1 = "rev (dropWhile P (rev cl))" and ?cl2 = "rev (takeWhile P (rev cl))"
  show "cl = ?cl1 @ ?cl2" by (metis rev_append rev_rev_ident takeWhile_dropWhile_id)
  show "\<forall>p \<in> set ?cl2. P p" by (auto dest: set_takeWhileD)
  show "?cl1 \<noteq> [] \<longrightarrow> \<not> P (last ?cl1)" by (auto simp: last_rev hd_dropWhile)
qed simp_all

lemma erase_above:
  assumes "closed_chain env n (cl1 @ cl2) es" and "sg_mFirstIndex act = n + length es"
  shows "fold (\<lambda>sg. om_erase (sg_mFirstIndex sg)) (act # map snd (rev cl2)) (cl1 @ cl2) = cl1"
proof -
  have keys: "fst p = sg_mFirstIndex (snd p) \<and> fst p < n + length es" if "p \<in> set (cl1 @ cl2)" for p
    using closed_chain_keys[OF assms(1)] that by force
  have "fst p \<noteq> fst q" if "p \<in> set cl1" "q \<in> set cl2" for p q
    using closed_chain_sorted[OF assms(1)] that by (fastforce simp: sorted_wrt_append)
  then have "\<forall>p \<in> set cl1. fst p \<notin> sg_mFirstIndex ` set (act # map snd (rev cl2))"
    using keys assms(2) by fastforce
  moreover have "\<forall>p \<in> set cl2. fst p \<in> sg_mFirstIndex ` set (act # map snd (rev cl2))"
    using keys by force
  ultimately show ?thesis unfolding fold_om_erase by (simp add: filter_id_conv[THEN iffD2] filter_empty_conv[THEN iffD2])
qed

text \<open>The cut falls into the active segment.\<close>

lemma sl_truncateSuffix_active:
  assumes "sl_rep env l n esc esa act" and "sl_mFirstIndex l \<le> k + 1" and "k < sl_mLastIndex l"
    and "sg_mFirstIndex act \<le> k" and "sl_truncateSuffix env k l = Inr l'"
  shows "ts_result env k l l'"
proof (cases "sl_mFirstIndex l \<le> k")
  case True
  have r: "sl_mActiveSegment l = Some act" "seg_rep env act esa" "sg_mLastIndex act = sl_mLastIndex l"
      "sg_mFirstIndex act = n + length esc"
    using assms(1) by (auto simp: sl_rep_def seg_rep_def)
  obtain act' where t: "sg_truncateSuffix k act = Inr act'" "seg_rep env act' (take (k + 1 - sg_mFirstIndex act) esa)"
      "sg_mFirstIndex act' = sg_mFirstIndex act" "sg_mLastIndex act' = k" "sg_mIsActive act' = sg_mIsActive act"
      "sg_mDataSizeLimit act' = sg_mDataSizeLimit act" "sg_mMetaSizeLimit act' = sg_mMetaSizeLimit act"
    using sg_truncateSuffix_any[OF r(2) assms(4)] r(3) assms(3) by auto
  have l': "l' = claim_files act' (l\<lparr>sl_mLastIndex := k, sl_mActiveSegment := Some act'\<rparr>)"
    using assms(3-5) r(1) True t(1)
    by (simp add: sl_truncateSuffix_def ts_choose_def ts_cut_def sl_frame Let_def)
  have rep: "sl_rep env l' n esc (take (k + 1 - sg_mFirstIndex act) esa) act'"
    using assms(1,3,4) t True r(3) unfolding sl_rep_def l' sl_frame by (auto simp: seg_rep_def)
  have "take (k + 1 - n) (esc @ esa) = esc @ take (k + 1 - sg_mFirstIndex act) esa"
    using r(4) assms(4) by simp
  then show ?thesis
    by (intro ts_resultI[OF assms(1) rep]) (use assms(2,3) in \<open>simp_all add: l' sl_frame del: take_append drop_append\<close>)
next
  case False
  then have f: "sl_mFirstIndex l = k + 1" using assms(2) by simp
  have act: "sl_mActiveSegment l = Some act" using assms(1) by (simp add: sl_rep_def)
  have closed: "sl_mClosedSegments l = []"
  proof (rule ccontr)
    assume ne: "sl_mClosedSegments l \<noteq> []"
    then have "sg_mLastIndex (snd (hd (sl_mClosedSegments l))) < n + length esc"
      using closed_chain_keys[of env n "sl_mClosedSegments l" esc] assms(1) by (auto simp: sl_rep_def)
    then show False using assms(1,4) f ne by (auto simp: sl_rep_def)
  qed
  have "sl_newActive env (dropSegment env act (l\<lparr>sl_mLastIndex := k, sl_mActiveSegment := None\<rparr>)) = Inr l'"
    using assms(3-5) act f by (simp add: sl_truncateSuffix_def ts_choose_def ts_cut_def sl_frame Let_def)
  then show ?thesis
    by (rule ts_emptied[OF assms(1) f assms(3)]) (simp_all add: sl_frame closed f)
qed

text \<open>The cut falls into a closed segment, or before all of them.\<close>

lemmas drop_frame = sl_same_simps[OF sl_same_fold[where f = "dropSegment env" for env, OF sl_same_files(3)]]

lemma ts_cut_closed:
  assumes "sl_rep env l n esc esa act" and "sl_mFirstIndex l \<le> k" and "k < sl_mLastIndex l" and "k < sg_mFirstIndex act"
    and "sl_mClosedSegments l = (cl0 @ [(f, sg)]) @ cl2" and "\<forall>p \<in> set cl2. k < sg_mFirstIndex (snd p)" and "f \<le> k"
    and "sg_truncateSuffix k sg = Inr sg'" and "sl_newActive env m = Inr l'" and "sl_mClosedSegments m = cl0 @ [(f, sg')]"
    and "sl_mFirstIndex m = sl_mFirstIndex l" and "sl_mLastIndex m = k"
    and "sl_mCurrentTerm m = sl_mCurrentTerm l" "sl_mVoteFor m = sl_mVoteFor l"
  shows "ts_result env k l l'"
proof -
  have r: "closed_chain env n (sl_mClosedSegments l) esc" "sg_mFirstIndex act = n + length esc" "n \<le> sl_mFirstIndex l" "1 \<le> n"
    using assms(1) by (auto simp: sl_rep_def)
  obtain pre es1 post where e: "esc = (pre @ es1) @ post" "closed_chain env n cl0 pre" "f = n + length pre" "sg_mFirstIndex sg = f"
      "\<not> sg_mIsActive sg" "seg_rep env sg es1" "es1 \<noteq> []" "closed_chain env (n + length (pre @ es1)) cl2 post"
    using r(1) unfolding assms(5) closed_chain_append by auto
  have last: "sg_mLastIndex sg + 1 = f + length es1" using e(4,6) by (simp add: seg_rep_def)
  have "k \<le> sg_mLastIndex sg"
  proof (cases cl2)
    case Nil
    then show ?thesis using e(1,3,8) r(2) assms(4) last by simp
  next
    case (Cons p cl')
    then show ?thesis
      using closed_chain_start[of env _ p cl' post] closed_chain_keys[OF e(8)] e(3,8) assms(6) last by auto
  qed
  then have t: "seg_rep env sg' (take (k + 1 - f) es1)" "sg_mFirstIndex sg' = f" "sg_mLastIndex sg' = k" "\<not> sg_mIsActive sg'"
    using sg_truncateSuffix_any[OF e(6), of k] assms(7,8) e(4,5) by auto
  have ne: "take (k + 1 - f) es1 \<noteq> []" using e(7) assms(7) by simp
  have chain: "closed_chain env n (cl0 @ [(f, sg')]) (pre @ take (k + 1 - f) es1)"
    using closed_chain_mid[OF e(2) _ t(4,1) ne, of "[]" "[]"] t(2) e(3) by simp
  have len: "sl_mLastIndex m + 1 = n + length (pre @ take (k + 1 - f) es1)"
    using t(1-3) e(3) by (simp add: assms(12) seg_rep_def)
  have hd: "sl_mFirstIndex m \<le> sg_mLastIndex (snd (hd (sl_mClosedSegments m)))"
    using assms(1,2,5,10,11) t(3) by (cases cl0) (auto simp: sl_rep_def)
  note N = sl_newActive_ok[OF assms(9) sl_rep_env[OF assms(1)] chain[folded assms(10)] len r(4)]
  obtain act' where a: "sl_rep env l' n (pre @ take (k + 1 - f) es1) [] act'"
    using N(1) hd r(3) assms(2,11,12) by auto
  have "take (k + 1 - n) (esc @ esa) = pre @ take (k + 1 - f) es1"
    using last e(3) assms(7) \<open>k \<le> sg_mLastIndex sg\<close> by (simp add: e(1))
  then show ?thesis
    by (intro ts_resultI[OF assms(1) a])
      (use N(2-) hd r(3) assms(2,3,11-14) in \<open>simp_all del: take_append drop_append\<close>)
qed

lemma sl_truncateSuffix_closed:
  assumes "sl_rep env l n esc esa act" and "sl_mFirstIndex l \<le> k + 1" and "k < sl_mLastIndex l"
    and "k < sg_mFirstIndex act" and "sl_truncateSuffix env k l = Inr l'"
  shows "ts_result env k l l'"
proof -
  have r: "sl_mActiveSegment l = Some act" "closed_chain env n (sl_mClosedSegments l) esc" "sg_mFirstIndex act = n + length esc"
      "n \<le> sl_mFirstIndex l"
    using assms(1) by (auto simp: sl_rep_def)
  let ?above = "\<lambda>p. sg_mFirstIndex (snd p) > k"
  obtain cl1 cl2 where cl: "sl_mClosedSegments l = cl1 @ cl2" "takeWhile ?above (rev (sl_mClosedSegments l)) = rev cl2"
      "dropWhile ?above (rev (sl_mClosedSegments l)) = rev cl1" "\<forall>p \<in> set cl2. ?above p" "cl1 \<noteq> [] \<longrightarrow> \<not> ?above (last cl1)"
    using split_above[of "sl_mClosedSegments l" ?above] by blast
  have erase: "fold (\<lambda>sg. om_erase (sg_mFirstIndex sg)) (act # map snd (rev cl2)) (sl_mClosedSegments l) = cl1"
    using erase_above[of env n cl1 cl2 esc act] r(2,3) cl(1) by simp
  define dropped where "dropped = act # map snd (rev cl2)"
  define m where "m = l\<lparr>sl_mLastIndex := k, sl_mActiveSegment := None, sl_mClosedSegments := cl1,
      sl_mFirstIndex := (if cl1 = [] then k + 1 else sl_mFirstIndex l)\<rparr>"
  have choose: "ts_choose k (l\<lparr>sl_mLastIndex := k\<rparr>) = Inr (m, dropped,
      case rev cl1 of [] \<Rightarrow> None | (key, sg) # _ \<Rightarrow> Some (ClosedRef key, sg))"
    using r(1) assms(4) erase unfolding ts_choose_def m_def dropped_def by (simp add: Let_def cl(2,3))
  show ?thesis
  proof (cases cl1 rule: rev_cases)
    case Nil
    have "k < n"
    proof (cases cl2)
      case Nil' : Nil
      then show ?thesis using r(2,3) assms(4) cl(1) Nil by simp
    next
      case (Cons p cl')
      then show ?thesis using closed_chain_start[of env n p cl' esc] closed_chain_keys[OF r(2)] r(2) cl(1,4) Nil by auto
    qed
    then have f: "sl_mFirstIndex l = k + 1" using r(4) assms(2) by simp
    have "sl_newActive env (fold (dropSegment env) dropped m) = Inr l'"
      using assms(3,5) choose Nil by (simp add: sl_truncateSuffix_def ts_cut_def Let_def m_def drop_frame del: fold_simps)
    then show ?thesis
      by (rule ts_emptied[OF assms(1) f assms(3)])
        (simp_all add: drop_frame m_def Nil)
  next
    case (snoc cl0 p)
    obtain f sg where p: "p = (f, sg)" by fastforce
    have fsg: "f = sg_mFirstIndex sg" "f \<le> k" "om_ok (cl0 @ [(f, sg)])"
      using closed_chain_keys[OF r(2)] cl(1,5) closed_chain_sorted[OF r(2)] by (auto simp: snoc p sorted_wrt_append)
    show ?thesis
    proof (cases "sl_mFirstIndex l \<le> k")
      case True
      obtain sg' m' where t: "sg_truncateSuffix k sg = Inr sg'" "m' = claim_files sg' (m\<lparr>sl_mClosedSegments := om_upd f sg' cl1\<rparr>)"
          "sl_newActive env (fold (dropSegment env) dropped m') = Inr l'"
        using assms(3,5) choose snoc p True
        by (auto simp: sl_truncateSuffix_def ts_cut_def Let_def m_def drop_frame sl_frame simp del: fold_simps)
      show ?thesis
        by (rule ts_cut_closed[OF assms(1) True assms(3,4) _ cl(4) fsg(2) t(1,3)])
          (simp_all add: drop_frame t(2) sl_frame m_def cl(1) snoc p om_upd_mid[OF fsg(3), simplified])
    next
      case False
      then have f: "sl_mFirstIndex l = k + 1" using assms(2) by simp
      have "cl0 = []"
      proof (rule ccontr)
        assume "cl0 \<noteq> []"
        obtain pre es1 where "closed_chain env n cl0 pre" "f = n + length pre"
          using r(2) unfolding cl(1) snoc p closed_chain_append by auto
        then have "sg_mLastIndex (snd (hd cl0)) < f"
          using closed_chain_keys[of env n cl0 pre] \<open>cl0 \<noteq> []\<close> by auto
        then show False using assms(1) fsg(2) f \<open>cl0 \<noteq> []\<close> by (auto simp: sl_rep_def cl(1) snoc)
      qed
      then have "sl_newActive env (fold (dropSegment env) (dropped @ [sg]) (m\<lparr>sl_mClosedSegments := []\<rparr>)) = Inr l'"
        using assms(3,5) choose snoc p f fsg(1)
        by (simp add: sl_truncateSuffix_def ts_cut_def Let_def m_def drop_frame om_erase_def del: fold_simps fold_append)
      then show ?thesis
        by (rule ts_emptied[OF assms(1) f assms(3)]) (simp_all add: drop_frame m_def snoc f del: fold_simps fold_append)
    qed
  qed
qed

theorem sl_truncateSuffix_ok:
  assumes "sl_inv env l" and "sl_mFirstIndex l \<le> k + 1" and "sl_truncateSuffix env k l = Inr l'"
  shows "sl_inv env l' \<and> sl_abs env l' = al_truncateSuffix k (sl_abs env l) \<and> sl_start l \<le> sl_start l'"
proof (cases "k < sl_mLastIndex l")
  case True
  obtain n esc esa act where r: "sl_rep env l n esc esa act" using assms(1) by (auto simp: sl_inv_def)
  show ?thesis
    using sl_truncateSuffix_active[OF r assms(2) True _ assms(3)] sl_truncateSuffix_closed[OF r assms(2) True _ assms(3)]
    by (cases "sg_mFirstIndex act \<le> k") (auto simp: ts_result_def)
next
  case False
  then show ?thesis
    using assms sl_inv_wf[OF assms(1)] by (simp add: sl_truncateSuffix_def al_truncateSuffix_def)
qed

section \<open>The contract of the storage interface\<close>

lemma sl_set_ok:
  assumes "sl_inv env l"
  shows "sl_inv env (sl_setCurrentTerm t l)" and "sl_abs env (sl_setCurrentTerm t l) = (sl_abs env l)\<lparr>al_term := t\<rparr>"
    and "sl_inv env (sl_setVoteFor v l)" and "sl_abs env (sl_setVoteFor v l) = (sl_abs env l)\<lparr>al_vote := v\<rparr>"
proof -
  obtain n esc esa act where r: "sl_rep env l n esc esa act" using assms by (auto simp: sl_inv_def)
  have t: "sl_rep env (sl_setCurrentTerm t l) n esc esa act" and v: "sl_rep env (sl_setVoteFor v l) n esc esa act"
    using r by (auto simp: sl_rep_def sl_setCurrentTerm_def sl_setVoteFor_def sl_frame)
  show "sl_inv env (sl_setCurrentTerm t l)" "sl_inv env (sl_setVoteFor v l)" using t v by (auto simp: sl_inv_def)
  show "sl_abs env (sl_setCurrentTerm t l) = (sl_abs env l)\<lparr>al_term := t\<rparr>"
    and "sl_abs env (sl_setVoteFor v l) = (sl_abs env l)\<lparr>al_vote := v\<rparr>"
    unfolding sl_rep_abs[OF r] sl_rep_abs[OF t] sl_rep_abs[OF v]
    by (simp_all add: sl_setCurrentTerm_def sl_setVoteFor_def sl_frame)
qed

lemma sl_has: "sl_inv env l \<Longrightarrow> al_has (sl_abs env l) i \<longleftrightarrow> sl_mFirstIndex l \<le> i \<and> i \<le> sl_mLastIndex l"
  using sl_inv_wf[of env l] by (auto simp: al_has_def sl_abs_def)

lemma sl_appendEntry_ok:
  assumes "sl_inv env l" and "sl_appendEntry env e l = Inr (l', b)"
  shows "sl_inv env l' \<and> b = (le_index e = al_last (sl_abs env l) + 1) \<and>
    sl_abs env l' = (if b then al_append [e] (sl_abs env l) else sl_abs env l)"
  using assms sl_append_ok[OF assms(1), of "[e]"] sl_inv_wf[OF assms(1)]
  by (auto simp: sl_appendEntry_def split: if_splits)

lemma sl_appendEntries_ok:
  assumes "sl_inv env l" and "sl_appendEntries env es l = Inr (l', b)"
  shows "sl_inv env l' \<and> (if b then sl_abs env l' = al_append es (sl_abs env l) \<and> consec (al_last (sl_abs env l) + 1) es
    else l' = l \<and> es \<noteq> [])"
  using assms sl_append_ok[OF assms(1), of es] sl_inv_wf[OF assms(1)]
  by (auto simp: sl_appendEntries_def al_append_def split: if_splits list.splits)

lemma sl_appendEntries_law:
  assumes "sl_inv env l" and "sl_appendEntries env es l = Inr (l', b)"
  shows "sl_inv env l' \<and> (\<exists>k. sl_abs env l' = al_append (take k es) (sl_abs env l) \<and>
    consec (al_last (sl_abs env l) + 1) (take k es) \<and> k \<le> length es \<and> b = (k = length es))"
  using sl_appendEntries_ok[OF assms]
  by (cases b) (auto intro: exI[of _ "length es"] exI[of _ 0])

lemma sl_getEntry_frame:
  assumes "sl_inv env l" and "sl_getEntry env i l = Inr (l', r)"
  shows "sl_inv env l' \<and> sl_abs env l' = sl_abs env l"
proof (cases "sl_mFirstIndex l \<le> i \<and> i \<le> sl_mLastIndex l")
  case True
  then show ?thesis using sl_getEntry_ok[OF assms(1), of i] assms(2) by auto
next
  case False
  then show ?thesis using assms by (auto simp: sl_getEntry_def getSegment_outside)
qed

lemma sl_getEntries_law:
  assumes "sl_inv env l" and "al_first (sl_abs env l) \<le> i" and "sl_getEntries env i maxLen maxBatch l = Inr (l', n, es)"
  shows "n = length es \<and> n \<le> maxBatch \<and> es = take n (drop (i - al_first (sl_abs env l)) (al_entries (sl_abs env l)))"
proof (cases "i \<le> sl_mLastIndex l")
  case True
  have f: "sl_mFirstIndex l \<le> i" using assms(2) by (simp add: sl_abs_def)
  obtain l'' k es' where g: "sl_getEntries env i maxLen maxBatch l = Inr (l'', length es', es')"
      "es' = take_fit (se_byteSize env) maxLen (take (min k maxBatch) (drop (i - sl_mFirstIndex l) (al_entries (sl_abs env l))))"
    using sl_getEntries_ok[OF assms(1) f True, of maxLen maxBatch] by blast
  show ?thesis using take_fit_take_eq[OF g(2)] g(1) assms(3) by (simp add: sl_abs_def)
next
  case False
  then show ?thesis using assms(3) by (auto simp: sl_getEntries_def split: if_splits)
qed

text \<open>An append succeeds when the batch fits a fresh segment and its key versions are known.\<close>

definition sl_fits :: "storage_env \<Rightarrow> log_entry list \<Rightarrow> segment_log \<Rightarrow> bool" where
  "sl_fits env es l \<longleftrightarrow> versions_ok env es \<and>
     size_of env es \<le> sl_mSegmentDataSizeLimit l \<and> length es * sizeof_LogMeta \<le> sl_mSegmentMetaSizeLimit l"

lemma sl_append_fits:
  assumes "sl_inv env l" and "sl_fits env es l" and "es \<noteq> []" and "consec (sl_mLastIndex l + 1) es"
  shows "\<exists>l'. sl_append env es l = Inr l'"
  using sl_append_total[OF assms(1,3,4)] assms(2) by (simp add: sl_fits_def)

lemma sg_truncateSuffix_total: "seg_rep env sg es \<Longrightarrow> sg_mFirstIndex sg \<le> k \<Longrightarrow> \<exists>sg'. sg_truncateSuffix k sg = Inr sg'"
  using sg_truncateSuffix_any[of env sg es k] sg_truncateSuffix_noop[of sg k] by (cases "k \<le> sg_mLastIndex sg") auto

lemma ts_cut_total:
  assumes "\<And>r sg. lastSeg = Some (r, sg) \<Longrightarrow> \<exists>sg'. sg_truncateSuffix k sg = Inr sg'"
  shows "\<exists>l' d. ts_cut k dropped lastSeg l = Inr (l', d) \<and> sl_mSegmentDataSizeLimit l' = sl_mSegmentDataSizeLimit l \<and>
    sl_mSegmentMetaSizeLimit l' = sl_mSegmentMetaSizeLimit l"
proof (cases lastSeg)
  case (Some p)
  obtain r sg where p: "p = (r, sg)" by fastforce
  obtain sg' where "sg_truncateSuffix k sg = Inr sg'" using assms Some p by blast
  then show ?thesis using Some p by (cases r) (auto simp: ts_cut_def sl_frame)
qed (simp add: ts_cut_def)

lemma closed_chain_rep: "closed_chain env n cl es \<Longrightarrow> (f, sg) \<in> set cl \<Longrightarrow> \<exists>es'. seg_rep env sg es'"
  by (induction env n cl es rule: closed_chain.induct) auto

lemma ts_choose_total:
  assumes "sl_mActiveSegment l = Some act"
  shows "\<exists>l1 d s. ts_choose k l = Inr (l1, d, s) \<and> sl_mSegmentDataSizeLimit l1 = sl_mSegmentDataSizeLimit l \<and>
    sl_mSegmentMetaSizeLimit l1 = sl_mSegmentMetaSizeLimit l \<and>
    (\<forall>r sg. s = Some (r, sg) \<longrightarrow> sg_mFirstIndex sg \<le> k \<and> (sg = act \<or> (\<exists>f. (f, sg) \<in> set (sl_mClosedSegments l))))"
proof (cases "sg_mFirstIndex act \<le> k")
  case False
  let ?above = "\<lambda>p. sg_mFirstIndex (snd p) > k"
  have "sg_mFirstIndex sg \<le> k \<and> (f, sg) \<in> set (sl_mClosedSegments l)"
    if "dropWhile ?above (rev (sl_mClosedSegments l)) = (f, sg) # rest" for f sg rest
  proof -
    have "(f, sg) \<in> set (dropWhile ?above (rev (sl_mClosedSegments l)))" unfolding that by simp
    then have "(f, sg) \<in> set (rev (sl_mClosedSegments l))" by (rule set_dropWhileD)
    moreover have "\<not> ?above (f, sg)" using that by (simp add: dropWhile_eq_Cons_conv)
    ultimately show ?thesis by simp
  qed
  note inside = this
  show ?thesis
  proof (cases "dropWhile ?above (rev (sl_mClosedSegments l))")
    case Nil
    show ?thesis using assms False by (simp add: ts_choose_def Let_def Nil del: dropWhile_eq_Nil_conv)
  next
    case (Cons p rest)
    obtain f sg where p: "p = (f, sg)" by fastforce
    show ?thesis using assms False inside[OF Cons[unfolded p]] by (auto simp: ts_choose_def Let_def Cons p)
  qed
qed (use assms in \<open>simp add: ts_choose_def\<close>)

theorem sl_truncateSuffix_total:
  assumes "sl_inv env l"
  shows "\<exists>l'. sl_truncateSuffix env k l = Inr l'"
proof (cases "sl_mLastIndex l \<le> k")
  case False
  obtain n esc esa act where r: "sl_rep env l n esc esa act" using assms by (auto simp: sl_inv_def)
  have act: "sl_mActiveSegment (l\<lparr>sl_mLastIndex := k\<rparr>) = Some act" using r by (simp add: sl_rep_def)
  obtain l1 dropped s where c0: "ts_choose k (l\<lparr>sl_mLastIndex := k\<rparr>) = Inr (l1, dropped, s) \<and>
      sl_mSegmentDataSizeLimit l1 = sl_mSegmentDataSizeLimit (l\<lparr>sl_mLastIndex := k\<rparr>) \<and>
      sl_mSegmentMetaSizeLimit l1 = sl_mSegmentMetaSizeLimit (l\<lparr>sl_mLastIndex := k\<rparr>) \<and>
      (\<forall>r sg. s = Some (r, sg) \<longrightarrow> sg_mFirstIndex sg \<le> k \<and> (sg = act \<or> (\<exists>f. (f, sg) \<in> set (sl_mClosedSegments (l\<lparr>sl_mLastIndex := k\<rparr>)))))"
    using ts_choose_total[OF act, of k] by blast
  have c: "ts_choose k (l\<lparr>sl_mLastIndex := k\<rparr>) = Inr (l1, dropped, s)"
      "sl_mSegmentDataSizeLimit l1 = sl_mSegmentDataSizeLimit l" "sl_mSegmentMetaSizeLimit l1 = sl_mSegmentMetaSizeLimit l"
    and seg: "\<And>r sg. s = Some (r, sg) \<Longrightarrow> sg_mFirstIndex sg \<le> k \<and> (sg = act \<or> (\<exists>f. (f, sg) \<in> set (sl_mClosedSegments l)))"
    using c0 by simp_all
  have rep: "\<exists>es. seg_rep env sg es" if "sg = act \<or> (\<exists>f. (f, sg) \<in> set (sl_mClosedSegments l))" for sg
    using that r closed_chain_rep[of env n "sl_mClosedSegments l" esc] by (auto simp: sl_rep_def)
  have "\<exists>sg'. sg_truncateSuffix k sg = Inr sg'" if "s = Some (rr, sg)" for rr sg
    using seg[OF that] rep[of sg] sg_truncateSuffix_total by blast
  then obtain l2 d where t: "ts_cut k dropped s l1 = Inr (l2, d)" "sl_mSegmentDataSizeLimit l2 = sl_mSegmentDataSizeLimit l1"
      "sl_mSegmentMetaSizeLimit l2 = sl_mSegmentMetaSizeLimit l1"
    using ts_cut_total[of s k dropped l1] by blast
  have "\<exists>l'. sl_newActive env (fold (dropSegment env) d l2) = Inr l'"
    by (rule sl_newActive_total) (use r in \<open>simp add: drop_frame t(2,3) c(2,3) sl_rep_def\<close>)
  then show ?thesis using False c(1) t(1) by (simp add: sl_truncateSuffix_def Let_def)
qed (simp add: sl_truncateSuffix_def)

interpretation seg: log_store "seg_ops env" "sl_abs env" "sl_inv env" for env
proof (unfold_locales, goal_cases)
  case (1 l) then show ?case using sl_inv_wf by simp
next
  case (2 l) then show ?case by (simp add: seg_ops_def sl_abs_def)
next
  case (3 l) then show ?case using sl_inv_wf by (simp add: seg_ops_def)
next
  case (4 l) then show ?case by (simp add: seg_ops_def sl_abs_def)
next
  case (5 l) then show ?case by (simp add: seg_ops_def sl_abs_def)
next
  case (6 l i) then show ?case by (simp add: seg_ops_def sl_has sl_getTerm_ok)
next
  case (7 l) then show ?case using sl_getTerm_before[of env l] by (simp add: seg_ops_def sl_abs_def)
next
  case (8 l i) then show ?case using sl_inv_wf[of env l] sl_getTerm_ok[of env l i] by (auto simp: seg_ops_def sl_abs_def)
next
  case (9 l e l' b) then show ?case using sl_appendEntry_ok[of env l e l' b] by (simp add: seg_ops_def)
next
  case (10 l es l' b) then show ?case using sl_appendEntries_law[of env l es l' b] by (simp add: seg_ops_def)
next
  case (11 l k l') then show ?case using sl_truncateSuffix_ok[of env l k l'] by (simp add: seg_ops_def sl_abs_def)
next
  case (12 l k l') then show ?case using sl_truncatePrefix_ok[of env l k l'] by (simp add: seg_ops_def)
next
  case (13 l i l' r) then show ?case using sl_getEntry_frame[of env l i l' r] by (simp add: seg_ops_def)
next
  case (14 l i ml mb l' n es) then show ?case using sl_getEntries_frame[of env l i ml mb l' n es] by (simp add: seg_ops_def)
next
  case (15 l i l' r) then show ?case using sl_getEntry_ok[of env l i] by (auto simp: seg_ops_def sl_has)
next
  case (16 l i ml mb l' n es) then show ?case using sl_getEntries_law[of env l i ml mb l' n es] unfolding seg_ops_def log_ops.select_convs by blast
next
  case (17 l t) then show ?case using sl_set_ok by (simp add: seg_ops_def)
next
  case (18 l v) then show ?case using sl_set_ok by (simp add: seg_ops_def)
qed

interpretation seg: log_store_total "seg_ops env" "sl_abs env" "sl_inv env" "sl_fits env" for env
proof (unfold_locales, goal_cases)
  case (1 l es)
  then show ?case
    using sl_append_fits[of env l es] sl_inv_wf[of env l] by (cases es) (auto simp: seg_ops_def sl_appendEntries_def)
next
  case (2 l e)
  then show ?case
    using sl_append_fits[of env l "[e]"] by (auto simp: seg_ops_def sl_appendEntry_def)
next
  case (3 l k)
  then show ?case using sl_truncateSuffix_total by (simp add: seg_ops_def)
qed

end
