(* ===== verification/Raft_Core_Inv.thy ===== *)
theory Raft_Core_Inv
  imports Raft_Core InMemoryLog SegmentLog_Rep
begin

text \<open>
  What one round of the main loop preserves, for any storage that meets the contract of
  \<^verbatim>\<open>class Log\<close>: the commit index never decreases and stays inside the log, committed entries
  stay, the term never decreases, and a vote once given in a term stays.
\<close>

section \<open>Frames\<close>

lemma setPeer_frame [simp, raft_frame]:
  "mHeartBeatIntervalInMillis (setPeer k p s) = mHeartBeatIntervalInMillis s"
  "mMinElectionTimeoutInMillis (setPeer k p s) = mMinElectionTimeoutInMillis s"
  "mMaxElectionTimeoutInMillis (setPeer k p s) = mMaxElectionTimeoutInMillis s"
  "mRpcAppendEntriesTimeoutInMillis (setPeer k p s) = mRpcAppendEntriesTimeoutInMillis s"
  "mRpcRequestVoteTimeoutInMillis (setPeer k p s) = mRpcRequestVoteTimeoutInMillis s"
  "mMaxBatchSize (setPeer k p s) = mMaxBatchSize s"
  "mMaxLenInBytes (setPeer k p s) = mMaxLenInBytes s"
  "mMaxDecrStep (setPeer k p s) = mMaxDecrStep s"
  "mMaxTailedEntryNum (setPeer k p s) = mMaxTailedEntryNum s"
  "mPreVoteEnabled (setPeer k p s) = mPreVoteEnabled s"
  "mLeaderId (setPeer k p s) = mLeaderId s"
  "mElectionTimePointInNano (setPeer k p s) = mElectionTimePointInNano s"
  "mCommitIndex (setPeer k p s) = mCommitIndex s"
  "mBeginIndex (setPeer k p s) = mBeginIndex s"
  "mRaftRole (setPeer k p s) = mRaftRole s"
  "mLog (setPeer k p s) = mLog s"
  "mPendingClientRequests (setPeer k p s) = mPendingClientRequests s"
  "mAeRvQueue (setPeer k p s) = mAeRvQueue s"
  "mClientRequestsQueue (setPeer k p s) = mClientRequestsQueue s"
  "mStreamingSvcEnabled (setPeer k p s) = mStreamingSvcEnabled s"
  "mStreamingPort (setPeer k p s) = mStreamingPort s"
  "mTick (setPeer k p s) = mTick s"
  "mEffects (setPeer k p s) = mEffects s"
  by (simp_all add: setPeer_def)

lemma setPeer_members [simp]:
  "db_getCurrent (mClusterMembers (setPeer k p s)) = (members s)\<lparr>ms_mPeers := om_upd k p (peers s)\<rparr>"
  by (simp add: setPeer_def)

lemma drainPending_frame [simp, raft_frame]:
  "mLog (drainPending msg s) = mLog s" "mRaftRole (drainPending msg s) = mRaftRole s"
  "mCommitIndex (drainPending msg s) = mCommitIndex s" "mLeaderId (drainPending msg s) = mLeaderId s"
  "mClusterMembers (drainPending msg s) = mClusterMembers s"
  "mPendingClientRequests (drainPending msg s) = []"
  by (simp_all add: drainPending_def)

text \<open>The part of the state the safety of a single node is about.\<close>

definition vital :: "'l raft_core \<Rightarrow> 'l \<times> nat \<times> raft_role" where
  "vital s = (mLog s, mCommitIndex s, mRaftRole s)"

lemma vital_simps [simp]:
  "vital (setPeer k p s) = vital s" "vital (tick s) = vital s" "vital (emit e s) = vital s"
  "vital (drainPending msg s) = vital s" "vital (setMembers m s) = vital s"
  "vital (s\<lparr>mClusterMembers := b\<rparr>) = vital s" "vital (s\<lparr>mLeaderId := i\<rparr>) = vital s"
  "vital (s\<lparr>mEffects := es\<rparr>) = vital s" "vital (s\<lparr>mPendingClientRequests := ps\<rparr>) = vital s"
  "vital (s\<lparr>mAeRvQueue := q\<rparr>) = vital s" "vital (s\<lparr>mClientRequestsQueue := q\<rparr>) = vital s"
  "vital (s\<lparr>mElectionTimePointInNano := n\<rparr>) = vital s" "vital (s\<lparr>mTick := n\<rparr>) = vital s"
  "vital (s\<lparr>mStreamingPort := n\<rparr>) = vital s" "vital (s\<lparr>mBeginIndex := n\<rparr>) = vital s"
  by (simp_all add: vital_def)

lemma vital_updateElectionTimePoint:
  "updateElectionTimePoint env s = Inr t \<Longrightarrow> vital t = vital s"
  by (erule updateElectionTimePoint_Inr) simp

lemma vital_foldR:
  assumes "foldR f xs s = Inr t" and "\<And>x u v. f x u = Inr v \<Longrightarrow> vital v = vital u"
  shows "vital t = vital s"
  using assms(1) by (rule foldR_invariant) (auto dest: assms(2))

lemma vital_scheduleRV: "scheduleRV env k s = Inr t \<Longrightarrow> vital t = vital s"
  by (auto simp: scheduleRV_def)

lemma vital_scheduleHeartbeat: "scheduleHeartbeat env ops k s = Inr t \<Longrightarrow> vital t = vital s"
  by (auto simp: scheduleHeartbeat_def)

lemma vital_inheritPeer: "inheritPeer env ops b k s = Inr t \<Longrightarrow> vital t = vital s"
  by (auto simp: inheritPeer_def split: option.splits)

lemma vital_requestVote_peer: "requestVote_peer env ops k s = Inr t \<Longrightarrow> vital t = vital s"
  unfolding requestVote_peer_def by (elim resE) auto

lemma vital_requestVote: "requestVote env ops s = Inr t \<Longrightarrow> vital t = vital s"
  by (auto simp: requestVote_def split: if_splits dest: vital_foldR[OF _ vital_requestVote_peer])

lemma vital_initClusterNode: "vital (snd (initClusterNode i x (m, s))) = vital s"
  by (cases x) (simp add: initClusterNode_def Let_def)

lemma vital_initClusterNodes: "vital (snd (fold (initClusterNode i) xs ms)) = vital (snd ms)"
proof (induction xs arbitrary: ms)
  case (Cons x xs)
  then show ?case by (cases ms) (simp add: vital_initClusterNode)
qed simp

lemma vital_initClusterConf: "initClusterConf ci i s = Inr (m, t) \<Longrightarrow> vital t = vital s"
  using vital_initClusterNodes[of i "ci_mNodes ci" "(empty_membership, s)"]
  by (auto simp: initClusterConf_def Let_def split: prod.splits)

lemmas vital_lemmas = vital_updateElectionTimePoint vital_requestVote vital_initClusterConf
  vital_foldR[OF _ vital_scheduleRV] vital_foldR[OF _ vital_scheduleHeartbeat]
  vital_foldR[OF _ vital_inheritPeer]

section \<open>The order on the states of a node\<close>

text \<open>
  \<open>log_le c a b\<close>: up to index \<open>c\<close> nothing is lost between \<open>a\<close> and \<open>b\<close> but a prefix;
  \<open>vote_le a b\<close>: the term does not decrease, and within a term a vote stays.
\<close>

definition log_le :: "nat \<Rightarrow> alog \<Rightarrow> alog \<Rightarrow> bool" where
  "log_le c a b \<longleftrightarrow> al_first a \<le> al_first b \<and>
     (\<forall>i. al_has a i \<and> i \<le> c \<and> al_first b \<le> i \<longrightarrow> al_has b i \<and> al_at b i = al_at a i)"

definition vote_le :: "alog \<Rightarrow> alog \<Rightarrow> bool" where
  "vote_le a b \<longleftrightarrow> al_term a \<le> al_term b \<and>
     (al_term a = al_term b \<and> al_vote a \<noteq> 0 \<longrightarrow> al_vote b = al_vote a)"

lemma log_le_refl [simp]: "log_le c a a"
  by (simp add: log_le_def)

lemma log_le_trans: "log_le c a b \<Longrightarrow> log_le c' b d \<Longrightarrow> c \<le> c' \<Longrightarrow> log_le c a d"
  unfolding log_le_def by (metis order_trans)

lemma vote_le_refl [simp]: "vote_le a a"
  by (simp add: vote_le_def)

lemma vote_le_trans: "vote_le a b \<Longrightarrow> vote_le b d \<Longrightarrow> vote_le a d"
  unfolding vote_le_def by (metis le_antisym order_trans)

lemma log_le_append: "alog_wf a \<Longrightarrow> log_le c a (al_append es a)"
  by (simp add: log_le_def al_has_append al_at_append)

lemma log_le_truncateSuffix:
  "alog_wf a \<Longrightarrow> al_first a \<le> Suc k \<Longrightarrow> c \<le> k \<Longrightarrow> log_le c a (al_truncateSuffix k a)"
  by (simp add: log_le_def al_first_truncateSuffix al_has_truncateSuffix al_at_truncateSuffix)

lemma log_le_truncatePrefix:
  assumes "alog_wf a" "k \<le> al_last a"
  shows "log_le c a (al_truncatePrefix k a)" "al_last (al_truncatePrefix k a) = al_last a"
proof -
  have fst: "al_first (al_truncatePrefix k a) = max k (al_first a)"
    and lst: "al_last (al_truncatePrefix k a) = al_last a"
    using assms by (auto simp: al_truncatePrefix_def al_last_def)
  then show "log_le c a (al_truncatePrefix k a)"
    using al_at_truncatePrefix[OF assms(1)] by (auto simp: log_le_def al_has_def)
  show "al_last (al_truncatePrefix k a) = al_last a" by (rule lst)
qed

lemma log_le_meta [simp]:
  "log_le c a (b\<lparr>al_term := t\<rparr>) = log_le c a b" "log_le c a (b\<lparr>al_vote := v\<rparr>) = log_le c a b"
  by (simp_all add: log_le_def al_has_def al_last_def al_at_def)

lemma alog_meta [simp]:
  "al_last (b\<lparr>al_term := t\<rparr>) = al_last b" "al_last (b\<lparr>al_vote := v\<rparr>) = al_last b"
  by (simp_all add: al_last_def)

lemma vote_le_same: "al_term b = al_term a \<Longrightarrow> al_vote b = al_vote a \<Longrightarrow> vote_le a b"
  by (simp add: vote_le_def)

text \<open>
  \<open>raft_ok\<close>: the log satisfies its invariant and the commit index lies inside it;
  \<open>raft_le s t\<close>: what \<open>s\<close> had committed \<open>t\<close> still has, and (unless \<open>s\<close> is a syncer, which
  copies another cluster's log and its terms) terms and votes only move forward.
\<close>

definition raft_ok :: "('l \<Rightarrow> alog) \<Rightarrow> ('l \<Rightarrow> bool) \<Rightarrow> 'l raft_core \<Rightarrow> bool" where
  "raft_ok ab iv s \<longleftrightarrow> iv (mLog s) \<and> mCommitIndex s \<le> al_last (ab (mLog s))"

definition raft_le :: "('l \<Rightarrow> alog) \<Rightarrow> 'l raft_core \<Rightarrow> 'l raft_core \<Rightarrow> bool" where
  "raft_le ab s t \<longleftrightarrow> mCommitIndex s \<le> mCommitIndex t \<and>
     log_le (mCommitIndex s) (ab (mLog s)) (ab (mLog t)) \<and>
     (mRaftRole s \<noteq> Syncer \<longrightarrow> vote_le (ab (mLog s)) (ab (mLog t)) \<and> mRaftRole t \<noteq> Syncer)"

definition raft_step :: "('l \<Rightarrow> alog) \<Rightarrow> ('l \<Rightarrow> bool) \<Rightarrow> 'l raft_core \<Rightarrow> 'l raft_core \<Rightarrow> bool" where
  "raft_step ab iv s t \<longleftrightarrow> raft_ok ab iv t \<and> raft_le ab s t"

lemma raft_le_trans: "raft_le ab s t \<Longrightarrow> raft_le ab t u \<Longrightarrow> raft_le ab s u"
  unfolding raft_le_def by (meson log_le_trans order_trans vote_le_trans)

lemma raft_step_trans: "raft_step ab iv s t \<Longrightarrow> raft_step ab iv t u \<Longrightarrow> raft_step ab iv s u"
  unfolding raft_step_def using raft_le_trans by blast

lemma raft_step_ok: "raft_step ab iv s t \<Longrightarrow> raft_ok ab iv t"
  by (simp add: raft_step_def)

lemma vital_eq:
  "vital t = vital s \<Longrightarrow> mLog t = mLog s \<and> mCommitIndex t = mCommitIndex s \<and> mRaftRole t = mRaftRole s"
  by (simp add: vital_def)

lemma raft_ok_vital: "vital t = vital s \<Longrightarrow> raft_ok ab iv t = raft_ok ab iv s"
  by (simp add: raft_ok_def vital_def)

lemma raft_step_vital: "raft_ok ab iv s \<Longrightarrow> vital t = vital s \<Longrightarrow> raft_step ab iv s t"
  by (simp add: raft_step_def raft_ok_def raft_le_def vital_def)

lemma raft_step_refl: "raft_ok ab iv s \<Longrightarrow> raft_step ab iv s s"
  by (rule raft_step_vital) simp_all

lemma raft_step_vital_right: "raft_step ab iv s t \<Longrightarrow> vital u = vital t \<Longrightarrow> raft_step ab iv s u"
  by (auto intro: raft_step_trans raft_step_vital raft_step_ok)

lemma raft_step_vital_left: "raft_step ab iv s t \<Longrightarrow> vital s = vital u \<Longrightarrow> raft_step ab iv u t"
  by (simp add: raft_step_def raft_le_def vital_def)

lemma raft_step_next:
  assumes "raft_step ab iv s t" "f t = Inr u"
    and "\<And>s t. raft_ok ab iv s \<Longrightarrow> f s = Inr t \<Longrightarrow> raft_step ab iv s t"
  shows "raft_step ab iv s u"
  using raft_step_trans[OF assms(1) assms(3)[OF raft_step_ok[OF assms(1)] assms(2)]] .

lemma raft_step_foldR:
  assumes "raft_ok ab iv s" "foldR f xs s = Inr t"
    and "\<And>x s t. raft_ok ab iv s \<Longrightarrow> f x s = Inr t \<Longrightarrow> raft_step ab iv s t"
  shows "raft_step ab iv s t"
  using assms(2)
proof (rule foldR_invariant)
  show "raft_step ab iv s s" using assms(1) by (rule raft_step_vital) simp
  show "raft_step ab iv s v" if "raft_step ab iv s u" "f x u = Inr v" for x u v
    using that assms(3) raft_step_ok raft_step_trans by blast
qed

section \<open>Every operation is such a step\<close>

context log_store
begin

lemma ok_wf: "raft_ok abs inv s \<Longrightarrow> alog_wf (abs (mLog s))"
  using abs_wf by (simp add: raft_ok_def)

lemma stepDown_step:
  assumes "raft_ok abs inv s" "stepDown env ops n s = Inr t"
  shows "raft_step abs inv s t"
proof -
  have inv: "inv (mLog s)" using assms(1) by (simp add: raft_ok_def)
  have core: "raft_step abs inv s u"
    if "mRaftRole u = (if mRaftRole s \<noteq> Learner \<and> mRaftRole s \<noteq> PreFollower then Follower else mRaftRole s)"
      "mCommitIndex u = mCommitIndex s"
      "mLog u = mLog s \<or> lo_getCurrentTerm ops (mLog s) < n \<and>
         mLog u = lo_setVoteFor ops 0 (lo_setCurrentTerm ops n (mLog s))" for u
    using that assms(1) inv
    by (auto simp: raft_step_def raft_ok_def raft_le_def setCurrentTerm_law setVoteFor_law
        term_law vote_le_def)
  show ?thesis
    using assms(2) unfolding stepDown_def
    by (elim resE) (auto intro!: core dest!: vital_updateElectionTimePoint simp: vital_def)
qed

lemma appendEntries_peer_step:
  assumes "raft_ok abs inv s" "appendEntries_peer env ops k s = Inr t"
  shows "raft_step abs inv s t"
proof -
  have core: "raft_step abs inv s u"
    if "lo_getEntries ops i m n (mLog s) = Inr (l, r) \<or> l = mLog s" "vital u = vital (s\<lparr>mLog := l\<rparr>)" for u l r i m n
  proof -
    have "inv l \<and> abs l = abs (mLog s)"
      using that(1) assms(1) getEntries_frame[of "mLog s" i m n l "fst r" "snd r"]
      by (cases r) (auto simp: raft_ok_def)
    with that(2) assms(1) show ?thesis
      by (simp add: vital_def raft_step_def raft_ok_def raft_le_def)
  qed
  show ?thesis
    using assms(2) unfolding appendEntries_peer_def
    by (elim resE) (auto intro: raft_step_vital[OF assms(1)] intro!: core simp: vital_def)
qed

lemma appendEntries_step:
  assumes "raft_ok abs inv s" "appendEntries env ops s = Inr t"
  shows "raft_step abs inv s t"
  using assms unfolding appendEntries_def
  by (elim resE) (auto intro: raft_step_refl raft_step_foldR appendEntries_peer_step)

text \<open>The loop over the entries of a request only truncates above the commit index.\<close>

lemma handleAE_entry_safe:
  assumes "inv l" "c \<le> al_last (abs l)" "handleAE_entry ops c e (l, n, es) = Inr (l', n', es')"
  shows "inv l'" "c \<le> al_last (abs l')" "log_le c (abs l) (abs l')"
    "al_term (abs l') = al_term (abs l)" "al_vote (abs l') = al_vote (abs l)"
proof -
  have trunc: "inv m \<and> (\<exists>k. abs m = al_truncateSuffix k (abs l) \<and> c \<le> k \<and> al_first (abs l) \<le> Suc k)"
    if "lo_truncateSuffix ops k l = Inr m" "Suc k = le_index e" "c < le_index e"
      "\<not> le_index e < lo_getFirstLogIndex ops l" for m k
    using that truncateSuffix_law[OF assms(1) _ that(1)] by (auto simp: first_law assms(1))
  have "l' = l \<or> inv l' \<and> (\<exists>k. abs l' = al_truncateSuffix k (abs l) \<and> c \<le> k \<and> al_first (abs l) \<le> Suc k)"
    using assms(3) unfolding handleAE_entry_def
    by (elim resE) (auto dest: trunc)
  then show "inv l'" "c \<le> al_last (abs l')" "log_le c (abs l) (abs l')"
    "al_term (abs l') = al_term (abs l)" "al_vote (abs l') = al_vote (abs l)"
    using assms(1,2) abs_wf[OF assms(1)]
    by (auto simp: al_last_truncateSuffix intro: log_le_truncateSuffix)
qed

lemma handleAE_entries_safe:
  assumes "inv l" "c \<le> al_last (abs l)" "foldR (handleAE_entry ops c) es (l, n, xs) = Inr (l', n', xs')"
  shows "inv l' \<and> c \<le> al_last (abs l') \<and> log_le c (abs l) (abs l') \<and>
    al_term (abs l') = al_term (abs l) \<and> al_vote (abs l') = al_vote (abs l)"
proof -
  let ?P = "\<lambda>(m, k, ys). inv m \<and> c \<le> al_last (abs m) \<and> log_le c (abs l) (abs m) \<and>
    al_term (abs m) = al_term (abs l) \<and> al_vote (abs m) = al_vote (abs l)"
  have "?P (l', n', xs')"
    using assms(3)
  proof (rule foldR_invariant)
    show "?P (l, n, xs)" using assms(1,2) by simp
    show "?P v" if "?P u" "handleAE_entry ops c x u = Inr v" for x u v
      using that handleAE_entry_safe[of "fst u" c x "fst (snd u)" "snd (snd u)" "fst v" "fst (snd v)" "snd (snd v)"]
      by (auto intro: log_le_trans split: prod.splits)
  qed
  then show ?thesis by simp
qed

lemma handleAE_accept_step:
  assumes "raft_ok abs inv s" "handleAE_accept env ops q r s = Inr (st, r', t)"
  shows "raft_step abs inv s t"
proof -
  have core: "raft_step abs inv s u"
    if f: "foldR (handleAE_entry ops (mCommitIndex s)) es (mLog s, n, []) = Inr (l, n', xs)"
      and a: "lo_appendEntries ops xs l = Inr (l', True)"
      and u: "mLog u = l'" "mRaftRole u = mRaftRole s" "mCommitIndex s \<le> mCommitIndex u"
      and c: "mCommitIndex u = mCommitIndex s \<or> mCommitIndex u \<le> lo_getLastLogIndex ops l'" for u es n l n' xs l'
  proof -
    note safe = handleAE_entries_safe[OF _ _ f] and app = append_all[OF _ a]
    have "inv l" "mCommitIndex s \<le> al_last (abs l)" "log_le (mCommitIndex s) (abs (mLog s)) (abs l)"
      "al_term (abs l) = al_term (abs (mLog s))" "al_vote (abs l) = al_vote (abs (mLog s))"
      using safe assms(1) by (auto simp: raft_ok_def)
    moreover have "log_le (mCommitIndex s) (abs l) (abs l')"
      using app(2) \<open>inv l\<close> log_le_append[OF abs_wf[OF \<open>inv l\<close>]] by simp
    ultimately show ?thesis
      using u c app abs_wf[of l] log_le_trans[of "mCommitIndex s" "abs (mLog s)" "abs l" "mCommitIndex s" "abs l'"]
      by (auto simp: raft_step_def raft_ok_def raft_le_def last_law al_last_append vote_le_same)
  qed
  show ?thesis
    using assms(2) unfolding handleAE_accept_def
    by (elim resE) (auto intro!: core dest!: vital_updateElectionTimePoint simp: vital_def)
qed

lemma handleAE_hailLeader_step:
  assumes "raft_ok abs inv s" "handleAE_hailLeader env ops q s = Inr t"
  shows "raft_step abs inv s t"
  using assms raft_step_refl[OF assms(1)] unfolding handleAE_hailLeader_def
  by (elim resE) (auto dest!: stepDown_step[OF assms(1)] vital_updateElectionTimePoint intro: raft_step_vital_right)

lemma handleAppendEntriesRequest_step:
  assumes "raft_ok abs inv s" "handleAppendEntriesRequest env ops q s = Inr (st, r, t)"
  shows "raft_step abs inv s t"
  using assms unfolding handleAppendEntriesRequest_def
  by (elim resE)
     (auto intro: raft_step_refl handleAE_hailLeader_step
        raft_step_trans[OF handleAE_hailLeader_step handleAE_accept_step[OF raft_step_ok[OF handleAE_hailLeader_step]]])

lemma handleAppendEntriesResponse_step:
  assumes "raft_ok abs inv s" "handleAppendEntriesResponse env ops r s = Inr t"
  shows "raft_step abs inv s t"
  using assms unfolding handleAppendEntriesResponse_def
  by (elim resE) (auto intro: raft_step_refl stepDown_step raft_step_vital)

lemma handleAEResponseEvent_step:
  assumes "raft_ok abs inv s" "handleAEResponseEvent env ops p b r s = Inr t"
  shows "raft_step abs inv s t"
proof -
  have core: "raft_step abs inv s t" if "handleAppendEntriesResponse env ops r u = Inr t" "vital u = vital s" for u
    using that assms(1) handleAppendEntriesResponse_step raft_ok_vital raft_step_vital_left by metis
  show ?thesis
    using assms unfolding handleAEResponseEvent_def
    by (elim resE) (auto intro: raft_step_refl raft_step_vital elim!: core)
qed

lemma grant_step:
  assumes "raft_ok abs inv s" "lo_getVote ops (mLog s) = 0 \<or> lo_getVote ops (mLog s) = v"
  shows "raft_step abs inv s (s\<lparr>mLog := lo_setVoteFor ops v (mLog s)\<rparr>)"
  using assms by (auto simp: raft_step_def raft_ok_def raft_le_def setVoteFor_law vote_law vote_le_def)

lemma vital_handleRV_noLeader: "handleRV_noLeader env s = (b, t) \<Longrightarrow> vital t = vital s"
  by (auto simp: handleRV_noLeader_def split: if_splits)

lemma handleRV_decide_step:
  assumes "raft_ok abs inv s" "handleRV_decide env ops q r s = Inr (st, r', t)"
  shows "raft_step abs inv s t"
  using assms unfolding handleRV_decide_def
  by (elim resE) (auto intro: raft_step_refl raft_step_vital raft_step_vital_right[OF grant_step]
      dest!: vital_updateElectionTimePoint vital_handleRV_noLeader)

lemma handleRequestVoteRequest_step:
  assumes "raft_ok abs inv s" "handleRequestVoteRequest env ops q s = Inr (st, r, t)"
  shows "raft_step abs inv s t"
  using assms unfolding handleRequestVoteRequest_def
  by (elim resE) (auto intro: raft_step_refl handleRV_decide_step
      raft_step_trans[OF stepDown_step handleRV_decide_step[OF raft_step_ok[OF stepDown_step]]])

lemma handleRequestVoteResponse_step:
  assumes "raft_ok abs inv s" "handleRequestVoteResponse env ops r s = Inr t"
  shows "raft_step abs inv s t"
  using assms unfolding handleRequestVoteResponse_def
  by (elim resE) (auto intro: raft_step_refl stepDown_step raft_step_vital)

lemma handleRVResponseEvent_step:
  assumes "raft_ok abs inv s" "handleRVResponseEvent env ops p b r s = Inr t"
  shows "raft_step abs inv s t"
proof -
  have core: "raft_step abs inv s t" if "handleRequestVoteResponse env ops r u = Inr t" "vital u = vital s" for u
    using that assms(1) handleRequestVoteResponse_step raft_ok_vital raft_step_vital_left by metis
  show ?thesis
    using assms unfolding handleRVResponseEvent_def
    by (elim resE) (auto intro: raft_step_refl raft_step_vital elim!: core)
qed

lemma append_step:
  assumes "raft_ok abs inv s" "lo_appendEntries ops es (mLog s) = Inr (l, b)"
    and "mLog t = l" "mCommitIndex t = mCommitIndex s" "mRaftRole t = mRaftRole s"
  shows "raft_step abs inv s t"
proof -
  from appendEntries_law[OF _ assms(2)] assms(1) obtain k where
    "inv l" "abs l = al_append (take k es) (abs (mLog s))" by (auto simp: raft_ok_def)
  then show ?thesis
    using assms log_le_append[OF ok_wf[OF assms(1)]] ok_wf[OF assms(1)]
    by (auto simp: raft_step_def raft_ok_def raft_le_def al_last_append vote_le_same)
qed

lemma handleClientRequests_step:
  assumes "raft_ok abs inv s" "handleClientRequests ops rs s = Inr t"
  shows "raft_step abs inv s t"
  using assms unfolding handleClientRequests_def
  by (elim resE) (auto intro: raft_step_vital elim: append_step)

lemma handleSyncRequest_step:
  assumes "raft_ok abs inv s" "handleSyncRequest env ops r s = Inr t"
  shows "raft_step abs inv s t"
proof -
  have app: "raft_step abs inv s u"
    if a: "lo_appendEntries ops es (mLog s) = Inr (l, True)" and "mRaftRole s = Syncer"
      "u = s\<lparr>mLog := lo_setCurrentTerm ops n l, mCommitIndex := lo_getLastLogIndex ops (lo_setCurrentTerm ops n l)\<rparr>"
    for es l n u
    using that assms(1) append_all[OF _ a] ok_wf[OF assms(1)] log_le_append[OF ok_wf[OF assms(1)]]
    by (auto simp: raft_step_def raft_ok_def raft_le_def setCurrentTerm_law last_law al_last_append)
  have fin: "raft_step abs inv s u"
    if "updateElectionTimePoint env (s\<lparr>mRaftRole := x, mBeginIndex := n\<rparr>) = Inr u" "mRaftRole s = Syncer" for u x n
    using that(2) assms(1) vital_updateElectionTimePoint[OF that(1)]
    by (simp add: raft_step_def raft_ok_def raft_le_def vital_def)
  show ?thesis
    using assms unfolding handleSyncRequest_def
    by (elim resE) (auto intro: raft_step_refl app fin)
qed

lemma switchRole_step:
  assumes "raft_ok abs inv s" "mRaftRole s \<noteq> Syncer" "switchRole env s = Inr t"
  shows "raft_step abs inv s t"
proof -
  have "mLog t = mLog s \<and> mCommitIndex t = mCommitIndex s \<and> mRaftRole t \<noteq> Syncer"
    using assms(2,3) unfolding switchRole_def
    by (elim resE) (auto dest!: vital_updateElectionTimePoint simp: vital_def)
  with assms(1) show ?thesis by (simp add: raft_step_def raft_ok_def raft_le_def)
qed

lemma configurationSwitch_step:
  assumes "raft_ok abs inv s" "configurationSwitch env ops s = Inr t"
  shows "raft_step abs inv s t"
proof (cases "mRaftRole s = Syncer")
  case False
  with assms(2) obtain u m ks b where
    u: "foldR (inheritPeer env ops m) ks (s\<lparr>mClusterMembers := b\<rparr>) = Inr u" and t: "switchRole env u = Inr t"
    unfolding configurationSwitch_def checkSelfNeedExit_def by (elim resE) auto
  have v: "vital u = vital s" using vital_foldR[OF u vital_inheritPeer] by simp
  then have "mRaftRole u \<noteq> Syncer" using False by (simp add: vital_def)
  with v t assms(1) show ?thesis
    using switchRole_step[of u] raft_ok_vital raft_step_vital_left by metis
qed (use assms in \<open>auto simp: configurationSwitch_def intro: raft_step_refl\<close>)

lemma handleReconfigureRequest_step:
  assumes "raft_ok abs inv s" "handleReconfigureRequest env ops i ci s = Inr t"
  shows "raft_step abs inv s t"
proof (cases "mRaftRole s = Syncer")
  case False
  with assms(2) obtain m u where u: "initClusterConf ci i s = Inr (m, u)"
    and t: "configurationSwitch env ops (u\<lparr>mClusterMembers := db_setBypass m (mClusterMembers u)\<rparr>) = Inr t"
    unfolding handleReconfigureRequest_def by (elim resE) auto
  let ?u = "u\<lparr>mClusterMembers := db_setBypass m (mClusterMembers u)\<rparr>"
  have "vital ?u = vital s" using vital_initClusterConf[OF u] by simp
  then show ?thesis
    using configurationSwitch_step[OF _ t] assms(1) raft_ok_vital raft_step_vital_left by metis
qed (use assms in \<open>auto simp: handleReconfigureRequest_def intro: raft_step_refl\<close>)

lemma handleEvent_step:
  assumes "raft_ok abs inv s" "handleEvent env ops e s = Inr t"
  shows "raft_step abs inv s t"
  using assms
  by (cases e)
     (auto simp: handleEvent_def intro: raft_step_vital_right[OF handleAppendEntriesRequest_step]
        raft_step_vital_right[OF handleRequestVoteRequest_step] handleAEResponseEvent_step handleRVResponseEvent_step
        handleClientRequests_step handleSyncRequest_step handleReconfigureRequest_step)

lemma receiveMessage_step:
  assumes "raft_ok abs inv s" "receiveMessage env ops s = Inr t"
  shows "raft_step abs inv s t"
proof -
  have "raft_step abs inv s t" if "handleEvent env ops e u = Inr t" "vital u = vital s" for e u
    using that assms(1) handleEvent_step raft_ok_vital raft_step_vital_left by metis
  note core = this[of _ "s\<lparr>mAeRvQueue := q\<rparr>" for q] this[of _ "s\<lparr>mClientRequestsQueue := q\<rparr>" for q]
  show ?thesis
    using assms unfolding receiveMessage_def
    by (elim resE) (auto intro: raft_step_refl core)
qed

lemma advanceCommitIndex_step:
  assumes "raft_ok abs inv s" "advanceCommitIndex ops s = Inr t"
  shows "raft_step abs inv s t"
proof -
  have core: "raft_step abs inv s u"
    if "mLog u = mLog s" "mRaftRole u = mRaftRole s" "mCommitIndex s \<le> mCommitIndex u"
      "mCommitIndex u \<le> lo_getLastLogIndex ops (mLog s)" for u
    using that assms(1) by (auto simp: raft_step_def raft_ok_def raft_le_def last_law)
  show ?thesis
    using assms unfolding advanceCommitIndex_def
    by (elim resE) (auto intro: raft_step_refl intro!: core)
qed

text \<open>A new term with the vote for oneself is a step from any role but the syncer's.\<close>

lemma candidacy_step:
  assumes "raft_ok abs inv s" "mRaftRole t \<noteq> Syncer" "mCommitIndex t = mCommitIndex s"
    "mLog t = lo_setVoteFor ops v (lo_setCurrentTerm ops (lo_getCurrentTerm ops (mLog s) + 1) (mLog s))"
  shows "raft_step abs inv s t"
  using assms
  by (auto simp: raft_step_def raft_ok_def raft_le_def setCurrentTerm_law setVoteFor_law term_law vote_le_def)

lemma role_step:
  assumes "raft_ok abs inv s" "mRaftRole t \<noteq> Syncer" "mCommitIndex t = mCommitIndex s" "mLog t = mLog s"
  shows "raft_step abs inv s t"
  using assms by (auto simp: raft_step_def raft_ok_def raft_le_def)

lemma scheduleRVs_step:
  assumes "raft_step abs inv s u" "updateElectionTimePoint env u = Inr v" "foldR (scheduleRV env) ks v = Inr t"
  shows "raft_step abs inv s t"
  using assms(1) vital_updateElectionTimePoint[OF assms(2)] vital_foldR[OF assms(3) vital_scheduleRV]
  by (auto intro: raft_step_vital_right)

lemma becomeCandidate_step:
  assumes "raft_ok abs inv s" "becomeCandidate env ops s = Inr t"
  shows "raft_step abs inv s t"
proof -
  have core: "raft_step abs inv s (s\<lparr>mRaftRole := Candidate, mLeaderId := 0,
      mLog := lo_setVoteFor ops (selfId s) (lo_setCurrentTerm ops (lo_getCurrentTerm ops (mLog s) + 1) (mLog s))\<rparr>)"
    using assms(1) by (rule candidacy_step) simp_all
  show ?thesis
    using assms unfolding becomeCandidate_def
    by (elim resE) (use scheduleRVs_step[OF core] raft_step_refl in blast)+
qed

lemma raiseElection_step: "raft_ok abs inv s \<Longrightarrow> raft_step abs inv s (raiseElection ops s)"
  by (simp add: raiseElection_def candidacy_step role_step)

lemma electionTimeout_step:
  assumes "raft_ok abs inv s" "electionTimeout env ops s = Inr t"
  shows "raft_step abs inv s t"
proof -
  have "raft_ok abs inv (tick s)" using assms(1) by (simp add: raft_ok_def)
  then have core: "raft_step abs inv s (raiseElection ops (tick s))"
    by (rule raft_step_vital_left[OF raiseElection_step]) simp
  show ?thesis
    using assms unfolding electionTimeout_def
    by (elim resE) (auto intro: raft_step_refl raft_step_vital scheduleRVs_step[OF core])
qed

lemma becomeLeader_step:
  assumes "raft_ok abs inv s" "becomeLeader env ops s = Inr t"
  shows "raft_step abs inv s t"
proof -
  have core: "raft_step abs inv s (tick (u\<lparr>mLog := l\<rparr>))"
    if f: "foldR (scheduleHeartbeat env ops) ks (s\<lparr>mRaftRole := Leader, mLeaderId := i\<rparr>) = Inr u"
      and a: "lo_appendEntry ops e (mLog u) = Inr (l, b)" for ks i u e l b
  proof -
    have v: "mLog u = mLog s" "mCommitIndex u = mCommitIndex s" "mRaftRole u = Leader"
      using vital_foldR[OF f vital_scheduleHeartbeat] by (auto simp: vital_def)
    with appendEntry_law[OF _ a] assms(1) have "inv l" "abs l = al_append [e] (abs (mLog s)) \<or> abs l = abs (mLog s)"
      by (auto simp: raft_ok_def split: if_splits)
    then show ?thesis
      using assms(1) v ok_wf[OF assms(1)] log_le_append[OF ok_wf[OF assms(1)]]
      by (auto simp: raft_step_def raft_ok_def raft_le_def al_last_append vote_le_same)
  qed
  show ?thesis
    using assms unfolding becomeLeader_def
    by (elim resE) (auto intro: raft_step_refl core)
qed

lemma vital_getMajorityTimeElapse: "getMajorityTimeElapse env s = Inr (n, t) \<Longrightarrow> vital t = vital s"
  unfolding getMajorityTimeElapse_def getMajorityTimeElapseofInput_def
  by (elim resE) auto

lemma leadershipTimeout_step:
  assumes "raft_ok abs inv s" "leadershipTimeout env ops s = Inr t"
  shows "raft_step abs inv s t"
proof -
  have core: "raft_step abs inv s t" if "stepDown env ops n u = Inr t" "vital u = vital s" for n u
    using that assms(1) stepDown_step raft_ok_vital raft_step_vital_left by metis
  show ?thesis
    using assms unfolding leadershipTimeout_def
    by (elim resE) (auto intro: raft_step_refl raft_step_vital dest: core vital_getMajorityTimeElapse)
qed

lemma raftLoopBody_step:
  assumes "raft_ok abs inv s" "raftLoopBody env ops s = Inr t"
  shows "raft_step abs inv s t"
proof -
  have req: "raft_step abs inv s t" if "raft_ok abs inv s" "requestVote env ops s = Inr t" for s t
    using that by (intro raft_step_vital vital_requestVote)
  obtain s1 s2 s3 s4 s5 s6 s7 where r:
    "appendEntries env ops s = Inr s1" "requestVote env ops s1 = Inr s2" "receiveMessage env ops s2 = Inr s3"
    "advanceCommitIndex ops s3 = Inr s4" "becomeCandidate env ops s4 = Inr s5" "becomeLeader env ops s5 = Inr s6"
    "electionTimeout env ops s6 = Inr s7" "leadershipTimeout env ops s7 = Inr t"
    using assms(2) unfolding raftLoopBody_def by (elim resE) blast
  note 1 = appendEntries_step[OF assms(1) r(1)]
  note 2 = raft_step_next[where f = "requestVote env ops", OF 1 r(2) req]
  note 3 = raft_step_next[where f = "receiveMessage env ops", OF 2 r(3) receiveMessage_step]
  note 4 = raft_step_next[where f = "advanceCommitIndex ops", OF 3 r(4) advanceCommitIndex_step]
  note 5 = raft_step_next[where f = "becomeCandidate env ops", OF 4 r(5) becomeCandidate_step]
  note 6 = raft_step_next[where f = "becomeLeader env ops", OF 5 r(6) becomeLeader_step]
  note 7 = raft_step_next[where f = "electionTimeout env ops", OF 6 r(7) electionTimeout_step]
  show ?thesis by (rule raft_step_next[where f = "leadershipTimeout env ops", OF 7 r(8) leadershipTimeout_step])
qed

end

section \<open>Runs of a node\<close>

text \<open>
  Between two rounds of the main loop the other threads act on the object: the RPC server and
  clients and the application enqueue events, and the log is compacted up to a committed index.
\<close>

inductive node_step :: "raft_env \<Rightarrow> 'l log_ops \<Rightarrow> 'l raft_core \<Rightarrow> 'l raft_core \<Rightarrow> bool"
  for env ops where
  ns_loop: "raftLoopBody env ops s = Inr t \<Longrightarrow> node_step env ops s t"
| ns_aerv: "node_step env ops s (s\<lparr>mAeRvQueue := mAeRvQueue s @ [e]\<rparr>)"
| ns_client: "node_step env ops s (enqueueClientRequests rs s)"
| ns_sync: "node_step env ops s (enqueueSyncRequest q s)"
| ns_reconfigure: "node_step env ops s (enqueueReconfigureRequest i ci s)"
| ns_compact: "truncatePrefix ops k s = Inr t \<Longrightarrow> node_step env ops s t"

inductive_cases node_stepE: "node_step env ops s t"

lemma vital_enqueue [simp]:
  "vital (enqueueClientRequests rs s) = vital s" "vital (enqueueSyncRequest q s) = vital s"
  "vital (enqueueReconfigureRequest i ci s) = vital s"
  by (simp_all add: enqueueClientRequests_def enqueueSyncRequest_def enqueueReconfigureRequest_def)

context log_store
begin

lemma truncatePrefix_step:
  assumes "raft_ok abs inv s" "truncatePrefix ops k s = Inr t"
  shows "raft_step abs inv s t"
proof -
  from assms(2) obtain l where k: "k \<le> mCommitIndex s" and l: "lo_truncatePrefix ops k (mLog s) = Inr l"
    and t: "t = s\<lparr>mLog := l\<rparr>"
    unfolding truncatePrefix_def by (elim resE) auto
  have "k \<le> al_last (abs (mLog s))" using k assms(1) by (simp add: raft_ok_def)
  note pre = log_le_truncatePrefix[OF ok_wf[OF assms(1)] this]
  show ?thesis
    using truncatePrefix_law[OF _ l] assms(1) t pre
    by (auto simp: raft_step_def raft_ok_def raft_le_def vote_le_same)
qed

lemma node_step_step: "node_step env ops s t \<Longrightarrow> raft_ok abs inv s \<Longrightarrow> raft_step abs inv s t"
  by (erule node_stepE) (auto intro: raftLoopBody_step truncatePrefix_step raft_step_vital)

lemma node_run:
  assumes "(node_step env ops)\<^sup>*\<^sup>* s t" "raft_ok abs inv s"
  shows "raft_step abs inv s t"
  using assms
proof (induction rule: rtranclp_induct)
  case base
  then show ?case by (rule raft_step_refl)
next
  case (step t u)
  then show ?case using node_step_step raft_step_ok raft_step_trans by blast
qed

lemma node_run_commit:
  assumes "(node_step env ops)\<^sup>*\<^sup>* s t" "raft_ok abs inv s"
  shows "mCommitIndex s \<le> mCommitIndex t \<and> mCommitIndex t \<le> al_last (abs (mLog t)) \<and>
    (\<forall>i. al_has (abs (mLog s)) i \<and> i \<le> mCommitIndex s \<and> al_first (abs (mLog t)) \<le> i \<longrightarrow>
      al_has (abs (mLog t)) i \<and> al_at (abs (mLog t)) i = al_at (abs (mLog s)) i)"
  using node_run[OF assms] by (simp add: raft_step_def raft_ok_def raft_le_def log_le_def)

lemma node_run_vote:
  assumes "(node_step env ops)\<^sup>*\<^sup>* s t" "raft_ok abs inv s" "mRaftRole s \<noteq> Syncer"
  shows "lo_getCurrentTerm ops (mLog s) \<le> lo_getCurrentTerm ops (mLog t) \<and>
    (lo_getCurrentTerm ops (mLog s) = lo_getCurrentTerm ops (mLog t) \<and> lo_getVote ops (mLog s) \<noteq> 0 \<longrightarrow>
      lo_getVote ops (mLog t) = lo_getVote ops (mLog s))"
  using node_run[OF assms(1,2)] assms(2,3)
  by (auto simp: raft_step_def raft_ok_def raft_le_def vote_le_def term_law vote_law)

end

end
