(* ===== verification/Raft_Replication.thy ===== *)
theory Raft_Replication
  imports Raft_Core_Inv
begin

text \<open>
  Replication: what accepting an AppendEntries request does to a follower's log (with a
  reference definition of the merge), how the leader's view of a peer moves, what the leader
  commits, and what it appends for its clients.
\<close>

section \<open>The merge, as a specification\<close>

text \<open>
  Entries below the first index are skipped, entries that agree in their term are kept, and
  from the first conflicting or missing index on the request replaces the log.
\<close>

fun ae_merge :: "alog \<Rightarrow> log_entry list \<Rightarrow> alog" where
  "ae_merge a [] = a"
| "ae_merge a (e # es) =
     (if le_index e < al_first a then ae_merge a es
      else if le_index e \<le> al_last a
      then (if le_term e = le_term (al_at a (le_index e)) then ae_merge a es
            else al_append (e # es) (al_truncateSuffix (le_index e - 1) a))
      else al_append (e # es) a)"

text \<open>The log after the whole request: a higher term is adopted and clears the vote.\<close>

definition ae_result :: "alog \<Rightarrow> ae_request \<Rightarrow> alog" where
  "ae_result a q = (if al_term a < aeq_term q
     then (ae_merge a (aeq_entries q))\<lparr>al_term := aeq_term q, al_vote := 0\<rparr>
     else ae_merge a (aeq_entries q))"

lemma al_meta_simps [simp]:
  "al_at (a\<lparr>al_term := t\<rparr>) i = al_at a i" "al_at (a\<lparr>al_vote := v\<rparr>) i = al_at a i"
  "al_has (a\<lparr>al_term := t\<rparr>) i = al_has a i" "al_has (a\<lparr>al_vote := v\<rparr>) i = al_has a i"
  by (simp_all add: al_at_def al_has_def)

lemma al_append_meta:
  "al_append es (a\<lparr>al_term := t, al_vote := v\<rparr>) = (al_append es a)\<lparr>al_term := t, al_vote := v\<rparr>"
  "al_truncateSuffix k (a\<lparr>al_term := t, al_vote := v\<rparr>) = (al_truncateSuffix k a)\<lparr>al_term := t, al_vote := v\<rparr>"
  by (simp_all add: al_append_def al_truncateSuffix_def)

lemma ae_merge_meta:
  "ae_merge (a\<lparr>al_term := t, al_vote := v\<rparr>) es = (ae_merge a es)\<lparr>al_term := t, al_vote := v\<rparr>"
  by (induction es) (simp_all add: al_append_meta)

lemma ae_merge_term [simp]: "al_term (ae_merge a es) = al_term a" "al_vote (ae_merge a es) = al_vote a"
  by (induction es) simp_all

text \<open>One entry either is kept, or everything above the index before it is replaced.\<close>

lemma ae_merge_cases:
  assumes "alog_wf a" "n \<le> al_last a" "le_index e = n + 1"
  obtains (keep) "n + 1 \<le> al_last a" "ae_merge a (e # es) = ae_merge a es"
      "n + 1 < al_first a \<or> le_term e = le_term (al_at a (n + 1))"
    | (cut) b where "alog_wf b" "al_last b = n" "al_first b = al_first a"
      "ae_merge a (e # es) = al_append (e # es) b"
      "\<forall>i. al_has a i \<and> i \<le> n \<longrightarrow> al_has b i \<and> al_at b i = al_at a i"
proof -
  have le: "al_first a \<le> al_last a + 1" using assms(1) by (auto simp: alog_wf_def al_last_def)
  show thesis
  proof (cases "n + 1 \<le> al_last a")
    case True
    show thesis
    proof (cases "n + 1 < al_first a \<or> le_term e = le_term (al_at a (n + 1))")
      case True2: True
      with True assms(3) show thesis by (intro keep) auto
    next
      case False
      with True assms show thesis
        by (intro cut[of "al_truncateSuffix n a"])
           (auto simp: al_last_truncateSuffix al_first_truncateSuffix al_has_truncateSuffix al_at_truncateSuffix)
    qed
  next
    case False
    with assms le show thesis by (intro cut[of a]) auto
  qed
qed

lemma ae_merge_keeps:
  assumes "alog_wf a" "n \<le> al_last a" "consec (n + 1) es"
  shows "alog_wf (ae_merge a es) \<and> al_first (ae_merge a es) = al_first a \<and> n \<le> al_last (ae_merge a es) \<and>
    (\<forall>i. al_has a i \<and> i \<le> n \<longrightarrow> al_has (ae_merge a es) i \<and> al_at (ae_merge a es) i = al_at a i)"
  using assms
proof (induction es arbitrary: n)
  case (Cons e es)
  then have e: "le_index e = n + 1" and es: "consec (n + 1 + 1) es" by auto
  from Cons.prems(1,2) e show ?case
  proof (cases rule: ae_merge_cases[where es = es])
    case keep
    from Cons.IH[OF Cons.prems(1) keep(1) es] keep(2) show ?thesis by simp
  next
    case (cut b)
    have "alog_wf (al_append (e # es) b)" using cut(1,2) Cons.prems(3) by simp
    then show ?thesis
      using cut by (simp add: al_has_append al_at_append al_last_append)
  qed
qed simp

text \<open>After the merge the log agrees with every entry of the request it still covers.\<close>

lemma al_append_at:
  "alog_wf a \<Longrightarrow> j < length es \<Longrightarrow>
   al_has (al_append es a) (al_last a + 1 + j) \<and> al_at (al_append es a) (al_last a + 1 + j) = es ! j"
  by (auto simp: al_has_def al_last_append al_at_def al_last_def alog_wf_def nth_append)

lemma al_append_in:
  assumes "alog_wf b" "consec (al_last b + 1) es" "e \<in> set es"
  shows "al_has (al_append es b) (le_index e) \<and> al_at (al_append es b) (le_index e) = e"
proof -
  obtain j where j: "j < length es" "es ! j = e" using assms(3) by (auto simp: in_set_conv_nth)
  moreover have "le_index e = al_last b + 1 + j" using consec_nth[OF assms(2) j(1)] j(2) by simp
  ultimately show ?thesis using al_append_at[OF assms(1) j(1)] by simp
qed

lemma ae_merge_agrees:
  assumes "alog_wf a" "n \<le> al_last a" "consec (n + 1) es" "e \<in> set es" "al_first a \<le> le_index e"
  shows "al_has (ae_merge a es) (le_index e) \<and> le_term (al_at (ae_merge a es) (le_index e)) = le_term e"
  using assms
proof (induction es arbitrary: n)
  case (Cons x es)
  then have x: "le_index x = n + 1" and es: "consec (n + 1 + 1) es" by auto
  from Cons.prems(1,2) x show ?case
  proof (cases rule: ae_merge_cases[where es = es])
    case keep
    show ?thesis
    proof (cases "e \<in> set es")
      case True
      from Cons.IH[OF Cons.prems(1) keep(1) es True Cons.prems(5)] keep(2) show ?thesis by simp
    next
      case False
      then have "e = x" using Cons.prems(4) by simp
      then show ?thesis
        using ae_merge_keeps[OF Cons.prems(1) keep(1) es] keep x Cons.prems(5) by (auto simp: al_has_def)
    qed
  next
    case (cut b)
    then show ?thesis using al_append_in[OF cut(1) _ Cons.prems(4)] Cons.prems(3) by simp
  qed
qed simp

text \<open>A log that already agrees with the request is left alone, so a request can be repeated.\<close>

lemma ae_merge_id:
  assumes "\<And>e. e \<in> set es \<Longrightarrow> al_first a \<le> le_index e \<Longrightarrow>
      al_has a (le_index e) \<and> le_term (al_at a (le_index e)) = le_term e"
  shows "ae_merge a es = a"
  using assms by (induction es) (auto simp: al_has_def)

lemma ae_merge_idem:
  assumes "alog_wf a" "n \<le> al_last a" "consec (n + 1) es"
  shows "ae_merge (ae_merge a es) es = ae_merge a es"
proof (rule ae_merge_id)
  fix e assume "e \<in> set es" "al_first (ae_merge a es) \<le> le_index e"
  then show "al_has (ae_merge a es) (le_index e) \<and> le_term (al_at (ae_merge a es) (le_index e)) = le_term e"
    using ae_merge_agrees[OF assms, of e] ae_merge_keeps[OF assms] by simp
qed

section \<open>The handler implements the merge\<close>

context log_store
begin

text \<open>Once past the end of the log the loop collects the rest of the request.\<close>

lemma handleAE_collect:
  assumes "inv l" "al_last (abs l) \<le> n" "al_first (abs l) \<le> n + 1"
    and "foldR (handleAE_entry ops c) es (l, n, xs) = Inr (l', n', xs')"
  shows "l' = l \<and> xs' = xs @ es \<and> consec (n + 1) es"
  using assms
proof (induction es arbitrary: n xs)
  case (Cons e es)
  from Cons.prems(4) obtain l1 n1 xs1 where
    step: "handleAE_entry ops c e (l, n, xs) = Inr (l1, n1, xs1)"
    and rest: "foldR (handleAE_entry ops c) es (l1, n1, xs1) = Inr (l', n', xs')" by auto
  have "l1 = l \<and> n1 = n + 1 \<and> xs1 = xs @ [e] \<and> le_index e = n + 1"
    using step Cons.prems(1-3) unfolding handleAE_entry_def
    by (elim resE) (auto simp: first_law last_law)
  then show ?case using Cons.IH[of "n + 1" "xs @ [e]"] rest Cons.prems(1-3) by simp
qed simp

lemma handleAE_entry_cases:
  assumes "inv l" "n \<le> al_last (abs l)" "handleAE_entry ops c e (l, n, []) = Inr (l1, n1, xs1)"
  obtains (skip) "l1 = l" "n1 = n + 1" "xs1 = []" "le_index e = n + 1" "n + 1 \<le> al_last (abs l)"
      "\<And>es. ae_merge (abs l) (e # es) = ae_merge (abs l) es"
    | (take) "inv l1" "n1 = n + 1" "xs1 = [e]" "le_index e = n + 1" "al_last (abs l1) = n"
      "al_first (abs l1) \<le> n + 1" "\<And>es. ae_merge (abs l) (e # es) = al_append (e # es) (abs l1)"
proof -
  note wf = abs_wf[OF assms(1)]
  have le: "al_first (abs l) \<le> al_last (abs l) + 1" using wf by (auto simp: alog_wf_def al_last_def)
  let ?t = "le_term (al_at (abs l) (n + 1))"
  have e: "le_index e = n + 1"
    using assms(3) unfolding handleAE_entry_def by (elim resE) auto
  have "handleAE_entry ops c e (l, n, []) = (if n + 1 < al_first (abs l) then Inr (l, n + 1, [])
      else if n + 1 \<le> al_last (abs l)
      then bindR (getLogTerm ops (n + 1) l) (\<lambda>t. if le_term e = t then Inr (l, n + 1, [])
             else ensure (n + 1 > c) (bindR (lo_truncateSuffix ops n l) (\<lambda>l. Inr (l, n + 1, [e]))))
      else Inr (l, n + 1, [e]))"
    using assms(1) e by (simp add: handleAE_entry_def first_law last_law cong: if_cong)
  note body = this[symmetric, unfolded assms(3)]
  show thesis
  proof (cases "n + 1 < al_first (abs l)")
    case True
    with body le e show thesis by (intro skip) auto
  next
    case in_log: False
    show thesis
    proof (cases "n + 1 \<le> al_last (abs l)")
      case True
      have t: "getLogTerm ops (n + 1) l = Inr ?t"
        using getLogTerm_in[OF assms(1), of "n + 1"] True in_log by (simp add: al_has_def)
      show thesis
      proof (cases "le_term e = ?t")
        case same: True
        with body t in_log True e show thesis by (intro skip) auto
      next
        case False
        then have tr: "lo_truncateSuffix ops n l = Inr l1" "n1 = n + 1" "xs1 = [e]"
          using body t in_log True by auto
        have "inv l1" "abs l1 = al_truncateSuffix n (abs l)"
          using truncateSuffix_law[OF assms(1) _ tr(1)] in_log by auto
        with tr e wf False in_log True show thesis
          by (intro take) (auto simp: al_last_truncateSuffix al_first_truncateSuffix)
      qed
    next
      case False
      with body in_log e assms(1,2) show thesis by (intro take) auto
    qed
  qed
qed

lemma handleAE_entries_merge:
  assumes "inv l" "n \<le> al_last (abs l)" "foldR (handleAE_entry ops c) es (l, n, []) = Inr (l', n', xs')"
  shows "inv l' \<and> al_append xs' (abs l') = ae_merge (abs l) es \<and> consec (n + 1) es"
  using assms
proof (induction es arbitrary: n)
  case (Cons e es)
  from Cons.prems(3) obtain l1 n1 xs1 where
    step: "handleAE_entry ops c e (l, n, []) = Inr (l1, n1, xs1)"
    and rest: "foldR (handleAE_entry ops c) es (l1, n1, xs1) = Inr (l', n', xs')" by auto
  from Cons.prems(1,2) step show ?case
  proof (cases rule: handleAE_entry_cases)
    case skip
    then show ?thesis using Cons.IH[of "n + 1"] rest Cons.prems(1) by simp
  next
    case take
    then have "foldR (handleAE_entry ops c) es (l1, n + 1, [e]) = Inr (l', n', xs')" using rest by simp
    from handleAE_collect[OF take(1) _ _ this] take show ?thesis by simp
  qed
qed simp

lemma handleAE_accept_result:
  assumes "inv (mLog s)" "aeq_prev_log_index q \<le> al_last (abs (mLog s))"
    and "handleAE_accept env ops q r s = Inr (st, r', t)"
  shows "inv (mLog t) \<and> abs (mLog t) = ae_merge (abs (mLog s)) (aeq_entries q) \<and>
    consec (aeq_prev_log_index q + 1) (aeq_entries q) \<and>
    mCommitIndex t = max (mCommitIndex s) (aeq_commit_index q) \<and> st = GrpcOK \<and>
    r' = r\<lparr>aep_success := True, aep_last_log_index := lo_getLastLogIndex ops (mLog t),
           aep_match_index := aeq_prev_log_index q + length (aeq_entries q)\<rparr>"
proof -
  from assms(3) obtain l n xs l' u where
    f: "foldR (handleAE_entry ops (mCommitIndex s)) (aeq_entries q) (mLog s, aeq_prev_log_index q, []) = Inr (l, n, xs)"
    and a: "lo_appendEntries ops xs l = Inr (l', True)"
    and u: "u = s\<lparr>mLog := l', mCommitIndex := max (mCommitIndex s) (aeq_commit_index q)\<rparr>"
    and t: "updateElectionTimePoint env u = Inr t"
    and r: "st = GrpcOK" "r' = r\<lparr>aep_success := True, aep_last_log_index := lo_getLastLogIndex ops l',
           aep_match_index := aeq_prev_log_index q + length (aeq_entries q)\<rparr>"
    unfolding handleAE_accept_def
    by (elim resE) (auto simp: max_def)
  have m: "inv l" "al_append xs (abs l) = ae_merge (abs (mLog s)) (aeq_entries q)"
    "consec (aeq_prev_log_index q + 1) (aeq_entries q)"
    using handleAE_entries_merge[OF assms(1,2) f] by auto
  show ?thesis
    using m r append_all[OF m(1) a] vital_updateElectionTimePoint[OF t] u by (auto simp: vital_def)
qed

text \<open>Hearing from the leader changes nothing of the log but the term and the vote.\<close>

lemma stepDown_log:
  assumes "stepDown env ops n s = Inr t"
  shows "mCommitIndex t = mCommitIndex s \<and> mClusterMembers t = mClusterMembers s \<and>
    mLog t = (if lo_getCurrentTerm ops (mLog s) < n
              then lo_setVoteFor ops 0 (lo_setCurrentTerm ops n (mLog s)) else mLog s)"
  using assms unfolding stepDown_def
  by (elim resE) (auto elim!: updateElectionTimePoint_Inr)

lemma stepDown_abs:
  assumes "inv (mLog s)" "stepDown env ops n s = Inr t"
  shows "inv (mLog t) \<and> abs (mLog t) =
    (if al_term (abs (mLog s)) < n then (abs (mLog s))\<lparr>al_term := n, al_vote := 0\<rparr> else abs (mLog s))"
  using stepDown_log[OF assms(2)] assms(1) setCurrentTerm_law[OF assms(1), of n]
    setVoteFor_law[of "lo_setCurrentTerm ops n (mLog s)" 0]
  by (simp add: term_law)

lemma handleAE_hailLeader_log:
  assumes "inv (mLog s)" "handleAE_hailLeader env ops q s = Inr t" "lo_getCurrentTerm ops (mLog s) \<le> aeq_term q"
  shows "inv (mLog t) \<and> mCommitIndex t = mCommitIndex s \<and> mClusterMembers t = mClusterMembers s \<and>
    mLeaderId t = aeq_leader_id q \<and>
    abs (mLog t) = (if al_term (abs (mLog s)) < aeq_term q
                    then (abs (mLog s))\<lparr>al_term := aeq_term q, al_vote := 0\<rparr> else abs (mLog s))"
proof -
  obtain u v where u: "stepDown env ops (aeq_term q) s = Inr u \<or> u = s \<and> \<not> lo_getCurrentTerm ops (mLog s) < aeq_term q"
    and v: "updateElectionTimePoint env u = Inr v"
    and t: "t = v\<lparr>mLeaderId := aeq_leader_id q\<rparr> \<or> t = v \<and> mLeaderId v = aeq_leader_id q"
    using assms(2) unfolding handleAE_hailLeader_def Let_def by (elim resE) blast+
  have "inv (mLog u) \<and> mCommitIndex u = mCommitIndex s \<and> mClusterMembers u = mClusterMembers s \<and>
    abs (mLog u) = (if al_term (abs (mLog s)) < aeq_term q
                    then (abs (mLog s))\<lparr>al_term := aeq_term q, al_vote := 0\<rparr> else abs (mLog s))"
    using u
  proof
    assume d: "stepDown env ops (aeq_term q) s = Inr u"
    show ?thesis using stepDown_abs[OF assms(1) d] stepDown_log[OF d] by simp
  next
    assume "u = s \<and> \<not> lo_getCurrentTerm ops (mLog s) < aeq_term q"
    then show ?thesis using assms(1) by (simp add: term_law)
  qed
  with v t show ?thesis by (elim updateElectionTimePoint_Inr) auto
qed

lemma logIsOk_prev:
  assumes "inv (mLog s)" "handleAE_logIsOk ops q s = Inr True"
  shows "aeq_prev_log_index q \<le> al_last (abs (mLog s))"
  using assms abs_wf[OF assms(1)] unfolding handleAE_logIsOk_def
  by (elim resE) (auto simp: first_law last_law alog_wf_def al_last_def)

lemma handleAppendEntriesRequest_success:
  assumes "handleAppendEntriesRequest env ops q s = Inr (st, r, t)" "aep_success r"
  obtains u r' where "lo_getCurrentTerm ops (mLog s) \<le> aeq_term q" "mRaftRole s \<noteq> Syncer"
    "handleAE_hailLeader env ops q s = Inr u" "handleAE_logIsOk ops q u = Inr True"
    "handleAE_accept env ops q r' u = Inr (st, r, t)"
    "r' = \<lparr>aep_term = aeq_term q, aep_success = False, aep_id = selfId s, aep_saved_term = aeq_term q,
       aep_saved_prev_log_index = aeq_prev_log_index q, aep_last_log_index = lo_getLastLogIndex ops (mLog s),
       aep_match_index = 0\<rparr>"
  using assms unfolding handleAppendEntriesRequest_def Let_def
  by (elim resE) (auto simp: empty_ae_response_def)

lemma accept_result:
  assumes "inv (mLog s)" "handleAppendEntriesRequest env ops q s = Inr (st, r, t)" "aep_success r"
  shows "inv (mLog t) \<and> abs (mLog t) = ae_result (abs (mLog s)) q \<and>
    mCommitIndex t = max (mCommitIndex s) (aeq_commit_index q) \<and> st = GrpcOK \<and>
    aeq_prev_log_index q \<le> al_last (abs (mLog s)) \<and>
    consec (aeq_prev_log_index q + 1) (aeq_entries q) \<and>
    aep_match_index r = aeq_prev_log_index q + length (aeq_entries q) \<and>
    aep_last_log_index r = al_last (abs (mLog t)) \<and> aep_term r = aeq_term q"
proof -
  obtain u r' where h: "lo_getCurrentTerm ops (mLog s) \<le> aeq_term q" "handleAE_hailLeader env ops q s = Inr u"
    "handleAE_logIsOk ops q u = Inr True" "handleAE_accept env ops q r' u = Inr (st, r, t)" "aep_term r' = aeq_term q"
    using handleAppendEntriesRequest_success[OF assms(2,3)] by (metis (no_types, lifting) ae_response.select_convs(1))
  note u = handleAE_hailLeader_log[OF assms(1) h(2,1)]
  have iu: "inv (mLog u)" using u by blast
  have prev: "aeq_prev_log_index q \<le> al_last (abs (mLog u))" using logIsOk_prev[OF iu h(3)] .
  note t = handleAE_accept_result[OF iu prev h(4)]
  have "abs (mLog t) = ae_result (abs (mLog s)) q"
    using t u by (simp add: ae_result_def ae_merge_meta)
  moreover have "al_last (abs (mLog u)) = al_last (abs (mLog s))" using u by (simp add: al_last_def)
  ultimately show ?thesis using t u prev h(5) last_law[of "mLog t"] by simp
qed

lemma logIsOk_term:
  assumes "inv (mLog s)" "handleAE_logIsOk ops q s = Inr True" "al_first (abs (mLog s)) \<le> aeq_prev_log_index q"
  shows "le_term (al_at (abs (mLog s)) (aeq_prev_log_index q)) = aeq_prev_log_term q"
proof -
  have "al_has (abs (mLog s)) (aeq_prev_log_index q)"
    using assms(3) logIsOk_prev[OF assms(1,2)] by (simp add: al_has_def)
  then have "termOfLogEntryAt ops (aeq_prev_log_index q) s =
      Inr (le_term (al_at (abs (mLog s)) (aeq_prev_log_index q)))"
    using getTerm_in[OF assms(1)] by (simp add: termOfLogEntryAt_def getLogTerm_def)
  then show ?thesis
    using assms first_law[OF assms(1)] unfolding handleAE_logIsOk_def by (elim resE) auto
qed

lemma accept_consistent:
  assumes "inv (mLog s)" "handleAppendEntriesRequest env ops q s = Inr (st, r, t)" "aep_success r"
    and "al_first (abs (mLog s)) \<le> aeq_prev_log_index q"
  shows "lo_getTerm ops (aeq_prev_log_index q) (mLog s) = Inr (Some (aeq_prev_log_term q))"
proof -
  obtain u where h: "lo_getCurrentTerm ops (mLog s) \<le> aeq_term q" "handleAE_hailLeader env ops q s = Inr u"
    "handleAE_logIsOk ops q u = Inr True"
    using handleAppendEntriesRequest_success[OF assms(2,3)] by metis
  note u = handleAE_hailLeader_log[OF assms(1) h(2,1)]
  have same: "al_first (abs (mLog u)) = al_first (abs (mLog s))" "al_entries (abs (mLog u)) = al_entries (abs (mLog s))"
    and iu: "inv (mLog u)" using u by (auto split: if_splits)
  have "al_has (abs (mLog s)) (aeq_prev_log_index q)"
    using assms(4) logIsOk_prev[OF iu h(3)] same by (simp add: al_has_def al_last_def)
  moreover have "le_term (al_at (abs (mLog s)) (aeq_prev_log_index q)) = aeq_prev_log_term q"
    using logIsOk_term[OF iu h(3)] assms(4) same by (simp add: al_at_def)
  ultimately show ?thesis using getTerm_in[OF assms(1)] by simp
qed

lemma accept_agrees:
  assumes "inv (mLog s)" "handleAppendEntriesRequest env ops q s = Inr (st, r, t)" "aep_success r"
    and "e \<in> set (aeq_entries q)" "al_first (abs (mLog t)) \<le> le_index e"
  shows "lo_getTerm ops (le_index e) (mLog t) = Inr (Some (le_term e))"
proof -
  note a = accept_result[OF assms(1-3)]
  let ?a = "abs (mLog s)" and ?m = "ae_merge (abs (mLog s)) (aeq_entries q)"
  have wf: "alog_wf ?a" by (rule abs_wf[OF assms(1)])
  have prev: "aeq_prev_log_index q \<le> al_last ?a" and c: "consec (aeq_prev_log_index q + 1) (aeq_entries q)"
    and r: "abs (mLog t) = ae_result ?a q" and it: "inv (mLog t)" using a by blast+
  have "al_first ?a \<le> le_index e"
    using assms(5) ae_merge_keeps[OF wf prev c] r by (simp add: ae_result_def split: if_splits)
  note ag = ae_merge_agrees[OF wf prev c assms(4) this]
  have "al_has (abs (mLog t)) (le_index e)" "le_term (al_at (abs (mLog t)) (le_index e)) = le_term e"
    using ag r by (simp_all add: ae_result_def)
  then show ?thesis using getTerm_in[OF it] by simp
qed

lemma ae_result_idem:
  assumes "alog_wf a" "n \<le> al_last a" "consec (n + 1) (aeq_entries q)"
  shows "ae_result (ae_result a q) q = ae_result a q"
  using ae_merge_idem[OF assms] by (simp add: ae_result_def ae_merge_meta)

lemma accept_idempotent:
  assumes "inv (mLog s)" "handleAppendEntriesRequest env ops q s = Inr (st, r, t)" "aep_success r"
    and "handleAppendEntriesRequest env' ops q t = Inr (st', r', t')" "aep_success r'"
  shows "abs (mLog t') = abs (mLog t) \<and> mCommitIndex t' = mCommitIndex t \<and>
    aep_match_index r' = aep_match_index r \<and> aep_last_log_index r' = aep_last_log_index r"
proof -
  note 1 = accept_result[OF assms(1-3)]
  then have it: "inv (mLog t)" by blast
  note 2 = accept_result[OF it assms(4,5)]
  show ?thesis
    using 1 2 ae_result_idem[OF abs_wf[OF assms(1)], of "aeq_prev_log_index q" q] by simp
qed

end

text \<open>A request of an older term, or from a node that is no voter here, changes nothing.\<close>

lemma stale_request_rejected:
  assumes "aeq_term q < lo_getCurrentTerm ops (mLog s)" "isVoter (aeq_leader_id q) (members s) = Inr True"
  shows "\<exists>r. handleAppendEntriesRequest env ops q s = Inr (GrpcOK, r, s) \<and> \<not> aep_success r \<and>
    aep_term r = lo_getCurrentTerm ops (mLog s)"
  using assms by (simp add: handleAppendEntriesRequest_def)

section \<open>The leader's view of a peer\<close>

text \<open>
  The leader keeps \<open>matchIndex < nextIndex\<close> for every peer. A rejection of the ordinary kind
  (the follower did not lose its log, the leader's own log reaches back far enough) moves
  \<open>nextIndex\<close> strictly down and never to or below \<open>matchIndex\<close>.
\<close>

definition peer_ok :: "peer \<Rightarrow> bool" where
  "peer_ok p \<longleftrightarrow> p_mMatchIndex p < p_mNextIndex p"

lemma acceptedPeer_ok:
  "acceptedPeer r p = Inr p' \<Longrightarrow> peer_ok p' \<and> p_mMatchIndex p \<le> p_mMatchIndex p' \<and> p_mNextIndex p' = aep_match_index r + 1"
  by (auto simp: acceptedPeer_def peer_ok_def)

lemma rejectedPeer_ok:
  assumes "rejectedPeer ops r s p = Inr p'" "peer_ok p"
  shows "peer_ok p'"
  using assms unfolding rejectedPeer_def
  by (elim resE) (auto simp: peer_ok_def resetNextIndex_def)

lemma rejectedPeer_progress:
  assumes "rejectedPeer ops r s p = Inr p'" "peer_ok p" "0 < mMaxDecrStep s"
    and "p_mMatchIndex p \<le> aep_last_log_index r" "lo_getFirstLogIndex ops (mLog s) < p_mNextIndex p"
  shows "p_mMatchIndex p' = p_mMatchIndex p \<and> p_mMatchIndex p < p_mNextIndex p' \<and> p_mNextIndex p' < p_mNextIndex p"
  using assms unfolding rejectedPeer_def
  by (elim resE) (auto simp: peer_ok_def)

section \<open>Commit and client replies\<close>

lemma popCommitted_eq:
  "popCommitted c ps = (takeWhile (\<lambda>(i, h). i \<le> c) ps, dropWhile (\<lambda>(i, h). i \<le> c) ps)"
  by (induction c ps rule: popCommitted.induct) auto

text \<open>
  The leader moves its commit index only to an index that a quorum stores and whose entry is
  of its own term, it takes the largest stored one, and it answers exactly the requests at
  the front of the queue that are now committed.
\<close>

definition commits_to :: "'l log_ops \<Rightarrow> 'l raft_core \<Rightarrow> nat \<Rightarrow> bool" where
  "commits_to ops s c \<longleftrightarrow> mRaftRole s = Leader \<and> mCommitIndex s < c \<and> replicated ops s c \<and>
     (\<forall>w. replicated ops s w \<longrightarrow> w \<le> c) \<and>
     termOfLogEntryAt ops c s = Inr (lo_getCurrentTerm ops (mLog s)) \<and> c \<le> lo_getLastLogIndex ops (mLog s)"

lemma advanceCommitIndex_spec:
  assumes "advanceCommitIndex ops s = Inr t" "member_sets_ok (members s)"
  shows "t = s \<or>
    commits_to ops s (mCommitIndex t) \<and>
    t = s\<lparr>mCommitIndex := mCommitIndex t,
          mPendingClientRequests := dropWhile (\<lambda>(i, h). i \<le> mCommitIndex t) (mPendingClientRequests s),
          mEffects := mEffects s @ replyPending 200 ''Success'' (mLeaderId s)
             (takeWhile (\<lambda>(i, h). i \<le> mCommitIndex t) (mPendingClientRequests s))\<rparr>"
proof (cases "t = s")
  case False
  let ?t = "\<lambda>v. s\<lparr>mCommitIndex := v,
          mPendingClientRequests := dropWhile (\<lambda>(i, h). i \<le> v) (mPendingClientRequests s),
          mEffects := mEffects s @ replyPending 200 ''Success'' (mLeaderId s)
             (takeWhile (\<lambda>(i, h). i \<le> v) (mPendingClientRequests s))\<rparr>"
  note adv = assms(1)[unfolded advanceCommitIndex_def]
  have lead: "mRaftRole s = Leader" using adv False by (elim resE) simp_all
  obtain v where v: "getMajorityIndex ops s = Inr v" using adv lead by (elim resE) simp_all
  have lt: "mCommitIndex s < v" using adv False lead v by (cases "mCommitIndex s < v") simp_all
  obtain x where x: "termOfLogEntryAt ops v s = Inr x" using adv lead v lt by (elim resE) simp_all
  have trm: "x = lo_getCurrentTerm ops (mLog s)"
    using adv False lead v lt x by (cases "x = lo_getCurrentTerm ops (mLog s)") simp_all
  have last: "v \<le> lo_getLastLogIndex ops (mLog s)" and t: "t = ?t v"
    using adv lead v lt x trm by (simp_all add: popCommitted_eq Let_def)
  note v = v lead lt x[unfolded trm] last
  have "commits_to ops s v"
    using v getMajorityIndex_replicated[OF v(1) assms(2)] by (simp add: commits_to_def)
  with t show ?thesis by simp
qed simp

section \<open>Client requests\<close>

lemma acceptClientRequests_spec:
  "\<exists>acc. subseq acc reqs \<and> fold (acceptClientRequest t) reqs (n, ps, es) =
     (n + length acc, ps @ map (\<lambda>r. (le_index (cr_mEntry r), cr_mRequestHandle r)) acc, es @ map cr_mEntry acc) \<and>
     consec (n + 1) (map cr_mEntry acc) \<and> (\<forall>r \<in> set acc. le_term (cr_mEntry r) = t)"
proof (induction reqs arbitrary: n ps es)
  case (Cons r reqs)
  let ?ok = "le_term (cr_mEntry r) = t \<and> le_index (cr_mEntry r) = n + 1"
  show ?case
  proof (cases ?ok)
    case True
    obtain acc where acc: "subseq acc reqs"
      "fold (acceptClientRequest t) reqs (n + 1, ps @ [(le_index (cr_mEntry r), cr_mRequestHandle r)], es @ [cr_mEntry r]) =
        (n + 1 + length acc, (ps @ [(le_index (cr_mEntry r), cr_mRequestHandle r)]) @
           map (\<lambda>r. (le_index (cr_mEntry r), cr_mRequestHandle r)) acc, (es @ [cr_mEntry r]) @ map cr_mEntry acc)"
      "consec (n + 1 + 1) (map cr_mEntry acc)" "\<forall>r \<in> set acc. le_term (cr_mEntry r) = t"
      using Cons.IH[of "n + 1" "ps @ [(le_index (cr_mEntry r), cr_mRequestHandle r)]" "es @ [cr_mEntry r]"] by blast
    moreover have "acceptClientRequest t r (n, ps, es) =
        (n + 1, ps @ [(le_index (cr_mEntry r), cr_mRequestHandle r)], es @ [cr_mEntry r])"
      using True by (simp add: acceptClientRequest_def)
    ultimately show ?thesis using True by (intro exI[of _ "r # acc"]) simp
  next
    case False
    obtain acc where acc: "subseq acc reqs"
      "fold (acceptClientRequest t) reqs (n, ps, es) = (n + length acc, ps @
           map (\<lambda>r. (le_index (cr_mEntry r), cr_mRequestHandle r)) acc, es @ map cr_mEntry acc)"
      "consec (n + 1) (map cr_mEntry acc)" "\<forall>r \<in> set acc. le_term (cr_mEntry r) = t"
      using Cons.IH[of n ps es] by blast
    moreover have "acceptClientRequest t r (n, ps, es) = (n, ps, es)"
      using False by (simp add: acceptClientRequest_def)
    ultimately show ?thesis by (intro exI[of _ acc]) (auto intro: list_emb_Cons)
  qed
qed simp

context log_store_total
begin

lemma handleClientRequests_leader:
  assumes "inv (mLog s)" "mRaftRole s = Leader" "\<And>acc. subseq acc reqs \<Longrightarrow> fits (map cr_mEntry acc) (mLog s)"
  shows "\<exists>acc t. handleClientRequests ops reqs s = Inr t \<and> subseq acc reqs \<and> inv (mLog t) \<and>
    abs (mLog t) = al_append (map cr_mEntry acc) (abs (mLog s)) \<and>
    (\<forall>r \<in> set acc. le_term (cr_mEntry r) = lo_getCurrentTerm ops (mLog s)) \<and>
    t = s\<lparr>mLog := mLog t, mPendingClientRequests := mPendingClientRequests s @
      map (\<lambda>r. (le_index (cr_mEntry r), cr_mRequestHandle r)) acc\<rparr>"
proof -
  obtain acc where acc: "subseq acc reqs"
    "fold (acceptClientRequest (lo_getCurrentTerm ops (mLog s))) reqs
       (lo_getLastLogIndex ops (mLog s), mPendingClientRequests s, []) =
     (lo_getLastLogIndex ops (mLog s) + length acc, mPendingClientRequests s @
       map (\<lambda>r. (le_index (cr_mEntry r), cr_mRequestHandle r)) acc, map cr_mEntry acc)"
    "consec (al_last (abs (mLog s)) + 1) (map cr_mEntry acc)"
    "\<forall>r \<in> set acc. le_term (cr_mEntry r) = lo_getCurrentTerm ops (mLog s)"
    using acceptClientRequests_spec[of reqs "lo_getCurrentTerm ops (mLog s)" "lo_getLastLogIndex ops (mLog s)"
        "mPendingClientRequests s" "[]"] last_law[OF assms(1)] by auto
  obtain l where l: "lo_appendEntries ops (map cr_mEntry acc) (mLog s) = Inr (l, True)"
    using appendEntries_total[OF assms(1) assms(3)[OF acc(1)] acc(3)] by blast
  show ?thesis
    using acc l append_all[OF assms(1) l] assms(2)
    by (intro exI[of _ acc] exI[of _ "s\<lparr>mLog := l, mPendingClientRequests := mPendingClientRequests s @
      map (\<lambda>r. (le_index (cr_mEntry r), cr_mRequestHandle r)) acc\<rparr>"]) (simp add: handleClientRequests_def)
qed

end

section \<open>Becoming leader\<close>

lemma foldR_peers:
  assumes "foldR f ks s = Inr t"
    and "\<And>k s t. f k s = Inr t \<Longrightarrow> \<exists>p. map_of (peers t) = (map_of (peers s))(k \<mapsto> p) \<and> Q p"
  shows "\<forall>k. (k \<in> set ks \<longrightarrow> (\<exists>p. map_of (peers t) k = Some p \<and> Q p)) \<and>
     (k \<notin> set ks \<longrightarrow> map_of (peers t) k = map_of (peers s) k)"
  using assms(1)
proof (induction ks arbitrary: s)
  case (Cons k ks)
  then obtain u where u: "f k s = Inr u" "foldR f ks u = Inr t" by auto
  from assms(2)[OF u(1)] obtain p where p: "map_of (peers u) = (map_of (peers s))(k \<mapsto> p)" "Q p" by blast
  from Cons.IH[OF u(2)] p show ?case by (cases "k \<in> set ks") auto
qed simp

text \<open>Every peer starts from the end of the leader's log, with nothing known to match.\<close>

definition fresh_peer :: "nat \<Rightarrow> peer \<Rightarrow> bool" where
  "fresh_peer lastIndex p \<longleftrightarrow> p_mMatchIndex p = 0 \<and> p_mNextIndex p = lastIndex + 1 \<and> p_mSuppressBulkData p"

lemma scheduleHeartbeat_peer:
  "scheduleHeartbeat env ops k s = Inr t \<Longrightarrow>
   mLog t = mLog s \<and> (\<exists>p. map_of (peers t) = (map_of (peers s))(k \<mapsto> p) \<and> fresh_peer (lo_getLastLogIndex ops (mLog s)) p)"
  by (auto simp: scheduleHeartbeat_def fresh_peer_def)

lemma scheduleHeartbeats_peers:
  assumes "foldR (scheduleHeartbeat env ops) ks s = Inr t"
  shows "\<forall>k \<in> set ks. \<exists>p. map_of (peers t) k = Some p \<and> fresh_peer (lo_getLastLogIndex ops (mLog s)) p"
  using assms
proof (induction ks arbitrary: s)
  case (Cons k ks)
  then obtain u where u: "scheduleHeartbeat env ops k s = Inr u" "foldR (scheduleHeartbeat env ops) ks u = Inr t" by auto
  note 1 = scheduleHeartbeat_peer[OF u(1)]
  have keep: "map_of (peers t) k = map_of (peers u) k" if "k \<notin> set ks"
    using foldR_peers[OF u(2), where Q = "\<lambda>p. True"] scheduleHeartbeat_peer that by blast
  from Cons.IH[OF u(2)] 1 keep show ?case by (cases "k \<in> set ks") auto
qed simp

context log_store
begin

lemma becomeLeader_spec:
  assumes "inv (mLog s)" "becomeLeader env ops s = Inr t" "mRaftRole s = Candidate" "mRaftRole t = Leader"
    and "member_sets_ok (members s)"
  shows "elected s \<and> mLeaderId t = selfId s \<and>
    (\<exists>n. abs (mLog t) = al_append [noop_entry (lo_getLatestSecKeyVersion ops (mLog s)) (al_term (abs (mLog s)))
        (al_last (abs (mLog s)) + 1) n] (abs (mLog s))) \<and>
    (\<forall>k \<in> fst ` set (peers s). \<exists>p. map_of (peers t) k = Some p \<and> fresh_peer (al_last (abs (mLog s))) p)"
proof -
  let ?s = "s\<lparr>mRaftRole := Leader, mLeaderId := selfId s\<rparr>"
  obtain u l where c: "checkVotePass s = Inr True"
    and u: "foldR (scheduleHeartbeat env ops) (map fst (peers s)) ?s = Inr u"
    and l: "lo_appendEntry ops (noop_entry (lo_getLatestSecKeyVersion ops (mLog u)) (lo_getCurrentTerm ops (mLog u))
              (lo_getLastLogIndex ops (mLog u) + 1) (currentTimeInNanos env u)) (mLog u) = Inr (l, True)"
    and t: "t = tick (u\<lparr>mLog := l\<rparr>)"
    using assms(2-4) unfolding becomeLeader_def Let_def by (elim resE) auto
  have v: "mLog u = mLog s" using vital_foldR[OF u vital_scheduleHeartbeat] by (simp add: vital_def)
  have lead: "mLeaderId u = selfId s"
  proof -
    have "mLeaderId u = mLeaderId ?s"
      using u by (rule foldR_invariant) (auto simp: scheduleHeartbeat_def)
    then show ?thesis by simp
  qed
  have "elected s" using checkVotePass_elected[OF c assms(5)] by simp
  then show ?thesis
    using appendEntry_law[OF _ l] v lead t assms(1) scheduleHeartbeats_peers[OF u]
    by (auto simp: term_law last_law)
qed

end

end
