(* ===== verification/Raft_Ballot.thy ===== *)
theory Raft_Ballot
  imports Raft_Replication
begin

text \<open>
  What one call of the main loop may do to the state of the elections: the roles, the terms and
  votes in the log, the votes a candidate holds, and the vote messages that come and go. The
  membership is fixed here: reconfiguration requests are left out.
\<close>

section \<open>What an election depends on\<close>

text \<open>The fixed part of the membership, the votes held, the mail, and the vote messages sent.\<close>

type_synonym fixed_members = "member_info \<times> (nat \<times> raft_role) list \<times> nat list \<times> nat list \<times> nat list \<times> (nat \<times> nat) list"

definition conf :: "'l raft_core \<Rightarrow> fixed_members" where
  "conf s = (ms_mSelfInfo (members s), ms_mInitialRoles (members s), ms_mOldMembers (members s),
     ms_mNewMembers (members s), ms_mInsyncLearners (members s), map (\<lambda>(k, p). (k, p_mId p)) (peers s))"

definition held :: "'l raft_core \<Rightarrow> nat set" where
  "held s = {k. \<exists>p. map_of (peers s) k = Some p \<and> p_mHaveVote p}"

definition mail :: "'l raft_core \<Rightarrow> raft_event set" where
  "mail s = set (mAeRvQueue s) \<union> set (mClientRequestsQueue s)"

fun is_rv :: "effect \<Rightarrow> bool" where
  "is_rv (SendRV p q) = True"
| "is_rv (ReplyRV n st r) = True"
| "is_rv _ = False"

definition rv_out :: "'l raft_core \<Rightarrow> effect set" where
  "rv_out s = {e \<in> set (mEffects s). is_rv e}"

definition desk :: "'l raft_core \<Rightarrow> fixed_members \<times> nat set \<times> raft_event set \<times> effect set" where
  "desk s = (conf s, held s, mail s, rv_out s)"

lemmas desk_defs = desk_def conf_def held_def mail_def rv_out_def

lemma conf_selfId: "conf t = conf s \<Longrightarrow> selfId t = selfId s"
  by (simp add: conf_def)

lemma conf_keys: "conf t = conf s \<Longrightarrow> map fst (peers t) = map fst (peers s)"
proof -
  assume "conf t = conf s"
  then have "map fst (map (\<lambda>(k, p). (k, p_mId p)) (peers t)) = map fst (map (\<lambda>(k, p). (k, p_mId p)) (peers s))"
    by (simp add: conf_def)
  then show ?thesis by (simp add: comp_def case_prod_beta)
qed

lemma conf_om_ok: "conf t = conf s \<Longrightarrow> om_ok (peers t) = om_ok (peers s)"
  using conf_keys[of t s] by simp

lemma desk_simps [simp]:
  "desk (tick s) = desk s" "desk (s\<lparr>mLog := l\<rparr>) = desk s" "desk (s\<lparr>mLeaderId := i\<rparr>) = desk s"
  "desk (s\<lparr>mRaftRole := r\<rparr>) = desk s" "desk (s\<lparr>mCommitIndex := c\<rparr>) = desk s" "desk (s\<lparr>mBeginIndex := b\<rparr>) = desk s"
  "desk (s\<lparr>mPendingClientRequests := ps\<rparr>) = desk s"
  "desk (s\<lparr>mElectionTimePointInNano := n\<rparr>) = desk s" "desk (s\<lparr>mTick := n\<rparr>) = desk s"
  by (simp_all add: desk_defs tick_def)

lemma desk_emit: "\<not> is_rv e \<Longrightarrow> desk (emit e s) = desk s"
  by (auto simp: desk_defs emit_def)

lemma replyPending_not_rv: "e \<in> set (replyPending c m i ps) \<Longrightarrow> \<not> is_rv e"
  by (induction c m i ps rule: replyPending.induct) (auto split: option.splits)

lemma desk_replies [simp]: "desk (s\<lparr>mEffects := mEffects s @ replyPending c m i ps\<rparr>) = desk s"
  by (auto simp: desk_defs dest: replyPending_not_rv)

lemma desk_drainPending [simp]: "desk (drainPending msg s) = desk s"
  unfolding drainPending_def by (metis desk_replies desk_simps(7))

lemma om_upd_same_ids:
  "om_ok m \<Longrightarrow> map_of m k = Some p0 \<Longrightarrow> p_mId p = p_mId p0 \<Longrightarrow>
   map (\<lambda>(k, p). (k, p_mId p)) (om_upd k p m) = map (\<lambda>(k, p). (k, p_mId p)) m"
  by (induction k p m rule: om_upd.induct) (auto split: if_splits dest!: map_of_SomeD)

lemma conf_setPeer:
  assumes "om_ok (peers s)" "map_of (peers s) k = Some p0" "p_mId p = p_mId p0"
  shows "conf (setPeer k p s) = conf s"
  using om_upd_same_ids[OF assms] by (simp add: conf_def)

lemma held_setPeer: "held (setPeer k p s) = (if p_mHaveVote p then insert k (held s) else held s - {k})"
  by (auto simp: held_def split: if_splits)

lemma mail_setPeer [simp]: "mail (setPeer k p s) = mail s" "rv_out (setPeer k p s) = rv_out s"
  by (simp_all add: mail_def rv_out_def)

lemma desk_setPeer:
  assumes "om_ok (peers s)" "map_of (peers s) k = Some p0" "p_mId p = p_mId p0" "p_mHaveVote p = p_mHaveVote p0"
  shows "desk (setPeer k p s) = desk s"
  using assms conf_setPeer[OF assms(1-3)] by (auto simp: desk_def held_setPeer held_def)

text \<open>\<open>keeps s t\<close>: on a proper peer map, nothing of that changes.\<close>

definition keeps :: "'l raft_core \<Rightarrow> 'l raft_core \<Rightarrow> bool" where
  "keeps s t \<longleftrightarrow> (om_ok (peers s) \<longrightarrow> desk t = desk s)"

lemma keeps_desk: "desk t = desk s \<Longrightarrow> keeps s t"
  by (simp add: keeps_def)

lemma keeps_om_ok: "keeps s t \<Longrightarrow> om_ok (peers s) \<Longrightarrow> om_ok (peers t)"
  using conf_om_ok[of t s] by (simp add: keeps_def desk_def)

lemma keeps_trans [trans]: "keeps s t \<Longrightarrow> keeps t u \<Longrightarrow> keeps s u"
  using keeps_om_ok[of s t] by (simp add: keeps_def)

lemma keeps_setPeer:
  assumes "map_of (peers u) k = Some p0" "desk u = desk s" "p_mId p = p_mId p0" "p_mHaveVote p = p_mHaveVote p0"
  shows "keeps s (setPeer k p u)"
proof -
  have "keeps u (setPeer k p u)" using desk_setPeer[OF _ assms(1,3,4)] by (simp add: keeps_def)
  then show ?thesis using keeps_trans[OF keeps_desk[OF assms(2)]] by blast
qed

lemma desk_updateElectionTimePoint:
  "updateElectionTimePoint env s = Inr t \<Longrightarrow>
   desk t = desk s \<and> mRaftRole t = mRaftRole s \<and> mLog t = mLog s \<and> mClusterMembers t = mClusterMembers s"
  by (erule updateElectionTimePoint_Inr) simp

lemma keeps_foldR:
  assumes "foldR f xs s = Inr t" and "\<And>x u v. f x u = Inr v \<Longrightarrow> keeps u v"
  shows "keeps s t"
  using assms(1) by (rule foldR_invariant) (auto intro: keeps_trans keeps_desk dest: assms(2))

text \<open>\<open>calm s t\<close>: moreover the role of a candidate or leader is not new, nor is its term.\<close>

definition calm :: "('l \<Rightarrow> alog) \<Rightarrow> 'l raft_core \<Rightarrow> 'l raft_core \<Rightarrow> bool" where
  "calm ab s t \<longleftrightarrow> keeps s t \<and> (mRaftRole t = Candidate \<or> mRaftRole t = Leader \<longrightarrow>
     mRaftRole t = mRaftRole s \<and> al_term (ab (mLog t)) = al_term (ab (mLog s)))"

lemma calm_trans: "calm ab s t \<Longrightarrow> calm ab t u \<Longrightarrow> calm ab s u"
  by (auto simp: calm_def intro: keeps_trans)

lemma calm_same: "keeps s t \<Longrightarrow> mRaftRole t = mRaftRole s \<Longrightarrow> al_term (ab (mLog t)) = al_term (ab (mLog s)) \<Longrightarrow> calm ab s t"
  by (simp add: calm_def)

lemma calm_refl: "calm ab s s"
  by (simp add: calm_def keeps_def)

lemma calm_tick: "calm ab s (tick s)"
  by (simp add: calm_def keeps_def)

lemma keeps_scheduleHeartbeat: "scheduleHeartbeat env ops k s = Inr t \<Longrightarrow> keeps s t"
  unfolding scheduleHeartbeat_def by (elim resE) (auto intro!: keeps_setPeer)

lemma stepDown_role:
  assumes "stepDown env ops n s = Inr t"
  shows "desk t = desk s" "mRaftRole t \<noteq> Candidate" "mRaftRole t \<noteq> Leader"
proof -
  have "desk t = desk s \<and> mRaftRole t \<noteq> Candidate \<and> mRaftRole t \<noteq> Leader"
  proof (cases "mRaftRole s \<noteq> Learner \<and> mRaftRole s \<noteq> PreFollower")
    case True
    then show ?thesis
      using assms unfolding stepDown_def if_P[OF True] Let_def by (elim resE) (auto dest: desk_updateElectionTimePoint)
  next
    case False
    then show ?thesis
      using assms unfolding stepDown_def if_not_P[OF False] Let_def by (elim resE) (auto dest: desk_updateElectionTimePoint)
  qed
  then show "desk t = desk s" "mRaftRole t \<noteq> Candidate" "mRaftRole t \<noteq> Leader" by auto
qed

lemma calm_stepDown: "stepDown env ops n s = Inr t \<Longrightarrow> calm ab s t"
  using stepDown_role[of env ops n s t] by (simp add: calm_def keeps_desk)

context log_store
begin

lemma appendEntries_peer_same:
  assumes "inv (mLog s)" "appendEntries_peer env ops k s = Inr t"
  shows "inv (mLog t) \<and> abs (mLog t) = abs (mLog s) \<and> mRaftRole t = mRaftRole s \<and> keeps s t"
proof -
  have core: "inv l \<and> abs l = abs (mLog s)" if "lo_getEntries ops i m n (mLog s) = Inr (l, b, es)" for i m n l b es
    using getEntries_frame[OF assms(1) that] by simp
  show ?thesis
    using assms unfolding appendEntries_peer_def
    by (elim resE) (auto dest: core intro: keeps_desk intro!: keeps_setPeer simp: desk_emit)
qed

lemma appendEntries_calm:
  assumes "inv (mLog s)" "appendEntries env ops s = Inr t"
  shows "calm abs s t"
proof (cases "mRaftRole s = Leader")
  case True
  then have "foldR (appendEntries_peer env ops) (map fst (peers s)) s = Inr t"
    using assms(2) by (simp add: appendEntries_def)
  then have "inv (mLog t) \<and> abs (mLog t) = abs (mLog s) \<and> mRaftRole t = mRaftRole s \<and> keeps s t"
  proof (rule foldR_invariant)
    show "inv (mLog s) \<and> abs (mLog s) = abs (mLog s) \<and> mRaftRole s = mRaftRole s \<and> keeps s s"
      using assms(1) by (simp add: keeps_def)
  next
    fix k u v
    assume "inv (mLog u) \<and> abs (mLog u) = abs (mLog s) \<and> mRaftRole u = mRaftRole s \<and> keeps s u"
      and "appendEntries_peer env ops k u = Inr v"
    then show "inv (mLog v) \<and> abs (mLog v) = abs (mLog s) \<and> mRaftRole v = mRaftRole s \<and> keeps s v"
      using appendEntries_peer_same[of u env k v] keeps_trans[of s u v] by simp
  qed
  then show ?thesis by (simp add: calm_same)
qed (use assms in \<open>simp add: appendEntries_def calm_refl\<close>)

lemma handleAE_accept_calm:
  assumes "raft_ok abs inv s" "handleAE_accept env ops q r s = Inr (st, r', t)"
  shows "calm abs s t"
proof -
  have core: "calm abs s t"
    if f: "foldR (handleAE_entry ops (mCommitIndex s)) (aeq_entries q) (mLog s, aeq_prev_log_index q, []) = Inr (l, n, xs)"
      and a: "lo_appendEntries ops xs l = Inr (l', True)"
      and t: "updateElectionTimePoint env u = Inr t"
      and u: "desk u = desk s" "mRaftRole u = mRaftRole s" "mLog u = l'" for l n xs l' u
  proof -
    have l: "inv l" "al_term (abs l) = al_term (abs (mLog s))"
      using handleAE_entries_safe[OF _ _ f] assms(1) by (auto simp: raft_ok_def)
    show ?thesis
      using desk_updateElectionTimePoint[OF t] u append_all[OF l(1) a] l(2) by (simp add: calm_same keeps_desk)
  qed
  show ?thesis
    using assms(2) unfolding handleAE_accept_def by (elim resE) (auto elim!: core)
qed

lemma handleAE_hailLeader_calm:
  assumes "handleAE_hailLeader env ops q s = Inr t"
  shows "calm abs s t"
proof -
  obtain u v where u: "stepDown env ops (aeq_term q) s = Inr u \<or> u = s" and v: "updateElectionTimePoint env u = Inr v"
    and t: "t = v \<or> (\<exists>i. t = v\<lparr>mLeaderId := i\<rparr>)"
    using assms unfolding handleAE_hailLeader_def by (elim resE) auto
  have 1: "calm abs s u" using u calm_stepDown calm_refl by blast
  have 2: "calm abs u t" using desk_updateElectionTimePoint[OF v] t by (auto simp: calm_def keeps_desk)
  show ?thesis by (rule calm_trans[OF 1 2])
qed

lemma handleAppendEntriesRequest_calm:
  assumes "raft_ok abs inv s" "handleAppendEntriesRequest env ops q s = Inr (st, r, t)"
  shows "calm abs s t"
proof -
  have "t = s \<or> (\<exists>u r0. handleAE_hailLeader env ops q s = Inr u \<and> (t = u \<or> handleAE_accept env ops q r0 u = Inr (st, r, t)))"
    using assms(2) unfolding handleAppendEntriesRequest_def Let_def by (elim resE) auto
  then show ?thesis
    using calm_refl calm_trans handleAE_hailLeader_calm handleAE_accept_calm
      raft_step_ok[OF handleAE_hailLeader_step[OF assms(1)]] by blast
qed

lemma handleAppendEntriesResponse_calm:
  assumes "handleAppendEntriesResponse env ops r s = Inr t"
  shows "calm abs s t"
proof -
  have core: "calm abs s (setPeer (aep_id r) p' s)"
    if p: "map_of (peers s) (aep_id r) = Some p" and a: "acceptedPeer r p = Inr p' \<or> rejectedPeer ops r s p = Inr p'" for p p'
  proof -
    have "p_mId p' = p_mId p \<and> p_mHaveVote p' = p_mHaveVote p"
      using a unfolding acceptedPeer_def rejectedPeer_def by (elim disjE resE) auto
    with p show ?thesis by (intro calm_same) (auto intro: keeps_setPeer)
  qed
  show ?thesis
    using assms unfolding handleAppendEntriesResponse_def by (elim resE) (auto intro: calm_refl calm_stepDown core)
qed

text \<open>Both response branches first touch the peer's timers.\<close>

lemma calm_touch:
  assumes "map_of (peers s) k = Some p" "p_mId p' = p_mId p" "p_mHaveVote p' = p_mHaveVote p"
  shows "calm abs s (setPeer k p' (tick s))" "calm abs s (tick (setPeer k p' (tick s)))"
proof -
  show 1: "calm abs s (setPeer k p' (tick s))" using assms by (auto intro!: calm_same keeps_setPeer)
  show "calm abs s (tick (setPeer k p' (tick s)))"
    by (rule calm_trans[OF 1]) (simp add: calm_same keeps_desk)
qed

lemma handleAEResponseEvent_calm:
  assumes "handleAEResponseEvent env ops k ok r s = Inr t"
  shows "calm abs s t"
proof (cases "map_of (peers s) k")
  case (Some p)
  have "calm abs s t" if "handleAppendEntriesResponse env ops r (tick (setPeer k p' (tick s))) = Inr t"
      "p_mId p' = p_mId p" "p_mHaveVote p' = p_mHaveVote p" for p'
    using calm_trans[OF calm_touch(2)[OF Some that(2,3)] handleAppendEntriesResponse_calm[OF that(1)]] .
  then show ?thesis
    using assms Some calm_touch(1)[OF Some] unfolding handleAEResponseEvent_def Let_def by (cases ok) auto
qed (use assms in \<open>simp add: handleAEResponseEvent_def calm_refl\<close>)

section \<open>Votes given\<close>

lemma handleRV_decide_calm:
  assumes "inv (mLog s)" "handleRV_decide env ops q r s = Inr (st, r', t)"
  shows "calm abs s t"
proof -
  have core: "calm abs s t" if "updateElectionTimePoint env (s\<lparr>mLog := lo_setVoteFor ops v (mLog s)\<rparr>) = Inr t" for v
    using desk_updateElectionTimePoint[OF that] setVoteFor_law[OF assms(1)] by (simp add: calm_same keeps_desk)
  have "calm abs s t" if "handleRV_noLeader env s = (b, t)" for b
    using that by (auto simp: handleRV_noLeader_def intro: calm_refl calm_tick split: if_splits)
  then show ?thesis
    using assms(2) core unfolding handleRV_decide_def by (elim resE) (auto intro: calm_refl)
qed

lemma handleRequestVoteRequest_calm:
  assumes "inv (mLog s)" "handleRequestVoteRequest env ops q s = Inr (st, r, t)"
  shows "calm abs s t"
proof -
  have "calm abs s t" if "stepDown env ops n s = Inr u" "handleRV_decide env ops q r0 u = Inr (st, r, t)" for n u r0
    using calm_trans[OF calm_stepDown[OF that(1)] handleRV_decide_calm[OF _ that(2)]] stepDown_abs[OF assms(1) that(1)] by blast
  then show ?thesis
    using assms handleRV_decide_calm[OF assms(1)] unfolding handleRequestVoteRequest_def
    by (elim resE) (auto intro: calm_refl)
qed

text \<open>A granted vote is on record: the answer names the voter and the term, the log the candidate.\<close>

lemma handleRV_decide_grant:
  assumes "inv (mLog s)" "handleRV_decide env ops q r s = Inr (st, r', t)" "rvp_vote_granted r'"
    and "\<not> rvq_prevote q" "\<not> rvp_vote_granted r"
  shows "rvp_id r' = rvp_id r \<and> rvp_saved_term r' = rvp_saved_term r \<and> rvp_prevote r' = rvp_prevote r \<and>
    al_term (abs (mLog t)) = al_term (abs (mLog s)) \<and> al_vote (abs (mLog t)) = rvq_candidate_id q"
proof -
  have core: "mLog t = lo_setVoteFor ops v (mLog s)"
    if "updateElectionTimePoint env (s\<lparr>mLog := lo_setVoteFor ops v (mLog s)\<rparr>) = Inr t" for v
    using desk_updateElectionTimePoint[OF that] by simp
  show ?thesis
    using assms(2-5) setVoteFor_law[OF assms(1)] unfolding handleRV_decide_def
    by (elim resE) (auto dest!: core)
qed

lemma handleRV_decide_prevote:
  "handleRV_decide env ops q r s = Inr (st, r', t) \<Longrightarrow> rvp_prevote r' = rvp_prevote r"
  unfolding handleRV_decide_def by (elim resE) auto

lemma handleRequestVoteRequest_grant:
  assumes "inv (mLog s)" "handleRequestVoteRequest env ops q s = Inr (st, r, t)"
    and "rvp_vote_granted r" "\<not> rvp_prevote r"
  shows "rvp_id r = selfId s \<and> rvp_saved_term r = al_term (abs (mLog t)) \<and> al_vote (abs (mLog t)) = rvq_candidate_id q"
proof -
  let ?r = "\<lparr>rvp_term = lo_getCurrentTerm ops (mLog s), rvp_vote_granted = False, rvp_id = selfId s,
            rvp_saved_term = rvq_term q, rvp_prevote = rvq_prevote q\<rparr>"
  have "(\<exists>u. stepDown env ops (rvq_term q) s = Inr u \<and> lo_getCurrentTerm ops (mLog s) < rvq_term q \<and>
        handleRV_decide env ops q (?r\<lparr>rvp_term := rvq_term q\<rparr>) u = Inr (st, r, t)) \<or>
      (rvq_prevote q \<or> rvq_term q = lo_getCurrentTerm ops (mLog s)) \<and> handleRV_decide env ops q ?r s = Inr (st, r, t)"
    using assms(2,3) unfolding handleRequestVoteRequest_def Let_def by (elim resE) auto
  then obtain u r0 where u: "inv (mLog u)" "rvq_prevote q \<or> rvq_term q = al_term (abs (mLog u))"
    and d: "handleRV_decide env ops q r0 u = Inr (st, r, t)"
    and r0: "rvp_id r0 = selfId s" "rvp_saved_term r0 = rvq_term q" "rvp_prevote r0 = rvq_prevote q" "\<not> rvp_vote_granted r0"
  proof (elim disjE exE conjE)
    fix u assume 1: "stepDown env ops (rvq_term q) s = Inr u" "lo_getCurrentTerm ops (mLog s) < rvq_term q"
      "handleRV_decide env ops q (?r\<lparr>rvp_term := rvq_term q\<rparr>) u = Inr (st, r, t)"
    show thesis using that[OF _ _ 1(3)] stepDown_abs[OF assms(1) 1(1)] 1(2) by (simp add: term_law assms(1))
  next
    assume 2: "handleRV_decide env ops q ?r s = Inr (st, r, t)" "rvq_prevote q"
    show thesis using that[OF assms(1) _ 2(1)] 2(2) by simp
  next
    assume 2: "handleRV_decide env ops q ?r s = Inr (st, r, t)" "rvq_term q = lo_getCurrentTerm ops (mLog s)"
    show thesis using that[OF assms(1) _ 2(1)] 2(2) by (simp add: term_law assms(1))
  qed
  have "\<not> rvq_prevote q" using handleRV_decide_prevote[OF d] r0(3) assms(4) by simp
  then show ?thesis
    using handleRV_decide_grant[OF u(1) d assms(3) _ r0(4)] r0 u(2) by simp
qed

end

section \<open>The calls of the main loop\<close>

text \<open>
  \<open>ballot_step ab M s t\<close>: what a call may do to the state of the elections, where \<open>M\<close> is the
  mail it may read. New vote requests name the node itself; a new answer that grants a vote
  stands for the vote in the log; a candidate is an old one that counts votes answered to it in
  this term, or a new one that holds none; a leader is an old one or an elected candidate.
\<close>

fun sent_ok :: "('l \<Rightarrow> alog) \<Rightarrow> raft_event set \<Rightarrow> 'l raft_core \<Rightarrow> 'l raft_core \<Rightarrow> effect \<Rightarrow> bool" where
  "sent_ok ab M s t (SendRV p q) \<longleftrightarrow> rvq_candidate_id q = selfId s"
| "sent_ok ab M s t (ReplyRV n st r) \<longleftrightarrow> (rvp_vote_granted r \<and> \<not> rvp_prevote r \<longrightarrow>
     rvp_id r = selfId s \<and> rvp_saved_term r = al_term (ab (mLog t)) \<and>
     (\<exists>q. RequestVoteRequestEvent n q \<in> M \<and> rvq_candidate_id q = al_vote (ab (mLog t))))"
| "sent_ok ab M s t _ \<longleftrightarrow> True"

definition answered :: "raft_event set \<Rightarrow> nat \<Rightarrow> nat \<Rightarrow> bool" where
  "answered M n k \<longleftrightarrow> (\<exists>p r. RequestVoteResponseEvent p True r \<in> M \<and> rvp_vote_granted r \<and> \<not> rvp_prevote r \<and>
     rvp_saved_term r = n \<and> rvp_id r = k)"

definition ballot_step :: "('l \<Rightarrow> alog) \<Rightarrow> raft_event set \<Rightarrow> 'l raft_core \<Rightarrow> 'l raft_core \<Rightarrow> bool" where
  "ballot_step ab M s t \<longleftrightarrow> conf t = conf s \<and> mail t \<subseteq> M \<and> (\<forall>e \<in> rv_out t - rv_out s. sent_ok ab M s t e) \<and>
     (mRaftRole t = Candidate \<longrightarrow>
        mRaftRole s = Candidate \<and> al_term (ab (mLog t)) = al_term (ab (mLog s)) \<and>
          (\<forall>k \<in> held t - held s. answered M (al_term (ab (mLog s))) k) \<or>
        held t = {} \<and> al_vote (ab (mLog t)) = selfId s) \<and>
     (mRaftRole t = Leader \<longrightarrow> al_term (ab (mLog t)) = al_term (ab (mLog s)) \<and>
        (mRaftRole s = Leader \<or> mRaftRole s = Candidate \<and> elected s))"

lemma calm_ballot_step: "calm ab s t \<Longrightarrow> om_ok (peers s) \<Longrightarrow> mail s \<subseteq> M \<Longrightarrow> ballot_step ab M s t"
  by (auto simp: calm_def keeps_def desk_def ballot_step_def)

lemma requestVote_peer_ballot:
  assumes "requestVote_peer env ops k s = Inr t" "om_ok (peers s)"
  shows "conf t = conf s \<and> held t = held s \<and> mail t = mail s \<and>
    (\<forall>e \<in> rv_out t - rv_out s. \<exists>p q. e = SendRV p q \<and> rvq_candidate_id q = selfId s)"
proof -
  have core: "conf (setPeer k p' (tick (emit (SendRV i q) (tick s)))) = conf s \<and>
      held (setPeer k p' (tick (emit (SendRV i q) (tick s)))) = held s \<and>
      mail (setPeer k p' (tick (emit (SendRV i q) (tick s)))) = mail s \<and>
      rv_out (setPeer k p' (tick (emit (SendRV i q) (tick s)))) \<subseteq> insert (SendRV i q) (rv_out s)"
    if "map_of (peers s) k = Some p" "p_mId p' = p_mId p" "p_mHaveVote p' = p_mHaveVote p" for p p' i q
    using om_upd_same_ids[OF assms(2) that(1,2)] that(1,3)
    by (auto simp: conf_def held_def mail_def rv_out_def emit_def split: if_splits)
  have tick: "conf (tick s) = conf s" "held (tick s) = held s" "mail (tick s) = mail s" "rv_out (tick s) = rv_out s"
    using desk_simps(1)[of s] by (simp_all add: desk_def)
  show ?thesis
    using assms(1) unfolding requestVote_peer_def
    by (elim resE) (use core in \<open>fastforce simp: tick\<close>)+
qed

lemma requestVote_ballot:
  assumes "requestVote env ops s = Inr t" "om_ok (peers s)" "mail s \<subseteq> M"
  shows "ballot_step ab M s t"
proof (cases "mRaftRole s = Candidate \<or> mRaftRole s = PreCandidate")
  case True
  then have f: "foldR (requestVote_peer env ops) (map fst (peers s)) s = Inr t"
    using assms(1) by (auto simp: requestVote_def split: if_splits)
  let ?P = "\<lambda>u. conf u = conf s \<and> held u = held s \<and> mail u = mail s \<and>
    (\<forall>e \<in> rv_out u - rv_out s. \<exists>p q. e = SendRV p q \<and> rvq_candidate_id q = selfId s)"
  from f have "?P t"
  proof (rule foldR_invariant)
    fix k u v
    assume u: "?P u" and v: "requestVote_peer env ops k u = Inr v"
    have "om_ok (peers u)" using u assms(2) conf_om_ok[of u s] by simp
    note w = requestVote_peer_ballot[OF v this]
    moreover have "\<exists>p q. e = SendRV p q \<and> rvq_candidate_id q = selfId s" if "e \<in> rv_out v - rv_out s" for e
      using that w u conf_selfId[of u s] by (cases "e \<in> rv_out u") auto
    ultimately show "?P v" using u by auto
  qed simp
  moreover from this have "\<forall>e \<in> rv_out t - rv_out s. sent_ok ab M s t e" by (metis sent_ok.simps(1))
  moreover have "mRaftRole t = mRaftRole s" "mLog t = mLog s"
    using vital_eq[OF vital_requestVote[OF assms(1)]] by simp_all
  ultimately show ?thesis using assms(3) True by (simp add: ballot_step_def)
qed (use assms in \<open>auto simp: requestVote_def intro: calm_ballot_step calm_refl\<close>)

lemma scheduleRV_ballot:
  assumes "scheduleRV env k s = Inr t" "om_ok (peers s)"
  shows "conf t = conf s \<and> held t = held s - {k} \<and> mail t = mail s \<and> rv_out t = rv_out s"
proof -
  obtain p where p: "map_of (peers s) k = Some p"
    and t: "t = setPeer k (p\<lparr>p_mRequestVoteDone := False, p_mHaveVote := False,
              p_mNextRVRequestTimeInNano := currentTimeInNanos env s\<rparr>) (tick s)"
    using assms(1) unfolding scheduleRV_def by (elim resE) auto
  have "conf t = conf (tick s)" unfolding t using assms(2) p by (intro conf_setPeer[where ?p0.0 = p]) auto
  moreover have "conf (tick s) = conf s" "held (tick s) = held s" "mail (tick s) = mail s" "rv_out (tick s) = rv_out s"
    using desk_simps(1)[of s] by (simp_all add: desk_def)
  ultimately show ?thesis unfolding t by (simp add: held_setPeer)
qed

lemma held_keys: "held s \<subseteq> fst ` set (peers s)"
  by (force simp: held_def dest: map_of_SomeD)

text \<open>A round of vote requests starts with no votes.\<close>

lemma scheduleRVs_ballot:
  assumes "foldR (scheduleRV env) ks s = Inr t" "om_ok (peers s)"
  shows "conf t = conf s \<and> held t = held s - set ks \<and> mail t = mail s \<and> rv_out t = rv_out s \<and>
    mRaftRole t = mRaftRole s \<and> mLog t = mLog s"
  using assms
proof (induction ks arbitrary: s)
  case (Cons k ks)
  then obtain u where u: "scheduleRV env k s = Inr u" "foldR (scheduleRV env) ks u = Inr t" by auto
  note 1 = scheduleRV_ballot[OF u(1) Cons.prems(2)]
  have "om_ok (peers u)" using 1 Cons.prems(2) conf_om_ok[of u s] by simp
  from Cons.IH[OF u(2) this] 1 vital_eq[OF vital_scheduleRV[OF u(1)]] show ?case by auto
qed simp

lemma campaign_ballot:
  assumes "updateElectionTimePoint env u = Inr v" "foldR (scheduleRV env) (map fst (peers v)) v = Inr t"
    and "om_ok (peers u)"
  shows "conf t = conf u \<and> held t = {} \<and> mail t = mail u \<and> rv_out t = rv_out u \<and>
    mRaftRole t = mRaftRole u \<and> mLog t = mLog u"
proof -
  note 1 = desk_updateElectionTimePoint[OF assms(1)]
  have "om_ok (peers v)" using assms(3) 1 by simp
  from scheduleRVs_ballot[OF assms(2) this] 1 held_keys[of v] show ?thesis by (auto simp: desk_def)
qed

lemma desk_parts:
  assumes "desk t = desk s"
  shows "conf t = conf s" "held t = held s" "mail t = mail s" "rv_out t = rv_out s"
  using assms by (simp_all add: desk_def)

lemma desk_getMajorityTimeElapse: "getMajorityTimeElapse env s = Inr (n, t) \<Longrightarrow> desk t = desk s"
  unfolding getMajorityTimeElapse_def getMajorityTimeElapseofInput_def by (elim resE) auto

context log_store
begin

lemma becomeCandidate_ballot:
  assumes "inv (mLog s)" "becomeCandidate env ops s = Inr t" "om_ok (peers s)" "mail s \<subseteq> M"
  shows "ballot_step abs M s t"
proof -
  let ?l = "lo_setVoteFor ops (selfId s) (lo_setCurrentTerm ops (lo_getCurrentTerm ops (mLog s) + 1) (mLog s))"
  let ?u = "s\<lparr>mRaftRole := Candidate, mLeaderId := 0, mLog := ?l\<rparr>"
  have core: "ballot_step abs M s t"
    if "updateElectionTimePoint env ?u = Inr v" "foldR (scheduleRV env) (map fst (peers v)) v = Inr t" for v
  proof -
    have "om_ok (peers ?u)" using assms(3) by simp
    note c = campaign_ballot[OF that this]
    have d: "desk ?u = desk s" by simp
    have "al_vote (abs ?l) = selfId s"
      using setCurrentTerm_law[OF assms(1)] setVoteFor_law by simp
    with c desk_parts[OF d] assms(4) show ?thesis by (simp add: ballot_step_def)
  qed
  have refl: "ballot_step abs M s s" using calm_ballot_step[OF calm_refl] assms(3,4) by blast
  show ?thesis
    using assms(2) unfolding becomeCandidate_def by (elim resE) (use core refl in blast)+
qed

lemma electionTimeout_ballot:
  assumes "inv (mLog s)" "electionTimeout env ops s = Inr t" "om_ok (peers s)" "mail s \<subseteq> M"
  shows "ballot_step abs M s t"
proof -
  let ?u = "raiseElection ops (tick s)"
  have core: "ballot_step abs M s t"
    if "updateElectionTimePoint env ?u = Inr v" "foldR (scheduleRV env) (map fst (peers v)) v = Inr t" for v
  proof -
    have d: "desk ?u = desk s" by (simp add: raiseElection_def)
    have "om_ok (peers ?u)" using assms(3) by (simp add: raiseElection_def)
    note c = campaign_ballot[OF that this]
    have "mRaftRole ?u \<noteq> Leader" by (simp add: raiseElection_def)
    moreover have "al_vote (abs (mLog ?u)) = selfId s" if "mRaftRole ?u = Candidate"
      using setCurrentTerm_law[OF assms(1)] setVoteFor_law that by (simp add: raiseElection_def split: if_splits)
    ultimately show ?thesis using c desk_parts[OF d] assms(4) by (simp add: ballot_step_def)
  qed
  have refl: "ballot_step abs M s s" "ballot_step abs M s (tick s)"
    using calm_ballot_step[OF calm_refl] calm_ballot_step[OF calm_tick] assms(3,4) by blast+
  show ?thesis
    using assms(2) unfolding electionTimeout_def Let_def by (elim resE) (use core refl in blast)+
qed

lemma leadershipTimeout_ballot:
  assumes "leadershipTimeout env ops s = Inr t" "om_ok (peers s)" "mail s \<subseteq> M"
  shows "ballot_step abs M s t"
proof -
  have m: "calm abs s u" if "getMajorityTimeElapse env s = Inr (n, u)" for n u
    using desk_getMajorityTimeElapse[OF that] vital_eq[OF vital_getMajorityTimeElapse[OF that]]
    by (simp add: calm_same keeps_desk)
  have "calm abs s t"
    using assms(1) unfolding leadershipTimeout_def
    by (elim resE) (auto intro: calm_refl m calm_trans[OF m calm_stepDown])
  then show ?thesis using calm_ballot_step assms(2,3) by blast
qed

lemma advanceCommitIndex_calm:
  assumes "advanceCommitIndex ops s = Inr t"
  shows "calm abs s t"
proof -
  have d: "desk (s\<lparr>mCommitIndex := c, mPendingClientRequests := ps, mEffects := mEffects s @ replyPending n m i qs\<rparr>) = desk s"
    for c ps n m i qs
    using desk_replies[of "s\<lparr>mCommitIndex := c, mPendingClientRequests := ps\<rparr>" n m i qs] by simp
  show ?thesis
    using assms unfolding advanceCommitIndex_def
    by (elim resE) (auto intro: calm_refl intro!: calm_same keeps_desk simp: d)
qed

lemma handleClientRequests_calm:
  assumes "inv (mLog s)" "handleClientRequests ops rs s = Inr t"
  shows "calm abs s t"
proof -
  have core: "al_term (abs l) = al_term (abs (mLog s))" if "lo_appendEntries ops es (mLog s) = Inr (l, b)" for es l b
    using appendEntries_law[OF assms(1) that] by auto
  show ?thesis
    using assms unfolding handleClientRequests_def
    by (elim resE) (auto intro!: calm_same keeps_desk dest: core)
qed

lemma becomeLeader_ballot:
  assumes "inv (mLog s)" "becomeLeader env ops s = Inr t" "om_ok (peers s)" "mail s \<subseteq> M" "member_sets_ok (members s)"
  shows "ballot_step abs M s t"
proof (cases "mRaftRole s = Candidate \<and> checkVotePass s = Inr True")
  case True
  let ?s = "s\<lparr>mRaftRole := Leader, mLeaderId := selfId s\<rparr>"
  obtain u e l where u: "foldR (scheduleHeartbeat env ops) (map fst (peers s)) ?s = Inr u"
    and l: "lo_appendEntry ops e (mLog u) = Inr (l, True)" and t: "t = tick (u\<lparr>mLog := l\<rparr>)"
    using assms(2) True unfolding becomeLeader_def Let_def by (elim resE) auto
  have v: "mLog u = mLog s" "mRaftRole u = Leader"
    using vital_eq[OF vital_foldR[OF u vital_scheduleHeartbeat]] by simp_all
  have "keeps ?s u" using keeps_foldR[OF u keeps_scheduleHeartbeat] .
  then have d: "desk t = desk s" using assms(3) t by (simp add: keeps_def)
  have "al_term (abs l) = al_term (abs (mLog s))" using appendEntry_law[OF _ l] v assms(1) by simp
  moreover have "elected s" using True checkVotePass_elected assms(5) by blast
  ultimately show ?thesis
    using True v t assms(4) desk_parts[OF d] by (simp add: ballot_step_def)
next
  case False
  then have "t = s" using assms(2) unfolding becomeLeader_def by (elim resE) auto
  then show ?thesis using calm_ballot_step[OF calm_refl] assms(3,4) by blast
qed

lemma handleRequestVoteResponse_ballot:
  assumes "inv (mLog s)" "handleRequestVoteResponse env ops r s = Inr t" "om_ok (peers s)" "mail s \<subseteq> M"
    and "RequestVoteResponseEvent k True r \<in> M"
  shows "ballot_step abs M s t"
proof -
  have calm: "ballot_step abs M s t" if "calm abs s t" for t
    using calm_ballot_step[OF that] assms(3,4) by blast
  have core: "ballot_step abs M s (setPeer (rvp_id r) p' s)"
    if p: "map_of (peers s) (rvp_id r) = Some p" "p_mId p' = p_mId p"
        "p_mHaveVote p' = (p_mHaveVote p \<or> rvp_vote_granted r)"
      and r: "lo_getCurrentTerm ops (mLog s) = rvp_saved_term r" "rvp_prevote r \<or> mRaftRole s = Candidate"
        "\<not> rvp_prevote r \<or> mRaftRole s = PreCandidate" for p p'
  proof -
    have "conf (setPeer (rvp_id r) p' s) = conf s" using conf_setPeer[OF assms(3) p(1,2)] .
    moreover have "answered M (al_term (abs (mLog s))) k"
      if "k \<in> held (setPeer (rvp_id r) p' s) - held s" "mRaftRole s = Candidate" for k
    proof -
      have "k = rvp_id r" "rvp_vote_granted r" "\<not> rvp_prevote r"
        using that p(1,3) r(2,3) by (auto simp: held_setPeer held_def split: if_splits)
      moreover have "rvp_saved_term r = al_term (abs (mLog s))" using r(1) term_law[OF assms(1)] by simp
      ultimately show ?thesis using assms(5) unfolding answered_def by blast
    qed
    moreover have "mRaftRole s = Candidate \<or> mRaftRole s = PreCandidate" using r(2,3) by blast
    ultimately show ?thesis using assms(4) by (auto simp: ballot_step_def)
  qed
  show ?thesis
    using assms(2) calm[OF calm_refl] unfolding handleRequestVoteResponse_def Let_def
    by (elim resE) (auto intro: calm calm_stepDown intro!: core)
qed

end

section \<open>The electorate\<close>

text \<open>The two sets of which an elected candidate has a majority; they depend on the fixed part only.\<close>

definition electorate :: "'l raft_core \<Rightarrow> nat set \<times> nat set" where
  "electorate s =
     (if joint_config (members s)
      then (nonLearnersOf (members s) (ms_mOldMembers (members s)), nonLearnersOf (members s) (ms_mNewMembers (members s)))
      else (nonLearnersOf (members s) (allNodeIds (members s)), nonLearnersOf (members s) (allNodeIds (members s))))"

lemma conf_allNodeIds:
  fixes s t :: "'l raft_core"
  assumes "conf t = conf s"
  shows "set (allNodeIds (members t)) = set (allNodeIds (members s))"
proof -
  have *: "(\<lambda>x. uint32 (p_mId (snd x))) ` set (peers u) = (\<lambda>x. uint32 (snd x)) ` set (map (\<lambda>(k, p). (k, p_mId p)) (peers u))"
    for u :: "'l raft_core" by force
  show ?thesis using assms unfolding set_allNodeIds * by (simp add: conf_def)
qed

lemma conf_electorate:
  fixes s t :: "'l raft_core"
  assumes "conf t = conf s"
  shows "electorate t = electorate s"
  using assms conf_allNodeIds[OF assms]
  by (simp add: conf_def electorate_def nonLearnersOf_def roleOf_def joint_config_def)

lemma elected_electorate: "elected s \<longleftrightarrow> is_joint_majority (fst (electorate s)) (snd (electorate s)) (insert (selfId s) (held s))"
proof -
  have "{i. hasVote s i} = insert (selfId s) (held s)" by (auto simp: hasVote_def held_def)
  then show ?thesis by (simp add: elected_def electorate_def is_joint_majority_def)
qed

lemma desk_elected:
  fixes s t :: "'l raft_core"
  assumes "conf t = conf s" "held t = held s"
  shows "elected t \<longleftrightarrow> elected s"
  using conf_electorate[OF assms(1)] conf_selfId[OF assms(1)] assms(2) by (simp add: elected_electorate)

lemma conf_member_sets:
  "conf t = conf s \<Longrightarrow> member_sets_ok (members t) = member_sets_ok (members s)"
  by (simp add: conf_def member_sets_ok_def)

lemma sent_ok_selfId: "selfId u = selfId s \<Longrightarrow> sent_ok ab M u t e = sent_ok ab M s t e"
  by (cases e) auto

lemma ballot_step_left:
  assumes "ballot_step ab M u t" "conf u = conf s" "held u = held s" "rv_out u = rv_out s"
    and "mRaftRole u = mRaftRole s" "ab (mLog u) = ab (mLog s)"
  shows "ballot_step ab M s t"
  using assms desk_elected[OF assms(2,3)] conf_selfId[OF assms(2)] sent_ok_selfId[OF conf_selfId[OF assms(2)], of ab M t]
  unfolding ballot_step_def by simp

lemma ballot_step_right:
  assumes "ballot_step ab M s u" "conf t = conf u" "held t = held u" "mail t = mail u"
    and "mRaftRole t = mRaftRole u" "mLog t = mLog u" "\<forall>e \<in> rv_out t - rv_out u. sent_ok ab M s t e"
  shows "ballot_step ab M s t"
proof -
  have "sent_ok ab M s t e" if "e \<in> rv_out t - rv_out s" for e
  proof (cases "e \<in> rv_out u")
    case True
    then have "sent_ok ab M s u e" using that assms(1) by (simp add: ballot_step_def)
    then show ?thesis using assms(6) by (cases e) auto
  qed (use that assms(7) in blast)
  with assms show ?thesis unfolding ballot_step_def by simp
qed

end
