(* ===== verification/Raft_Election.thy ===== *)
theory Raft_Election
  imports Raft_Ballot
begin

text \<open>
  Elections across the nodes of a cluster with a fixed membership. Each node runs the calls of
  its main loop; vote requests and their answers travel between the nodes and may be delayed,
  lost, repeated or reordered; AppendEntries messages, client and sync requests are arbitrary;
  nodes compact their logs, crash and restart. At most one node is ever leader in a term.
\<close>

section \<open>Events and phases\<close>

context log_store
begin

lemma handleRVResponseEvent_ballot:
  assumes "inv (mLog s)" "handleRVResponseEvent env ops k ok r s = Inr t" "om_ok (peers s)" "mail s \<subseteq> M"
    and "RequestVoteResponseEvent k ok r \<in> M"
  shows "ballot_step abs M s t"
proof (cases "map_of (peers s) k")
  case (Some p)
  have touch: "ballot_step abs M s u" if "calm abs s u" for u
    using calm_ballot_step[OF that] assms(3,4) by blast
  have "ballot_step abs M s t"
    if h: "handleRequestVoteResponse env ops r (tick (setPeer k p' (tick s))) = Inr t" "ok"
      "p_mId p' = p_mId p" "p_mHaveVote p' = p_mHaveVote p" for p'
  proof -
    let ?u = "tick (setPeer k p' (tick s))"
    have "calm abs s ?u" using calm_touch(2)[OF Some h(3,4)] .
    then have "desk ?u = desk s" using assms(3) by (simp add: calm_def keeps_def)
    note d = desk_parts[OF this]
    have "ballot_step abs M ?u t"
      using handleRequestVoteResponse_ballot[OF _ h(1), of M k] assms(1,3-5) h(2) d(3) by simp
    then show ?thesis by (rule ballot_step_left[OF _ d(1,2,4)]) simp_all
  qed
  then show ?thesis
    using assms(2) Some touch[OF calm_touch(1)[OF Some]] unfolding handleRVResponseEvent_def Let_def by (cases ok) auto
qed (use assms in \<open>auto simp: handleRVResponseEvent_def intro: calm_ballot_step calm_refl\<close>)

lemma emit_desk: "conf (emit e s) = conf s" "held (emit e s) = held s" "mail (emit e s) = mail s"
    "rv_out (emit e s) = (if is_rv e then insert e (rv_out s) else rv_out s)"
  by (auto simp: conf_def held_def mail_def rv_out_def emit_def)

lemma handleEvent_ballot:
  assumes "raft_ok abs inv s" "handleEvent env ops e s = Inr t" "om_ok (peers s)" "mail s \<subseteq> M" "e \<in> M"
    and "mRaftRole s \<noteq> Syncer" "\<forall>i ci. e \<noteq> ReconfigureRequestEvent i ci"
  shows "ballot_step abs M s t"
proof -
  have iv: "inv (mLog s)" using assms(1) by (simp add: raft_ok_def)
  have calm: "ballot_step abs M s u" if "calm abs s u" for u
    using calm_ballot_step[OF that] assms(3,4) by blast
  show ?thesis
  proof (cases e)
    case (AppendEntriesRequestEvent n q)
    then obtain st r u where u: "handleAppendEntriesRequest env ops q s = Inr (st, r, u)" "t = emit (ReplyAE n st r) u"
      using assms(2) by (auto simp: handleEvent_def)
    show ?thesis unfolding u(2)
      by (rule ballot_step_right[OF calm[OF handleAppendEntriesRequest_calm[OF assms(1) u(1)]]]) (simp_all add: emit_desk)
  next
    case (RequestVoteRequestEvent n q)
    then obtain st r u where u: "handleRequestVoteRequest env ops q s = Inr (st, r, u)" "t = emit (ReplyRV n st r) u"
      using assms(2) by (auto simp: handleEvent_def)
    show ?thesis unfolding u(2)
      using handleRequestVoteRequest_grant[OF iv u(1)] assms(5) RequestVoteRequestEvent
      by (intro ballot_step_right[OF calm[OF handleRequestVoteRequest_calm[OF iv u(1)]]]) (auto simp: emit_desk)
  next
    case (SyncRequestEvent q)
    then have "t = s" using assms(2,6) by (simp add: handleEvent_def handleSyncRequest_def)
    then show ?thesis using calm[OF calm_refl] by simp
  next
    case (RequestVoteResponseEvent k ok r)
    then show ?thesis using handleRVResponseEvent_ballot[OF iv _ assms(3,4)] assms(2,5) by (simp add: handleEvent_def)
  qed (use assms(2,7) iv in \<open>auto simp: handleEvent_def intro: calm handleAEResponseEvent_calm handleClientRequests_calm\<close>)
qed

lemma receiveMessage_ballot:
  assumes "raft_ok abs inv s" "receiveMessage env ops s = Inr t" "om_ok (peers s)"
    and "mRaftRole s \<noteq> Syncer" "\<forall>i ci. ReconfigureRequestEvent i ci \<notin> mail s"
  shows "ballot_step abs (mail s) s t"
proof -
  have core: "ballot_step abs (mail s) s t"
    if h: "handleEvent env ops e u = Inr t" and u: "mail u \<subseteq> mail s" "e \<in> mail s" "conf u = conf s" "held u = held s"
      "rv_out u = rv_out s" "vital u = vital s" for e u
  proof -
    note v = vital_eq[OF u(6)]
    have "om_ok (peers u)" using conf_om_ok[OF u(3)] assms(3) by simp
    with h u v assms(1,4,5) have "ballot_step abs (mail s) u t"
      by (intro handleEvent_ballot[OF _ h]) (auto simp: raft_ok_def)
    then show ?thesis by (rule ballot_step_left[OF _ u(3-5)]) (simp_all add: v)
  qed
  note p = conf_def held_def rv_out_def mail_def
  show ?thesis
  proof (cases "mAeRvQueue s")
    case (Cons e q)
    then have "handleEvent env ops e (s\<lparr>mAeRvQueue := q\<rparr>) = Inr t" using assms(2) by (simp add: receiveMessage_def)
    then show ?thesis by (rule core) (auto simp: p Cons)
  next
    case Nil
    show ?thesis
    proof (cases "mClientRequestsQueue s")
      case (Cons e q)
      then have "handleEvent env ops e (s\<lparr>mClientRequestsQueue := q\<rparr>) = Inr t"
        using assms(2) Nil by (simp add: receiveMessage_def)
      then show ?thesis by (rule core) (auto simp: p Nil Cons)
    qed (use Nil assms in \<open>auto simp: receiveMessage_def intro: calm_ballot_step calm_refl\<close>)
  qed
qed

end

text \<open>The calls of one round of the main loop; a node takes them one by one.\<close>

inductive loop_phase :: "raft_env \<Rightarrow> 'l log_ops \<Rightarrow> 'l raft_core \<Rightarrow> 'l raft_core \<Rightarrow> bool" for env ops where
  lp_appendEntries: "appendEntries env ops s = Inr t \<Longrightarrow> loop_phase env ops s t"
| lp_requestVote: "requestVote env ops s = Inr t \<Longrightarrow> loop_phase env ops s t"
| lp_receiveMessage: "receiveMessage env ops s = Inr t \<Longrightarrow> loop_phase env ops s t"
| lp_advanceCommitIndex: "advanceCommitIndex ops s = Inr t \<Longrightarrow> loop_phase env ops s t"
| lp_becomeCandidate: "becomeCandidate env ops s = Inr t \<Longrightarrow> loop_phase env ops s t"
| lp_becomeLeader: "becomeLeader env ops s = Inr t \<Longrightarrow> loop_phase env ops s t"
| lp_electionTimeout: "electionTimeout env ops s = Inr t \<Longrightarrow> loop_phase env ops s t"
| lp_leadershipTimeout: "leadershipTimeout env ops s = Inr t \<Longrightarrow> loop_phase env ops s t"

lemma raftLoopBody_phases:
  assumes "raftLoopBody env ops s = Inr t"
  shows "(loop_phase env ops)\<^sup>*\<^sup>* s t"
proof -
  obtain s1 s2 s3 s4 s5 s6 s7 where
    "appendEntries env ops s = Inr s1" "requestVote env ops s1 = Inr s2" "receiveMessage env ops s2 = Inr s3"
    "advanceCommitIndex ops s3 = Inr s4" "becomeCandidate env ops s4 = Inr s5" "becomeLeader env ops s5 = Inr s6"
    "electionTimeout env ops s6 = Inr s7" "leadershipTimeout env ops s7 = Inr t"
    using assms unfolding raftLoopBody_def by (elim resE) blast
  then show ?thesis
    by (meson converse_rtranclp_into_rtranclp loop_phase.intros rtranclp.rtrancl_refl)
qed

context log_store
begin

lemma loop_phase_ballot:
  assumes "loop_phase env ops s t" "raft_ok abs inv s" "om_ok (peers s)" "member_sets_ok (members s)"
    and "mRaftRole s \<noteq> Syncer" "\<forall>i ci. ReconfigureRequestEvent i ci \<notin> mail s"
  shows "ballot_step abs (mail s) s t"
proof -
  have iv: "inv (mLog s)" using assms(2) by (simp add: raft_ok_def)
  have calm: "ballot_step abs (mail s) s t" if "calm abs s t" for t
    using calm_ballot_step[OF that assms(3)] by blast
  show ?thesis
    using assms(1)
  proof cases
    case lp_appendEntries
    then show ?thesis using appendEntries_calm[OF iv] calm by blast
  next
    case lp_receiveMessage
    then show ?thesis using receiveMessage_ballot assms(2-) by blast
  next
    case lp_advanceCommitIndex
    then show ?thesis using advanceCommitIndex_calm calm by blast
  qed (use iv assms(3,4) in \<open>auto intro: requestVote_ballot becomeCandidate_ballot becomeLeader_ballot
        electionTimeout_ballot leadershipTimeout_ballot\<close>)
qed

lemma loop_phase_step:
  assumes "loop_phase env ops s t" "raft_ok abs inv s"
  shows "raft_step abs inv s t"
  using assms by cases (auto intro: appendEntries_step raft_step_vital vital_requestVote receiveMessage_step
    advanceCommitIndex_step becomeCandidate_step becomeLeader_step electionTimeout_step leadershipTimeout_step)

end

section \<open>The cluster\<close>

text \<open>
  The nodes by their ids, and for every call number of a node (its \<^verbatim>\<open>CallData\<close>) the node whose
  request it carries.
\<close>

record 'l cluster =
  cl_node :: "nat \<Rightarrow> 'l raft_core"
  cl_call :: "nat \<times> nat \<Rightarrow> nat option"

definition put :: "nat \<Rightarrow> 'l raft_core \<Rightarrow> 'l cluster \<Rightarrow> 'l cluster" where
  "put i s c = c\<lparr>cl_node := (cl_node c)(i := s)\<rparr>"

definition deliver :: "raft_event \<Rightarrow> 'l raft_core \<Rightarrow> 'l raft_core" where
  "deliver e s = s\<lparr>mAeRvQueue := mAeRvQueue s @ [e]\<rparr>"

text \<open>
  A request reaches the node it was sent to under a fresh call number; the answer to a call
  reaches the node that made it, as often as the network likes. A restarted node is built
  anew from the same configuration on a log whose terms and votes are those on disk or later
  ones (the crash may have come between two writes); what it had sent before is still under way.
\<close>

inductive cluster_step ::
  "'l log_ops \<Rightarrow> ('l \<Rightarrow> alog) \<Rightarrow> ('l \<Rightarrow> bool) \<Rightarrow> nat set \<Rightarrow> 'l cluster \<Rightarrow> 'l cluster \<Rightarrow> bool"
  for ops ab iv N where
  cs_phase: "i \<in> N \<Longrightarrow> loop_phase env ops (cl_node c i) t \<Longrightarrow> cluster_step ops ab iv N c (put i t c)"
| cs_vote_request: "i \<in> N \<Longrightarrow> j \<in> N \<Longrightarrow> SendRV j q \<in> set (mEffects (cl_node c i)) \<Longrightarrow> cl_call c (j, n) = None \<Longrightarrow>
    cluster_step ops ab iv N c
      ((put j (deliver (RequestVoteRequestEvent n q) (cl_node c j)) c)\<lparr>cl_call := (cl_call c)((j, n) \<mapsto> i)\<rparr>)"
| cs_vote_answer: "i \<in> N \<Longrightarrow> j \<in> N \<Longrightarrow> ReplyRV n st r \<in> set (mEffects (cl_node c j)) \<Longrightarrow> cl_call c (j, n) = Some i \<Longrightarrow>
    cluster_step ops ab iv N c (put i (deliver (RequestVoteResponseEvent j (st = GrpcOK) r) (cl_node c i)) c)"
| cs_vote_failed: "i \<in> N \<Longrightarrow>
    cluster_step ops ab iv N c (put i (deliver (RequestVoteResponseEvent j False r) (cl_node c i)) c)"
| cs_append_request: "i \<in> N \<Longrightarrow>
    cluster_step ops ab iv N c (put i (deliver (AppendEntriesRequestEvent n aq) (cl_node c i)) c)"
| cs_append_answer: "i \<in> N \<Longrightarrow>
    cluster_step ops ab iv N c (put i (deliver (AppendEntriesResponseEvent j ok ar) (cl_node c i)) c)"
| cs_client: "i \<in> N \<Longrightarrow> cluster_step ops ab iv N c (put i (enqueueClientRequests rs (cl_node c i)) c)"
| cs_sync: "i \<in> N \<Longrightarrow> cluster_step ops ab iv N c (put i (enqueueSyncRequest sq (cl_node c i)) c)"
| cs_compact: "i \<in> N \<Longrightarrow> truncatePrefix ops k (cl_node c i) = Inr t \<Longrightarrow> cluster_step ops ab iv N c (put i t c)"
| cs_restart: "i \<in> N \<Longrightarrow> new_RaftCore env ini openLog i ci role nolog = Inr t \<Longrightarrow>
    role \<noteq> Candidate \<Longrightarrow> role \<noteq> Leader \<Longrightarrow> role \<noteq> Syncer \<Longrightarrow> conf t = conf (cl_node c i) \<Longrightarrow>
    iv (mLog t) \<Longrightarrow> vote_le (ab (mLog (cl_node c i))) (ab (mLog t)) \<Longrightarrow>
    cluster_step ops ab iv N c (put i (t\<lparr>mEffects := mEffects (cl_node c i)\<rparr>) c)"

text \<open>Where a cluster starts: every node is built and idle, whatever terms and votes it has on disk.\<close>

definition cluster_init ::
  "('l \<Rightarrow> alog) \<Rightarrow> ('l \<Rightarrow> bool) \<Rightarrow> nat set \<Rightarrow> nat set \<times> nat set \<Rightarrow> 'l cluster \<Rightarrow> bool" where
  "cluster_init ab iv N E c \<longleftrightarrow> (\<forall>i \<in> N. i \<noteq> 0 \<and> raft_ok ab iv (cl_node c i) \<and> selfId (cl_node c i) = i \<and>
     electorate (cl_node c i) = E \<and> om_ok (peers (cl_node c i)) \<and> member_sets_ok (members (cl_node c i)) \<and>
     mRaftRole (cl_node c i) \<notin> {Candidate, Leader, Syncer} \<and> mail (cl_node c i) = {} \<and> rv_out (cl_node c i) = {})"

section \<open>The invariant\<close>

text \<open>
  \<open>G\<close> records every vote ever given, as (voter, term, candidate); \<open>L\<close> records every leader,
  as (leader, term).
\<close>

fun mail_ok :: "(nat \<times> nat \<times> nat) set \<Rightarrow> (nat \<times> nat \<Rightarrow> nat option) \<Rightarrow> nat \<Rightarrow> raft_event \<Rightarrow> bool" where
  "mail_ok G call i (RequestVoteRequestEvent n q) \<longleftrightarrow> call (i, n) = Some (rvq_candidate_id q) \<and> rvq_candidate_id q \<noteq> 0"
| "mail_ok G call i (RequestVoteResponseEvent p ok r) \<longleftrightarrow>
     (ok \<and> rvp_vote_granted r \<and> \<not> rvp_prevote r \<longrightarrow> (rvp_id r, rvp_saved_term r, i) \<in> G)"
| "mail_ok G call i (ReconfigureRequestEvent k ci) \<longleftrightarrow> False"
| "mail_ok G call i _ \<longleftrightarrow> True"

fun out_ok :: "(nat \<times> nat \<times> nat) set \<Rightarrow> (nat \<times> nat \<Rightarrow> nat option) \<Rightarrow> nat \<Rightarrow> effect \<Rightarrow> bool" where
  "out_ok G call i (SendRV p q) \<longleftrightarrow> rvq_candidate_id q = i"
| "out_ok G call i (ReplyRV n st r) \<longleftrightarrow> (rvp_vote_granted r \<and> \<not> rvp_prevote r \<longrightarrow>
     rvp_id r = i \<and> (\<exists>v. call (i, n) = Some v \<and> (i, rvp_saved_term r, v) \<in> G))"
| "out_ok G call i _ \<longleftrightarrow> True"

definition node_ok where
  "node_ok ab iv E G L call i s \<longleftrightarrow>
     raft_ok ab iv s \<and> selfId s = i \<and> i \<noteq> 0 \<and> electorate s = E \<and> om_ok (peers s) \<and> member_sets_ok (members s) \<and>
     mRaftRole s \<noteq> Syncer \<and>
     (\<forall>T v. (i, T, v) \<in> G \<longrightarrow> v \<noteq> 0 \<and> T \<le> al_term (ab (mLog s)) \<and> (T = al_term (ab (mLog s)) \<longrightarrow> al_vote (ab (mLog s)) = v)) \<and>
     (al_vote (ab (mLog s)) \<noteq> 0 \<longrightarrow> (i, al_term (ab (mLog s)), al_vote (ab (mLog s))) \<in> G) \<and>
     (mRaftRole s = Candidate \<longrightarrow> al_vote (ab (mLog s)) = i \<and> (\<forall>k \<in> held s. (k, al_term (ab (mLog s)), i) \<in> G)) \<and>
     (mRaftRole s = Leader \<longrightarrow> (i, al_term (ab (mLog s))) \<in> L) \<and>
     (\<forall>e \<in> mail s. mail_ok G call i e) \<and> (\<forall>e \<in> rv_out s. out_ok G call i e)"

definition votes_ok :: "nat set \<times> nat set \<Rightarrow> (nat \<times> nat \<times> nat) set \<Rightarrow> (nat \<times> nat) set \<Rightarrow> bool" where
  "votes_ok E G L \<longleftrightarrow> (\<forall>j T v w. (j, T, v) \<in> G \<and> (j, T, w) \<in> G \<longrightarrow> v = w) \<and>
     (\<forall>i T. (i, T) \<in> L \<longrightarrow> is_joint_majority (fst E) (snd E) {k. (k, T, i) \<in> G})"

lemma map_le_Some: "m \<subseteq>\<^sub>m m' \<Longrightarrow> m k = Some v \<Longrightarrow> m' k = Some v"
  by (metis domI map_le_def)

lemma mail_ok_mono: "mail_ok G call i e \<Longrightarrow> G \<subseteq> G' \<Longrightarrow> call \<subseteq>\<^sub>m call' \<Longrightarrow> mail_ok G' call' i e"
  by (cases e) (auto dest: map_le_Some)

lemma out_ok_mono: "out_ok G call i e \<Longrightarrow> G \<subseteq> G' \<Longrightarrow> call \<subseteq>\<^sub>m call' \<Longrightarrow> out_ok G' call' i e"
  by (cases e) (auto dest: map_le_Some)

lemma node_ok_mono:
  assumes "node_ok ab iv E G L call i s" "G \<subseteq> G'" "L \<subseteq> L'" "call \<subseteq>\<^sub>m call'" "\<forall>T v. (i, T, v) \<in> G' \<longrightarrow> (i, T, v) \<in> G"
  shows "node_ok ab iv E G' L' call' i s"
  using assms mail_ok_mono[OF _ assms(2,4)] out_ok_mono[OF _ assms(2,4)] unfolding node_ok_def by blast

text \<open>Two leaders of a term would share a voter.\<close>

lemma votes_ok_unique:
  assumes "votes_ok E G L" "(i, T) \<in> L" "(j, T) \<in> L"
  shows "i = j"
proof (rule joint.same_winner[of "fst E" "snd E"])
  show "is_joint_majority (fst E) (snd E) {k. (k, T, i) \<in> G}" "is_joint_majority (fst E) (snd E) {k. (k, T, j) \<in> G}"
    using assms by (auto simp: votes_ok_def)
  show "i = j" if "(n, T, i) \<in> G" "(n, T, j) \<in> G" for n
    using that assms(1) unfolding votes_ok_def by blast
qed simp_all

text \<open>A step records the vote and the leadership it leaves behind.\<close>

definition cast :: "nat \<Rightarrow> alog \<Rightarrow> (nat \<times> nat \<times> nat) set \<Rightarrow> (nat \<times> nat \<times> nat) set" where
  "cast i a G = (if al_vote a = 0 then G else insert (i, al_term a, al_vote a) G)"

definition crown :: "nat \<Rightarrow> raft_role \<Rightarrow> nat \<Rightarrow> (nat \<times> nat) set \<Rightarrow> (nat \<times> nat) set" where
  "crown i role T L = (if role = Leader then insert (i, T) L else L)"

lemma cast_mono: "G \<subseteq> cast i a G"
  by (auto simp: cast_def)

lemma crown_mono: "L \<subseteq> crown i role T L"
  by (auto simp: crown_def)

lemma cast_other: "(j, T, v) \<in> cast i a G \<Longrightarrow> j \<noteq> i \<Longrightarrow> (j, T, v) \<in> G"
  by (auto simp: cast_def split: if_splits)

lemma cast_own:
  assumes past: "\<forall>T v. (i, T, v) \<in> G \<longrightarrow> v \<noteq> 0 \<and> T \<le> al_term a \<and> (T = al_term a \<longrightarrow> al_vote a = v)"
    and "vote_le a b" "(i, T, v) \<in> cast i b G"
  shows "v \<noteq> 0 \<and> T \<le> al_term b \<and> (T = al_term b \<longrightarrow> al_vote b = v)"
proof (cases "(i, T, v) \<in> G")
  case True
  with past have "v \<noteq> 0" "T \<le> al_term a" "T = al_term a \<longrightarrow> al_vote a = v" by blast+
  then show ?thesis using assms(2) by (auto simp: vote_le_def)
next
  case False
  then show ?thesis using assms(3) by (auto simp: cast_def split: if_splits)
qed

lemma cast_votes_ok:
  assumes past: "\<forall>T v. (i, T, v) \<in> G \<longrightarrow> v \<noteq> 0 \<and> T \<le> al_term a \<and> (T = al_term a \<longrightarrow> al_vote a = v)"
    and "vote_le a b" "votes_ok E G L"
  shows "votes_ok E (cast i b G) L"
proof -
  have "v = w" if "(j, T, v) \<in> cast i b G" "(j, T, w) \<in> cast i b G" for j T v w
  proof (cases "(j, T, v) \<in> G \<and> (j, T, w) \<in> G")
    case True
    then show ?thesis using assms(3) unfolding votes_ok_def by blast
  next
    case False
    then have "j = i" "T = al_term b" using that by (auto simp: cast_def split: if_splits)
    then show ?thesis using cast_own[OF past assms(2), of T v] cast_own[OF past assms(2), of T w] that by simp
  qed
  moreover have "is_joint_majority (fst E) (snd E) {k. (k, T, j) \<in> cast i b G}" if "(j, T) \<in> L" for j T
  proof -
    have "is_joint_majority (fst E) (snd E) {k. (k, T, j) \<in> G}" using that assms(3) by (simp add: votes_ok_def)
    then show ?thesis by (rule joint.upward) (use cast_mono in blast)
  qed
  ultimately show ?thesis unfolding votes_ok_def by meson
qed

lemma answered_voted: "answered (mail s) T k \<Longrightarrow> \<forall>e \<in> mail s. mail_ok G call i e \<Longrightarrow> (k, T, i) \<in> G"
  by (fastforce simp: answered_def)

lemma candidate_votes:
  assumes s: "node_ok ab iv E G L call i s" and b: "ballot_step ab (mail s) s t" and v: "vote_le (ab (mLog s)) (ab (mLog t))"
    and t: "mRaftRole t = Candidate"
  shows "al_vote (ab (mLog t)) = i \<and> (\<forall>k \<in> held t. (k, al_term (ab (mLog t)), i) \<in> G)"
proof -
  have "held t = {} \<and> al_vote (ab (mLog t)) = selfId s \<or> mRaftRole s = Candidate \<and>
      al_term (ab (mLog t)) = al_term (ab (mLog s)) \<and> (\<forall>k \<in> held t - held s. answered (mail s) (al_term (ab (mLog s))) k)"
    using b t unfolding ballot_step_def by blast
  then show ?thesis
  proof
    assume o: "mRaftRole s = Candidate \<and>
      al_term (ab (mLog t)) = al_term (ab (mLog s)) \<and> (\<forall>k \<in> held t - held s. answered (mail s) (al_term (ab (mLog s))) k)"
    then have c: "al_vote (ab (mLog s)) = i" "\<forall>k \<in> held s. (k, al_term (ab (mLog s)), i) \<in> G" "i \<noteq> 0"
        "\<forall>e \<in> mail s. mail_ok G call i e"
      using s by (simp_all add: node_ok_def)
    have "(k, al_term (ab (mLog s)), i) \<in> G" if "k \<in> held t" for k
      using that o c(2) answered_voted[OF _ c(4)] by (cases "k \<in> held s") auto
    then show ?thesis using o c(1,3) v by (simp add: vote_le_def)
  qed (use s in \<open>simp add: node_ok_def\<close>)
qed

lemma leader_votes:
  assumes s: "node_ok ab iv E G L call i s" and v: "votes_ok E G L" and b: "ballot_step ab (mail s) s t"
    and t: "mRaftRole t = Leader"
  shows "is_joint_majority (fst E) (snd E) {k. (k, al_term (ab (mLog t)), i) \<in> G}"
proof -
  have T: "al_term (ab (mLog t)) = al_term (ab (mLog s))" and "mRaftRole s = Leader \<or> mRaftRole s = Candidate \<and> elected s"
    using b t by (auto simp: ballot_step_def)
  from this(2) show ?thesis unfolding T
  proof
    assume "mRaftRole s = Leader"
    then have "(i, al_term (ab (mLog s))) \<in> L" using s by (simp add: node_ok_def)
    then show "is_joint_majority (fst E) (snd E) {k. (k, al_term (ab (mLog s)), i) \<in> G}" using v by (simp add: votes_ok_def)
  next
    assume c: "mRaftRole s = Candidate \<and> elected s"
    have "insert (selfId s) (held s) \<subseteq> {k. (k, al_term (ab (mLog s)), i) \<in> G}"
      using s c by (auto simp: node_ok_def)
    moreover have "is_joint_majority (fst E) (snd E) (insert (selfId s) (held s))"
      using c s elected_electorate[of s] by (simp add: node_ok_def)
    ultimately show "is_joint_majority (fst E) (snd E) {k. (k, al_term (ab (mLog s)), i) \<in> G}"
      using joint.upward by blast
  qed
qed

lemma step_out_ok:
  assumes s: "node_ok ab iv E G L call i s" and b: "ballot_step ab (mail s) s t" and e: "e \<in> rv_out t"
  shows "out_ok (cast i (ab (mLog t)) G) call i e"
proof (cases "e \<in> rv_out s")
  case True
  then have "out_ok G call i e" using s by (simp add: node_ok_def)
  then show ?thesis using out_ok_mono[OF _ cast_mono map_le_refl] by blast
next
  case False
  then have o: "sent_ok ab (mail s) s t e" using b e by (simp add: ballot_step_def)
  have i: "selfId s = i" and m: "\<forall>e \<in> mail s. mail_ok G call i e" using s by (simp_all add: node_ok_def)
  show ?thesis
  proof (cases e)
    case (ReplyRV n st r)
    have "call (i, n) = Some (rvq_candidate_id q) \<and> rvq_candidate_id q \<noteq> 0" if "RequestVoteRequestEvent n q \<in> mail s" for q
      using m that by fastforce
    then have "call (i, n) = Some (al_vote (ab (mLog t))) \<and> al_vote (ab (mLog t)) \<noteq> 0 \<and> rvp_id r = i \<and>
        rvp_saved_term r = al_term (ab (mLog t))" if "rvp_vote_granted r" "\<not> rvp_prevote r"
      using o i that unfolding ReplyRV sent_ok.simps by metis
    then show ?thesis by (auto simp: ReplyRV cast_def)
  qed (use o i in auto)
qed

lemma node_ok_step:
  assumes s: "node_ok ab iv E G L call i s" and v: "votes_ok E G L"
    and b: "ballot_step ab (mail s) s t" and le: "vote_le (ab (mLog s)) (ab (mLog t))" "mRaftRole t \<noteq> Syncer" "raft_ok ab iv t"
  shows "node_ok ab iv E (cast i (ab (mLog t)) G) (crown i (mRaftRole t) (al_term (ab (mLog t))) L) call i t \<and>
    votes_ok E (cast i (ab (mLog t)) G) (crown i (mRaftRole t) (al_term (ab (mLog t))) L)"
proof -
  let ?a = "ab (mLog s)" and ?b = "ab (mLog t)"
  let ?G = "cast i ?b G" and ?L = "crown i (mRaftRole t) (al_term ?b) L"
  have past: "\<forall>T v. (i, T, v) \<in> G \<longrightarrow> v \<noteq> 0 \<and> T \<le> al_term ?a \<and> (T = al_term ?a \<longrightarrow> al_vote ?a = v)"
    and st: "selfId s = i" "i \<noteq> 0" "electorate s = E" "om_ok (peers s)" "member_sets_ok (members s)"
    and m: "\<forall>e \<in> mail s. mail_ok G call i e"
    using s unfolding node_ok_def by blast+
  have c: "conf t = conf s" and mt: "mail t \<subseteq> mail s" using b by (simp_all add: ballot_step_def)
  have "votes_ok E ?G L" using cast_votes_ok[OF past le(1) v] .
  moreover have "is_joint_majority (fst E) (snd E) {k. (k, al_term ?b, i) \<in> ?G}" if "mRaftRole t = Leader"
    using leader_votes[OF s v b that] by (rule joint.upward) (use cast_mono in blast)
  ultimately have votes: "votes_ok E ?G ?L" by (auto simp: votes_ok_def crown_def)
  have cand: "al_vote ?b = i \<and> (\<forall>k \<in> held t. (k, al_term ?b, i) \<in> ?G)" if "mRaftRole t = Candidate"
    using candidate_votes[OF s b le(1) that] cast_mono by blast
  have mail: "\<forall>e \<in> mail t. mail_ok ?G call i e"
    using m mt mail_ok_mono[OF _ cast_mono map_le_refl] by blast
  have "selfId t = i" "electorate t = E" "om_ok (peers t)" "member_sets_ok (members t)"
    using conf_selfId[OF c] conf_electorate[OF c] conf_om_ok[OF c] conf_member_sets[OF c] st by simp_all
  moreover have "al_vote ?b \<noteq> 0 \<longrightarrow> (i, al_term ?b, al_vote ?b) \<in> ?G" by (simp add: cast_def)
  moreover have "mRaftRole t = Leader \<longrightarrow> (i, al_term ?b) \<in> ?L" by (simp add: crown_def)
  ultimately show ?thesis
    using le votes cand mail st(2) cast_own[OF past le(1)] step_out_ok[OF s b] unfolding node_ok_def by blast
qed

definition cluster_ok where
  "cluster_ok ab iv N E G L c \<longleftrightarrow> (\<forall>i \<in> N. node_ok ab iv E G L (cl_call c) i (cl_node c i)) \<and> votes_ok E G L"

lemma put_ok:
  assumes "cluster_ok ab iv N E G L c" "node_ok ab iv E G' L' call i t" "votes_ok E G' L'"
    and "G \<subseteq> G'" "L \<subseteq> L'" "cl_call c \<subseteq>\<^sub>m call" "\<And>j T v. (j, T, v) \<in> G' \<Longrightarrow> j \<noteq> i \<Longrightarrow> (j, T, v) \<in> G"
  shows "cluster_ok ab iv N E G' L' ((put i t c)\<lparr>cl_call := call\<rparr>)"
proof -
  have "node_ok ab iv E G' L' call j (cl_node c j)" if "j \<in> N" "j \<noteq> i" for j
  proof (rule node_ok_mono[OF _ assms(4-6)])
    show "node_ok ab iv E G L (cl_call c) j (cl_node c j)" using assms(1) that(1) by (simp add: cluster_ok_def)
    show "\<forall>T v. (j, T, v) \<in> G' \<longrightarrow> (j, T, v) \<in> G" using assms(7) that(2) by blast
  qed
  with assms(2,3) show ?thesis by (simp add: cluster_ok_def put_def)
qed

lemma put_ok_step:
  assumes "cluster_ok ab iv N E G L c" "i \<in> N" "ballot_step ab (mail (cl_node c i)) (cl_node c i) t"
    and "vote_le (ab (mLog (cl_node c i))) (ab (mLog t))" "mRaftRole t \<noteq> Syncer" "raft_ok ab iv t"
  shows "\<exists>G' L'. G \<subseteq> G' \<and> L \<subseteq> L' \<and> cluster_ok ab iv N E G' L' (put i t c)"
proof -
  let ?G = "cast i (ab (mLog t)) G" and ?L = "crown i (mRaftRole t) (al_term (ab (mLog t))) L"
  have "node_ok ab iv E G L (cl_call c) i (cl_node c i)" "votes_ok E G L" using assms(1,2) by (auto simp: cluster_ok_def)
  from node_ok_step[OF this assms(3-6)] have "node_ok ab iv E ?G ?L (cl_call c) i t" "votes_ok E ?G ?L" by auto
  from put_ok[OF assms(1) this cast_mono crown_mono map_le_refl cast_other]
  have "cluster_ok ab iv N E ?G ?L ((put i t c)\<lparr>cl_call := cl_call c\<rparr>)" .
  moreover have "(put i t c)\<lparr>cl_call := cl_call c\<rparr> = put i t c" by (simp add: put_def)
  ultimately show ?thesis using cast_mono crown_mono by metis
qed

text \<open>Mail that is in order keeps a node in order.\<close>

lemma deliver_node_ok:
  assumes "node_ok ab iv E G L call i s" "mail_ok G call i e"
    and "t = s\<lparr>mAeRvQueue := mAeRvQueue s @ [e]\<rparr> \<or> t = s\<lparr>mClientRequestsQueue := mClientRequestsQueue s @ [e]\<rparr>"
  shows "node_ok ab iv E G L call i t"
proof -
  have "mail t = insert e (mail s)" using assms(3) by (auto simp: mail_def)
  moreover have "mLog t = mLog s \<and> mRaftRole t = mRaftRole s \<and> mCommitIndex t = mCommitIndex s \<and>
      mClusterMembers t = mClusterMembers s \<and> mEffects t = mEffects s" using assms(3) by auto
  moreover from this have "held t = held s" "rv_out t = rv_out s" "electorate t = electorate s"
    by (simp_all add: held_def rv_out_def electorate_def)
  ultimately show ?thesis using assms(1,2) unfolding node_ok_def raft_ok_def by simp
qed

lemma put_ok_mail:
  assumes "cluster_ok ab iv N E G L c" "i \<in> N" "mail_ok G call i e" "cl_call c \<subseteq>\<^sub>m call"
    and "t = (cl_node c i)\<lparr>mAeRvQueue := mAeRvQueue (cl_node c i) @ [e]\<rparr> \<or>
      t = (cl_node c i)\<lparr>mClientRequestsQueue := mClientRequestsQueue (cl_node c i) @ [e]\<rparr>"
  shows "cluster_ok ab iv N E G L ((put i t c)\<lparr>cl_call := call\<rparr>)"
proof -
  have "node_ok ab iv E G L (cl_call c) i (cl_node c i)" "votes_ok E G L" using assms(1,2) by (auto simp: cluster_ok_def)
  then have "node_ok ab iv E G L call i t"
    using deliver_node_ok[OF node_ok_mono[OF _ subset_refl subset_refl assms(4)] assms(3,5)] by blast
  from put_ok[OF assms(1) this _ subset_refl subset_refl assms(4)] \<open>votes_ok E G L\<close> show ?thesis by blast
qed

lemma put_call_id: "(put i t c)\<lparr>cl_call := cl_call c\<rparr> = put i t c"
  by (simp add: put_def)

text \<open>A node that was just built is idle.\<close>

lemma initClusterNode_state: "\<exists>p. snd (initClusterNode i x (m, s)) = s\<lparr>mStreamingPort := p\<rparr>"
proof (cases "i = fst x")
  case True
  then show ?thesis by (intro exI[of _ "cn_mPortForStream (snd x)"]) (simp add: initClusterNode_def case_prod_beta Let_def)
next
  case False
  then show ?thesis by (intro exI[of _ "mStreamingPort s"]) (simp add: initClusterNode_def case_prod_beta Let_def)
qed

lemma initClusterNodes_state: "\<exists>p. snd (fold (initClusterNode i) xs (m, s)) = s\<lparr>mStreamingPort := p\<rparr>"
proof (induction xs arbitrary: m s)
  case Nil
  show ?case by (intro exI[of _ "mStreamingPort s"]) simp
next
  case (Cons x xs)
  obtain m' s' where i: "initClusterNode i x (m, s) = (m', s')" by fastforce
  obtain p where "s' = s\<lparr>mStreamingPort := p\<rparr>" using initClusterNode_state[of i x m s] i by auto
  with Cons[of m' s'] i show ?case by auto
qed

lemma initClusterConf_state:
  assumes "initClusterConf ci i s = Inr (m, t)"
  shows "\<exists>p. t = s\<lparr>mStreamingPort := p\<rparr>"
  using assms initClusterNodes_state[of i "ci_mNodes ci" empty_membership s]
  by (auto simp: initClusterConf_def Let_def split: prod.splits)

lemma initConfigurableVars_state:
  assumes "initConfigurableVars ini s = Inr t"
  shows "mRaftRole t = mRaftRole s \<and> mCommitIndex t = mCommitIndex s \<and> mAeRvQueue t = mAeRvQueue s \<and>
    mClientRequestsQueue t = mClientRequestsQueue s"
  using assms unfolding initConfigurableVars_def Let_def by (elim resE) auto

lemma new_RaftCore_idle:
  assumes "new_RaftCore env ini openLog i ci role nolog = Inr t"
  shows "mRaftRole t = role \<and> mCommitIndex t = 0 \<and> mail t = {}"
proof -
  obtain s m u v l where s: "initConfigurableVars ini (raft_core_fields role nolog) = Inr s"
    and u: "initClusterConf ci i s = Inr (m, u)" and v: "checkSelfNeedExit (setMembers m u) = Inr v"
    and t: "t = initService env ini (v\<lparr>mLog := l\<rparr>)"
    using assms unfolding new_RaftCore_def by (elim resE) auto
  have "v = setMembers m u" using v unfolding checkSelfNeedExit_def by (elim resE) auto
  then show ?thesis
    using t initConfigurableVars_state[OF s] initClusterConf_state[OF u]
    by (auto simp: initService_def raft_core_fields_def mail_def)
qed

lemma restart_ballot:
  assumes "conf t = conf s" "mRaftRole t \<noteq> Candidate" "mRaftRole t \<noteq> Leader" "mail t = {}"
  shows "ballot_step ab (mail s) s (t\<lparr>mEffects := mEffects s\<rparr>)"
  using assms by (simp add: ballot_step_def conf_def held_def mail_def rv_out_def)

lemma cluster_mail:
  assumes "cluster_ok ab iv N E G L c" "i \<in> N"
  shows "\<forall>e \<in> mail (cl_node c i). mail_ok G (cl_call c) i e" "\<forall>e \<in> rv_out (cl_node c i). out_ok G (cl_call c) i e"
    "i \<noteq> 0"
  using assms by (simp_all add: cluster_ok_def node_ok_def)

context log_store
begin

lemma truncatePrefix_calm:
  assumes "inv (mLog s)" "truncatePrefix ops k s = Inr t"
  shows "calm abs s t"
proof -
  obtain l where l: "lo_truncatePrefix ops k (mLog s) = Inr l" "t = s\<lparr>mLog := l\<rparr>"
    using assms(2) unfolding truncatePrefix_def by (elim resE) auto
  then show ?thesis using truncatePrefix_law[OF assms(1) l(1)] by (simp add: calm_same keeps_desk)
qed

text \<open>The steps a node takes by itself.\<close>

lemma own_step_ok:
  assumes "cluster_ok abs inv N E G L c" "i \<in> N" "loop_phase env ops (cl_node c i) t \<or> truncatePrefix ops k (cl_node c i) = Inr t"
  shows "\<exists>G' L'. G \<subseteq> G' \<and> L \<subseteq> L' \<and> cluster_ok abs inv N E G' L' (put i t c)"
proof -
  let ?s = "cl_node c i"
  have n: "raft_ok abs inv ?s" "om_ok (peers ?s)" "member_sets_ok (members ?s)" "mRaftRole ?s \<noteq> Syncer"
    using assms(1,2) by (simp_all add: cluster_ok_def node_ok_def)
  have m: "\<forall>i ci. ReconfigureRequestEvent i ci \<notin> mail ?s" using cluster_mail(1)[OF assms(1,2)] by fastforce
  have iv: "inv (mLog ?s)" using n(1) by (simp add: raft_ok_def)
  have b: "ballot_step abs (mail ?s) ?s t" and r: "raft_step abs inv ?s t"
    using assms(3) loop_phase_ballot[OF _ n m] loop_phase_step[OF _ n(1)] truncatePrefix_step[OF n(1)]
      calm_ballot_step[OF truncatePrefix_calm[OF iv] n(2)] by blast+
  show ?thesis using put_ok_step[OF assms(1,2) b] r n(4) by (simp add: raft_step_def raft_le_def)
qed

lemma cluster_step_ok:
  assumes "cluster_step ops abs inv N c d" "cluster_ok abs inv N E G L c"
  shows "\<exists>G' L'. G \<subseteq> G' \<and> L \<subseteq> L' \<and> cluster_ok abs inv N E G' L' d"
proof -
  have put: "cluster_ok abs inv N E G L (put i t c)"
    if "i \<in> N" "mail_ok G (cl_call c) i e"
      "t = (cl_node c i)\<lparr>mAeRvQueue := mAeRvQueue (cl_node c i) @ [e]\<rparr> \<or>
       t = (cl_node c i)\<lparr>mClientRequestsQueue := mClientRequestsQueue (cl_node c i) @ [e]\<rparr>" for i e t
    using put_ok_mail[OF assms(2) that(1,2) map_le_refl that(3)] unfolding put_call_id .
  have mail: "cluster_ok abs inv N E G L (put i (deliver e (cl_node c i)) c)" if "i \<in> N" "mail_ok G (cl_call c) i e" for i e
    unfolding deliver_def by (rule put[OF that disjI1[OF refl]])
  show ?thesis
    using assms(1)
  proof cases
    case (cs_phase i env t)
    then show ?thesis using own_step_ok[OF assms(2)] by blast
  next
    case (cs_vote_request i j q n)
    let ?call = "(cl_call c)((j, n) \<mapsto> i)"
    have "rvq_candidate_id q = i" "i \<noteq> 0"
      using cluster_mail(2,3)[OF assms(2) cs_vote_request(2)] cs_vote_request(4) by (fastforce simp: rv_out_def)+
    then have "mail_ok G ?call j (RequestVoteRequestEvent n q)" by simp
    moreover have "cl_call c \<subseteq>\<^sub>m ?call" using cs_vote_request(5) by (simp add: map_le_def dom_def)
    ultimately have "cluster_ok abs inv N E G L d"
      unfolding cs_vote_request(1) deliver_def by (rule put_ok_mail[OF assms(2) cs_vote_request(3)]) simp
    then show ?thesis by blast
  next
    case (cs_vote_answer i j n st r)
    have "out_ok G (cl_call c) j (ReplyRV n st r)"
      using cluster_mail(2)[OF assms(2) cs_vote_answer(3)] cs_vote_answer(4) by (fastforce simp: rv_out_def)
    then have "mail_ok G (cl_call c) i (RequestVoteResponseEvent j (st = GrpcOK) r)" using cs_vote_answer(5) by auto
    from mail[OF cs_vote_answer(2) this] show ?thesis unfolding cs_vote_answer(1) by blast
  next
    case (cs_compact i k t)
    then show ?thesis using own_step_ok[OF assms(2)] by blast
  next
    case (cs_restart i env ini openLog ci role nolog t)
    note idle = new_RaftCore_idle[OF cs_restart(3)]
    let ?t = "t\<lparr>mEffects := mEffects (cl_node c i)\<rparr>"
    have b: "ballot_step abs (mail (cl_node c i)) (cl_node c i) ?t" using restart_ballot cs_restart(4,5,7) idle by blast
    have v: "vote_le (abs (mLog (cl_node c i))) (abs (mLog ?t))" using cs_restart(9) by simp
    have "mRaftRole ?t \<noteq> Syncer" using cs_restart(6) conjunct1[OF idle] by simp
    moreover have "raft_ok abs inv ?t" unfolding raft_ok_def using cs_restart(8) conjunct1[OF conjunct2[OF idle]] by simp
    ultimately show ?thesis unfolding cs_restart(1) by (rule put_ok_step[OF assms(2) cs_restart(2) b v])
  next
    case (cs_client i rs)
    have "cluster_ok abs inv N E G L d"
      unfolding cs_client(1) enqueueClientRequests_def by (rule put[OF cs_client(2) _ disjI2[OF refl]]) simp
    then show ?thesis by blast
  next
    case (cs_sync i q)
    have "cluster_ok abs inv N E G L d"
      unfolding cs_sync(1) enqueueSyncRequest_def by (rule put[OF cs_sync(2) _ disjI2[OF refl]]) simp
    then show ?thesis by blast
  next
    case (cs_vote_failed i j r)
    from mail[OF cs_vote_failed(2), of "RequestVoteResponseEvent j False r"] have "cluster_ok abs inv N E G L d" unfolding cs_vote_failed(1) by simp
    then show ?thesis by blast
  next
    case (cs_append_request i n q)
    from mail[OF cs_append_request(2), of "AppendEntriesRequestEvent n q"] have "cluster_ok abs inv N E G L d" unfolding cs_append_request(1) by simp
    then show ?thesis by blast
  next
    case (cs_append_answer i j ok r)
    from mail[OF cs_append_answer(2), of "AppendEntriesResponseEvent j ok r"] have "cluster_ok abs inv N E G L d" unfolding cs_append_answer(1) by simp
    then show ?thesis by blast
  qed
qed

lemma cluster_run_ok:
  assumes "(cluster_step ops abs inv N)\<^sup>*\<^sup>* c d" "cluster_ok abs inv N E G L c"
  shows "\<exists>G' L'. G \<subseteq> G' \<and> L \<subseteq> L' \<and> cluster_ok abs inv N E G' L' d"
  using assms
proof (induction rule: rtranclp_induct)
  case (step d e)
  then obtain G' L' where "G \<subseteq> G'" "L \<subseteq> L'" "cluster_ok abs inv N E G' L' d" by blast
  with cluster_step_ok[OF step(2)] show ?case by (meson subset_trans)
qed blast

text \<open>At the start the votes on record are those on the disks.\<close>

lemma cluster_init_ok:
  assumes "cluster_init abs inv N E c"
  shows "\<exists>G. cluster_ok abs inv N E G {} c"
proof -
  let ?G = "{(i, al_term (abs (mLog (cl_node c i))), al_vote (abs (mLog (cl_node c i)))) |i.
      i \<in> N \<and> al_vote (abs (mLog (cl_node c i))) \<noteq> 0}"
  have "votes_ok E ?G {}" by (auto simp: votes_ok_def)
  moreover have "node_ok abs inv E ?G {} (cl_call c) i (cl_node c i)" if "i \<in> N" for i
    using assms that by (auto simp: cluster_init_def node_ok_def)
  ultimately show ?thesis by (auto simp: cluster_ok_def)
qed

lemma cluster_leader:
  assumes "cluster_ok abs inv N E G L c" "i \<in> N" "mRaftRole (cl_node c i) = Leader"
  shows "(i, lo_getCurrentTerm ops (mLog (cl_node c i))) \<in> L"
  using assms by (auto simp: cluster_ok_def node_ok_def raft_ok_def term_law)

lemma one_leader_per_term:
  assumes "cluster_init abs inv N E c0" "(cluster_step ops abs inv N)\<^sup>*\<^sup>* c0 c" "(cluster_step ops abs inv N)\<^sup>*\<^sup>* c d"
    and "i \<in> N" "j \<in> N" "mRaftRole (cl_node c i) = Leader" "mRaftRole (cl_node d j) = Leader"
    and "lo_getCurrentTerm ops (mLog (cl_node c i)) = lo_getCurrentTerm ops (mLog (cl_node d j))"
  shows "i = j"
proof -
  obtain G0 where "cluster_ok abs inv N E G0 {} c0" using cluster_init_ok[OF assms(1)] by blast
  from cluster_run_ok[OF assms(2) this] obtain G L where c: "cluster_ok abs inv N E G L c" by (elim exE conjE)
  from cluster_run_ok[OF assms(3) c] obtain G' L' where d: "L \<subseteq> L'" "cluster_ok abs inv N E G' L' d" by (elim exE conjE)
  have "(i, lo_getCurrentTerm ops (mLog (cl_node d j))) \<in> L'" using cluster_leader[OF c assms(4,6)] d(1) assms(8) by auto
  moreover have "(j, lo_getCurrentTerm ops (mLog (cl_node d j))) \<in> L'" using cluster_leader[OF d(2) assms(5,7)] .
  moreover have "votes_ok E G' L'" using d(2) by (simp add: cluster_ok_def)
  ultimately show ?thesis using votes_ok_unique by blast
qed

end

end
