(* ===== verification/SegmentLog_Recovery.thy ===== *)
theory SegmentLog_Recovery
  imports SegmentLog_Rep
begin

text \<open>
  Restarting: opening the directory a log left behind gives a log with the same abstract
  contents, whatever order the directory is listed in and with the files of compacted and
  dropped segments still lying around.
\<close>

section \<open>File names\<close>

lemma strip_meta_append: "strip_meta (pre @ ''.meta'') = Some (rev pre)"
  by (simp add: strip_meta_def)

lemma split_digits_to_string:
  "\<not> is_digit c \<Longrightarrow> split_digits (rev (to_string n) @ c # r) = Some (to_string n, c # r)"
proof -
  assume c: "\<not> is_digit c"
  have d: "\<And>x. x \<in> set (rev (to_string n)) \<Longrightarrow> is_digit x" using to_string_digits[of n] by simp
  have "takeWhile is_digit (rev (to_string n) @ c # r) = rev (to_string n)"
    "dropWhile is_digit (rev (to_string n) @ c # r) = c # r"
    using c takeWhile_append2[of "rev (to_string n)" is_digit "c # r"] dropWhile_append2[of "rev (to_string n)" is_digit "c # r"] d
    by auto
  then show ?thesis by (simp add: split_digits_def Let_def)
qed

lemma not_digit_chars: "\<not> is_digit (CHR ''_'')" "\<not> is_digit (CHR ''s'')"
  by (simp_all add: is_digit_def)

lemma matchClosed_closed:
  "matchClosed (dir @ ''/'' @ metaFileNameForClosedSegment f la) = Some (to_string f, to_string la)"
proof -
  have "strip_meta (dir @ ''/'' @ metaFileNameForClosedSegment f la) =
      Some (rev (to_string la) @ CHR ''_'' # rev (to_string f) @ CHR ''_'' # rev (dir @ ''/segment''))"
    using strip_meta_append[of "dir @ ''/segment_'' @ to_string f @ ''_'' @ to_string la"]
    by (simp add: metaFileNameForClosedSegment_def)
  then show ?thesis
    by (simp add: matchClosed_def split_digits_to_string not_digit_chars)
qed

lemma active_stripped:
  "strip_meta (dir @ ''/'' @ metaFileNameForActiveSegment f) =
     Some (rev (to_string f) @ CHR ''_'' # rev (dir @ ''/segment_in_progress''))"
  using strip_meta_append[of "dir @ ''/segment_in_progress_'' @ to_string f"]
  by (simp add: metaFileNameForActiveSegment_def)

lemma matchClosed_active: "matchClosed (dir @ ''/'' @ metaFileNameForActiveSegment f) = None"
proof -
  have "rev (dir @ ''/segment_in_progress'') = CHR ''s'' # rev (dir @ ''/segment_in_progres'')" by simp
  then have "split_digits (rev (dir @ ''/segment_in_progress'')) = None"
    by (simp only: split_digits_def takeWhile.simps not_digit_chars if_False Let_def if_True simp_thms)
  then show ?thesis
    unfolding matchClosed_def active_stripped option.case split_digits_to_string[OF not_digit_chars(1)] prod.case list.case
    by (simp only: option.case if_False simp_thms)
qed

lemma matchActive_active: "matchActive (dir @ ''/'' @ metaFileNameForActiveSegment f) = Some (to_string f)"
  unfolding matchActive_def active_stripped option.case split_digits_to_string[OF not_digit_chars(1)] prod.case
  by simp

lemma metaClosed_inject [simp]:
  "metaFileNameForClosedSegment f la = metaFileNameForClosedSegment f' la' \<longleftrightarrow> f = f' \<and> la = la'"
  by (metis matchClosed_closed option.inject prod.inject to_string_inject)

lemma metaActive_inject [simp]: "metaFileNameForActiveSegment f = metaFileNameForActiveSegment f' \<longleftrightarrow> f = f'"
  by (metis matchActive_active option.inject to_string_inject)

lemma metaClosed_not_active [simp]: "metaFileNameForClosedSegment f la \<noteq> metaFileNameForActiveSegment f'"
  by (metis matchClosed_closed matchClosed_active option.distinct(1))

lemmas metaActive_not_closed [simp] = metaClosed_not_active[symmetric]

text \<open>A name that neither regular expression matches.\<close>

definition other_name :: "string \<Rightarrow> string \<Rightarrow> bool" where
  "other_name dir n \<longleftrightarrow> matchClosed (dir @ ''/'' @ n) = None \<and> matchActive (dir @ ''/'' @ n) = None"

lemma other_nameI: "strip_meta (dir @ ''/'' @ n) = None \<Longrightarrow> other_name dir n"
  by (simp add: other_name_def matchClosed_def matchActive_def)

lemma other_data: "other_name dir (pre @ ''.data'')"
  by (rule other_nameI) (simp add: strip_meta_def)

lemma other_dropped: "other_name dir (pre @ ''.dropped.'' @ to_string t)"
proof (rule other_nameI)
  obtain c cs where c: "rev (to_string t) = c # cs" by (cases "rev (to_string t)") auto
  have "is_digit c" using to_string_digits[of t] c by (metis list.set_intros(1) set_rev)
  then have "c \<noteq> CHR ''a''" by (auto simp: is_digit_def)
  then show "strip_meta (dir @ ''/'' @ pre @ ''.dropped.'' @ to_string t) = None"
    by (auto simp: strip_meta_def c split: list.splits)
qed

lemma data_names_other:
  "other_name dir (dataFileNameForClosedSegment f la)" "other_name dir (dataFileNameForActiveSegment f)"
  using other_data[of dir "''segment_'' @ to_string f @ ''_'' @ to_string la"] other_data[of dir "''segment_in_progress_'' @ to_string f"]
  by (simp_all add: dataFileNameForClosedSegment_def dataFileNameForActiveSegment_def)

section \<open>Listing\<close>

lemma listSegment_other: "other_name (sl_mLogDir l) n \<Longrightarrow> listSegment env n l = Inr l"
  by (simp add: listSegment_def other_name_def)

lemma listSegment_closed:
  "f < 2 ^ 64 \<Longrightarrow> la < 2 ^ 64 \<Longrightarrow> map_of (sl_mClosedSegments l) f = None \<Longrightarrow>
   listSegment env (metaFileNameForClosedSegment f la) l =
     Inr (l\<lparr>sl_mClosedSegments := om_upd f (lazyClosedSegment env f la) (sl_mClosedSegments l)\<rparr>)"
  by (simp add: listSegment_def matchClosed_closed stoull_to_string del: append.simps)

lemma listSegment_active:
  "f < 2 ^ 64 \<Longrightarrow> sl_mActiveSegment l = None \<Longrightarrow>
   listSegment env (metaFileNameForActiveSegment f) l = Inr (l\<lparr>sl_mActiveSegment := Some (lazyActiveSegment env f)\<rparr>)"
  by (simp add: listSegment_def matchClosed_active matchActive_active stoull_to_string del: append.simps)

text \<open>What a listing must look like for the loop to accept it.\<close>

definition listing_ok :: "string \<Rightarrow> string list \<Rightarrow> bool" where
  "listing_ok dir ns \<longleftrightarrow> distinct ns \<and>
     (\<forall>n \<in> set ns. other_name dir n \<or> (\<exists>f la. n = metaFileNameForClosedSegment f la \<and> f < 2 ^ 64 \<and> la < 2 ^ 64) \<or>
        (\<exists>f. n = metaFileNameForActiveSegment f \<and> f < 2 ^ 64)) \<and>
     (\<forall>f la la'. metaFileNameForClosedSegment f la \<in> set ns \<longrightarrow> metaFileNameForClosedSegment f la' \<in> set ns \<longrightarrow> la = la') \<and>
     (\<forall>f f'. metaFileNameForActiveSegment f \<in> set ns \<longrightarrow> metaFileNameForActiveSegment f' \<in> set ns \<longrightarrow> f = f')"

lemma other_not_closed: "\<not> other_name dir (metaFileNameForClosedSegment f la)"
  by (simp add: other_name_def matchClosed_closed del: append.simps)

lemma other_not_active: "\<not> other_name dir (metaFileNameForActiveSegment f)"
  by (simp add: other_name_def matchActive_active del: append.simps)

lemma set_om_upd_new: "map_of m k = None \<Longrightarrow> set (om_upd k v m) = insert (k, v) (set m)"
  by (induction k v m rule: om_upd.induct) (auto split: if_splits)

text \<open>The result of the loop over a listing.\<close>

definition listed :: "storage_env \<Rightarrow> string list \<Rightarrow> segment_log \<Rightarrow> (nat \<times> segment) list \<Rightarrow> segment option \<Rightarrow> bool" where
  "listed env ns l M A \<longleftrightarrow> om_ok M \<and>
     set M = set (sl_mClosedSegments l) \<union> {(f, lazyClosedSegment env f la) |f la. metaFileNameForClosedSegment f la \<in> set ns} \<and>
     (\<forall>f. metaFileNameForActiveSegment f \<in> set ns \<longrightarrow> A = Some (lazyActiveSegment env f)) \<and>
     ((\<forall>f. metaFileNameForActiveSegment f \<notin> set ns) \<longrightarrow> A = sl_mActiveSegment l)"

lemma listed_other:
  assumes "other_name dir n"
  shows "listed env (n # ns) l M A = listed env ns l M A"
proof -
  have "metaFileNameForClosedSegment f la \<in> set (n # ns) \<longleftrightarrow> metaFileNameForClosedSegment f la \<in> set ns"
    "metaFileNameForActiveSegment f \<in> set (n # ns) \<longleftrightarrow> metaFileNameForActiveSegment f \<in> set ns" for f la
    using assms other_not_closed[of dir f la] other_not_active[of dir f] by auto
  then show ?thesis unfolding listed_def by presburger
qed

lemma listed_closed:
  assumes "listed env ns (l\<lparr>sl_mClosedSegments := om_upd f (lazyClosedSegment env f la) (sl_mClosedSegments l)\<rparr>) M A"
    and "map_of (sl_mClosedSegments l) f = None"
  shows "listed env (metaFileNameForClosedSegment f la # ns) l M A"
  using assms metaClosed_not_active[of f la] by (auto simp: listed_def set_om_upd_new)

lemma listed_active:
  assumes "listed env ns (l\<lparr>sl_mActiveSegment := Some (lazyActiveSegment env f)\<rparr>) M A"
    and "\<And>f'. metaFileNameForActiveSegment f' \<in> set ns \<Longrightarrow> f' = f"
  shows "listed env (metaFileNameForActiveSegment f # ns) l M A"
  using assms by (auto simp: listed_def)

lemma listSegments_fold:
  assumes "listing_ok (sl_mLogDir l) ns" and "om_ok (sl_mClosedSegments l)"
    and "\<forall>f la. metaFileNameForClosedSegment f la \<in> set ns \<longrightarrow> map_of (sl_mClosedSegments l) f = None"
    and "\<forall>f. metaFileNameForActiveSegment f \<in> set ns \<longrightarrow> sl_mActiveSegment l = None"
  shows "\<exists>M A. foldR (listSegment env) ns l = Inr (l\<lparr>sl_mClosedSegments := M, sl_mActiveSegment := A\<rparr>) \<and> listed env ns l M A"
  using assms
proof (induction ns arbitrary: l)
  case Nil
  then show ?case by (intro exI[of _ "sl_mClosedSegments l"] exI[of _ "sl_mActiveSegment l"]) (simp add: listed_def)
next
  case (Cons n ns)
  have ok: "listing_ok (sl_mLogDir l) ns" using Cons.prems(1) unfolding listing_ok_def by (meson distinct.simps(2) list.set_intros(2))
  have p3: "\<forall>f la. metaFileNameForClosedSegment f la \<in> set ns \<longrightarrow> map_of (sl_mClosedSegments l) f = None"
    and p4: "\<forall>f. metaFileNameForActiveSegment f \<in> set ns \<longrightarrow> sl_mActiveSegment l = None"
    using Cons.prems(3,4) by (meson list.set_intros(2))+
  have new: "n \<notin> set ns" using Cons.prems(1) by (simp add: listing_ok_def)
  consider (o) "other_name (sl_mLogDir l) n" | (c) f la where "n = metaFileNameForClosedSegment f la" "f < 2 ^ 64" "la < 2 ^ 64"
    | (a) f where "n = metaFileNameForActiveSegment f" "f < 2 ^ 64"
    using Cons.prems(1) unfolding listing_ok_def by (meson list.set_intros(1))
  then show ?case
  proof cases
    case o
    obtain M A where "foldR (listSegment env) ns l = Inr (l\<lparr>sl_mClosedSegments := M, sl_mActiveSegment := A\<rparr>)" "listed env ns l M A"
      using Cons.IH[OF ok Cons.prems(2) p3 p4] by blast
    then show ?thesis using listed_other[OF o] listSegment_other[OF o, of env] by auto
  next
    case c
    let ?l = "l\<lparr>sl_mClosedSegments := om_upd f (lazyClosedSegment env f la) (sl_mClosedSegments l)\<rparr>"
    have none: "map_of (sl_mClosedSegments l) f = None" using Cons.prems(3) c(1) by auto
    have "f' \<noteq> f" if "metaFileNameForClosedSegment f' la' \<in> set ns" for f' la'
      using Cons.prems(1) that new unfolding listing_ok_def c(1) by (metis list.set_intros)
    then have p3': "\<forall>f' la'. metaFileNameForClosedSegment f' la' \<in> set ns \<longrightarrow> map_of (sl_mClosedSegments ?l) f' = None"
      using p3 by fastforce
    have p4': "\<forall>f. metaFileNameForActiveSegment f \<in> set ns \<longrightarrow> sl_mActiveSegment ?l = None" using p4 by simp
    have "listing_ok (sl_mLogDir ?l) ns" "om_ok (sl_mClosedSegments ?l)" using ok Cons.prems(2) by simp_all
    then obtain M A where "foldR (listSegment env) ns ?l = Inr (?l\<lparr>sl_mClosedSegments := M, sl_mActiveSegment := A\<rparr>)" "listed env ns ?l M A"
      using Cons.IH[OF _ _ p3' p4'] by blast
    then show ?thesis
      using listed_closed[OF _ none, of env ns la M A] listSegment_closed[OF c(2,3) none, of env] c(1) by auto
  next
    case a
    let ?l = "l\<lparr>sl_mActiveSegment := Some (lazyActiveSegment env f)\<rparr>"
    have same: "f' = f" if "metaFileNameForActiveSegment f' \<in> set ns" for f'
      using Cons.prems(1) that unfolding listing_ok_def a(1) by (metis list.set_intros)
    then have none: "metaFileNameForActiveSegment f' \<notin> set ns" for f' using new a(1) by auto
    have act: "sl_mActiveSegment l = None" using Cons.prems(4) a(1) by auto
    obtain M A where "foldR (listSegment env) ns ?l = Inr (?l\<lparr>sl_mClosedSegments := M, sl_mActiveSegment := A\<rparr>)" "listed env ns ?l M A"
      using Cons.IH[of ?l] ok Cons.prems(2) p3 none by auto
    then show ?thesis
      using listed_active[where env = env and ns = ns and l = l and f = f and M = M and A = A] same listSegment_active[OF a(2) act, of env] a(1) by auto
  qed
qed

text \<open>Two ordered maps with the same pairs are the same list.\<close>

lemma om_set_unique:
  assumes "om_ok xs" "om_ok ys" "set xs = set ys"
  shows "xs = ys"
proof (rule nth_equalityI)
  have keys: "map fst xs = map fst ys" using strict_sorted_equal[OF assms(2,1)] assms(3) by simp
  from arg_cong[OF keys, of length] show len: "length xs = length ys" by simp
  fix i assume i: "i < length xs"
  have "fst (xs ! i) = fst (ys ! i)" using arg_cong[OF keys, of "\<lambda>zs. zs ! i"] i len by simp
  moreover have "ys ! i \<in> set xs" "xs ! i \<in> set xs" using nth_mem[of i ys] nth_mem[of i xs] i len assms(3) by simp_all
  ultimately show "xs ! i = ys ! i"
    using eq_key_imp_eq_value[OF om_ok_distinct[OF assms(1)]] by (cases "xs ! i", cases "ys ! i") auto
qed

lemma om_split: "om_ok m \<Longrightarrow> m = filter (\<lambda>p. fst p < k) m @ filter (\<lambda>p. \<not> fst p < k) m"
proof (induction m)
  case (Cons p m)
  show ?case
  proof (cases "fst p < k")
    case False
    then have "\<forall>q \<in> set m. \<not> fst q < k" using Cons.prems by auto
    then have "filter (\<lambda>p. fst p < k) m = []" "filter (\<lambda>p. \<not> fst p < k) m = m"
      by (simp_all add: filter_empty_conv filter_id_conv)
    then show ?thesis using False by simp
  qed (use Cons in simp)
qed simp

section \<open>Recovering the chain\<close>

definition in_files :: "(string \<times> dir_file) list \<Rightarrow> segment \<Rightarrow> bool" where
  "in_files files sg \<longleftrightarrow> map_of files (dataFileName sg) = Some (DataFile (sg_mData sg)) \<and>
     map_of files (metaFileName sg) = Some (MetaFile (sg_mMeta sg))"

definition lazyOf :: "storage_env \<Rightarrow> nat \<times> segment \<Rightarrow> nat \<times> segment" where
  "lazyOf env p = (fst p, lazyClosedSegment env (fst p) (sg_mLastIndex (snd p)))"

lemma lazy_names [simp]:
  "sg_mFirstIndex (lazyClosedSegment env f la) = f" "sg_mLastIndex (lazyClosedSegment env f la) = la"
  "sg_mFirstIndex (lazyActiveSegment env f) = f"
  "dataFileName (lazyClosedSegment env f la) = dataFileNameForClosedSegment f la"
  "metaFileName (lazyClosedSegment env f la) = metaFileNameForClosedSegment f la"
  "dataFileName (lazyActiveSegment env f) = dataFileNameForActiveSegment f"
  "metaFileName (lazyActiveSegment env f) = metaFileNameForActiveSegment f"
  by (simp_all add: lazyClosedSegment_def lazyActiveSegment_def dataFileName_def metaFileName_def)

lemma recoverClosed_skip:
  assumes "\<forall>p \<in> set R. \<exists>f la. p = (f, lazyClosedSegment env f la) \<and> f \<le> la \<and> la < i"
  shows "recoverClosed env files i None (R @ L) = recoverClosed env files i None L"
  using assms
proof (induction R)
  case (Cons p R)
  obtain f la where "p = (f, lazyClosedSegment env f la)" "f \<le> la" "la < i" using Cons.prems by auto
  then show ?case using Cons by simp
qed simp

lemma sl_recoverSegment_closed:
  assumes "seg_rep env sg es" and "\<not> sg_mIsActive sg" and "in_files files sg" and "f = sg_mFirstIndex sg"
  shows "\<exists>sg'. sl_recoverSegment env 0 0 files (lazyClosedSegment env f (sg_mLastIndex sg)) = Inr sg' \<and> seg_rep env sg' es \<and>
    sg_mFirstIndex sg' = f \<and> sg_mLastIndex sg' = sg_mLastIndex sg \<and> \<not> sg_mIsActive sg'"
proof -
  have n: "dataFileName sg = dataFileNameForClosedSegment f (sg_mLastIndex sg)"
    "metaFileName sg = metaFileNameForClosedSegment f (sg_mLastIndex sg)"
    using assms(2,4) by (simp_all add: dataFileName_def metaFileName_def)
  have f: "files_ok env f es (sg_mData sg) (sg_mMeta sg)" "env_ok env" "sg_mLastIndex sg + 1 = f + length es"
    using assms(1,4) by (auto simp: seg_rep_def)
  obtain sg' where "recoverActiveOrClosedSegment env 0 0 (Some (sg_mData sg)) (Some (sg_mMeta sg))
      (lazyClosedSegment env f (sg_mLastIndex sg)) = Inr sg'" "seg_rep env sg' es" "sg_mFirstIndex sg' = f" "\<not> sg_mIsActive sg'"
    using recoverClosed_ok[OF f(2,1,3)] by blast
  then show ?thesis
    using assms(3) f(3) by (auto simp: sl_recoverSegment_def in_files_def n find_data_def find_meta_def seg_rep_def)
qed

lemma sl_recoverSegment_active:
  assumes "seg_rep env sg es" and "sg_mIsActive sg" and "in_files files sg"
    and "maxData mod se_pageSize env = 0" and "maxMeta mod se_pageSize env = 0"
  shows "\<exists>sg'. sl_recoverSegment env maxData maxMeta files (lazyActiveSegment env (sg_mFirstIndex sg)) = Inr sg' \<and>
    seg_rep env sg' es \<and> sg_mFirstIndex sg' = sg_mFirstIndex sg \<and> sg_mIsActive sg' \<and>
    maxData \<le> sg_mDataSizeLimit sg' \<and> maxMeta \<le> sg_mMetaSizeLimit sg'"
proof -
  have n: "dataFileName sg = dataFileNameForActiveSegment (sg_mFirstIndex sg)"
    "metaFileName sg = metaFileNameForActiveSegment (sg_mFirstIndex sg)"
    using assms(2) by (simp_all add: dataFileName_def metaFileName_def)
  have f: "files_ok env (sg_mFirstIndex sg) es (sg_mData sg) (sg_mMeta sg)" "env_ok env"
    using assms(1) by (simp_all add: seg_rep_def)
  have "sl_recoverSegment env maxData maxMeta files (lazyActiveSegment env (sg_mFirstIndex sg)) =
      recoverActiveOrClosedSegment env maxData maxMeta (Some (sg_mData sg)) (Some (sg_mMeta sg)) (lazyActiveSegment env (sg_mFirstIndex sg))"
    using assms(3) by (simp add: sl_recoverSegment_def in_files_def n find_data_def find_meta_def)
  then show ?thesis using recoverActive_ok[OF f(2,1) assms(4,5)] by simp
qed

definition ranges :: "(nat \<times> segment) list \<Rightarrow> (nat \<times> nat) list" where
  "ranges cl = map (\<lambda>p. (fst p, sg_mLastIndex (snd p))) cl"

lemma recoverClosed_chain:
  assumes "closed_chain env n cl es" and "\<forall>p \<in> set cl. in_files files (snd p)"
    and "case prev of None \<Rightarrow> n \<le> i \<and> (cl \<noteq> [] \<longrightarrow> i \<le> sg_mLastIndex (snd (hd cl))) | Some p \<Rightarrow> p + 1 = n"
  shows "\<exists>cl'. recoverClosed env files i prev (map (lazyOf env) cl) = Inr (cl', if cl = [] then prev else Some (n + length es - 1)) \<and>
    closed_chain env n cl' es \<and> ranges cl' = ranges cl"
  using assms
proof (induction cl arbitrary: n es prev)
  case (Cons p cl)
  obtain f sg where p: "p = (f, sg)" by fastforce
  obtain es1 es2 where e: "es = es1 @ es2" "es1 \<noteq> []" "seg_rep env sg es1" "closed_chain env (n + length es1) cl es2"
      "f = n" "sg_mFirstIndex sg = n" "\<not> sg_mIsActive sg"
    using Cons.prems(1) unfolding p closed_chain.simps by blast
  have last: "sg_mLastIndex sg + 1 = n + length es1" using e(3,6) by (simp add: seg_rep_def)
  have fl: "n \<le> sg_mLastIndex sg" using last e(2) by (cases es1) auto
  have fi: "in_files files sg" using Cons.prems(2) p by simp
  obtain sg' where r: "sl_recoverSegment env 0 0 files (lazyClosedSegment env n (sg_mLastIndex sg)) = Inr sg'" "seg_rep env sg' es1"
      "sg_mFirstIndex sg' = n" "sg_mLastIndex sg' = sg_mLastIndex sg" "\<not> sg_mIsActive sg'"
    using sl_recoverSegment_closed[OF e(3,7) fi e(6)[symmetric]] by blast
  obtain cl' where I: "recoverClosed env files i (Some (sg_mLastIndex sg)) (map (lazyOf env) cl) =
      Inr (cl', if cl = [] then Some (sg_mLastIndex sg) else Some (n + length es1 + length es2 - 1))"
      "closed_chain env (n + length es1) cl' es2" "ranges cl' = ranges cl"
    using Cons.IH[OF e(4), of "Some (sg_mLastIndex sg)"] Cons.prems(2) last by auto
  have "recoverClosed env files i prev (map (lazyOf env) (p # cl)) = Inr ((n, sg') # cl', Some (n + length es - 1))"
    using Cons.prems(3) r I(1) fl last e by (cases prev) (auto simp: p lazyOf_def e(1))
  moreover have "closed_chain env n ((n, sg') # cl') es" using r e(1,2) I(2) by auto
  moreover have "ranges ((n, sg') # cl') = ranges (p # cl)" using I(3) r(4) e(5) by (simp add: ranges_def p)
  ultimately show ?case by auto
qed (simp add: ranges_def)

section \<open>Directories\<close>

text \<open>
  The directory of a log: no name twice, and the files no segment maps are either not segment
  files or those of closed segments that a prefix truncation left behind.
\<close>

definition dir_ok :: "segment_log \<Rightarrow> bool" where
  "dir_ok l \<longleftrightarrow> distinct (map fst (sl_directory l)) \<and> sl_mLastIndex l + 1 < 2 ^ 64 \<and>
     (\<forall>n \<in> fst ` set (sl_others l). other_name (sl_mLogDir l) n \<or>
        (\<exists>f la. n = metaFileNameForClosedSegment f la \<and> f \<le> la \<and> la < sl_start l)) \<and>
     (\<forall>f la la'. metaFileNameForClosedSegment f la \<in> fst ` set (sl_others l) \<longrightarrow>
        metaFileNameForClosedSegment f la' \<in> fst ` set (sl_others l) \<longrightarrow> la = la')"

lemma names_data [simp]:
  "dataFileNameForClosedSegment f la \<noteq> metaFileNameForClosedSegment f' la'"
  "dataFileNameForClosedSegment f la \<noteq> metaFileNameForActiveSegment f'"
  "dataFileNameForActiveSegment f \<noteq> metaFileNameForClosedSegment f' la'"
  "dataFileNameForActiveSegment f \<noteq> metaFileNameForActiveSegment f'"
  using data_names_other other_not_closed other_not_active by metis+

lemma closed_chain_inactive: "closed_chain env n cl es \<Longrightarrow> p \<in> set cl \<Longrightarrow> \<not> sg_mIsActive (snd p)"
  by (induction env n cl es rule: closed_chain.induct) auto

lemma in_directory:
  assumes "closed_chain env n (sl_mClosedSegments l) esc" and "sl_mActiveSegment l = Some act" and "sg_mIsActive act"
  shows "metaFileNameForClosedSegment f la \<in> fst ` set (sl_directory l) \<longleftrightarrow>
      (\<exists>p \<in> set (sl_mClosedSegments l). f = fst p \<and> la = sg_mLastIndex (snd p)) \<or>
      metaFileNameForClosedSegment f la \<in> fst ` set (sl_others l)"
    and "metaFileNameForActiveSegment f \<in> fst ` set (sl_directory l) \<longleftrightarrow>
      f = sg_mFirstIndex act \<or> metaFileNameForActiveSegment f \<in> fst ` set (sl_others l)"
    and "x \<in> fst ` set (sl_directory l) \<Longrightarrow> other_name dir x \<or>
      (\<exists>p \<in> set (sl_mClosedSegments l). x = metaFileNameForClosedSegment (fst p) (sg_mLastIndex (snd p))) \<or>
      x = metaFileNameForActiveSegment (sg_mFirstIndex act) \<or> x \<in> fst ` set (sl_others l)"
proof -
  have c: "fst ` set (seg_files (snd p)) = {dataFileNameForClosedSegment (fst p) (sg_mLastIndex (snd p)),
      metaFileNameForClosedSegment (fst p) (sg_mLastIndex (snd p))}" if "p \<in> set (sl_mClosedSegments l)" for p
    using closed_chain_keys[OF assms(1)] closed_chain_inactive[OF assms(1) that] that by (simp add: seg_files_def dataFileName_def metaFileName_def)
  have a: "fst ` set (seg_files act) = {dataFileNameForActiveSegment (sg_mFirstIndex act), metaFileNameForActiveSegment (sg_mFirstIndex act)}"
    using assms(3) by (simp add: seg_files_def dataFileName_def metaFileName_def)
  have d: "fst ` set (sl_directory l) = (\<Union>p \<in> set (sl_mClosedSegments l). {dataFileNameForClosedSegment (fst p) (sg_mLastIndex (snd p)),
      metaFileNameForClosedSegment (fst p) (sg_mLastIndex (snd p))}) \<union>
      {dataFileNameForActiveSegment (sg_mFirstIndex act), metaFileNameForActiveSegment (sg_mFirstIndex act)} \<union> fst ` set (sl_others l)"
    using c by (simp add: sl_directory_def assms(2) image_Un image_UN a flip: a) auto
  show "metaFileNameForClosedSegment f la \<in> fst ` set (sl_directory l) \<longleftrightarrow>
      (\<exists>p \<in> set (sl_mClosedSegments l). f = fst p \<and> la = sg_mLastIndex (snd p)) \<or>
      metaFileNameForClosedSegment f la \<in> fst ` set (sl_others l)"
    and "metaFileNameForActiveSegment f \<in> fst ` set (sl_directory l) \<longleftrightarrow>
      f = sg_mFirstIndex act \<or> metaFileNameForActiveSegment f \<in> fst ` set (sl_others l)"
    unfolding d using names_data[symmetric] by simp_all
  show "x \<in> fst ` set (sl_directory l) \<Longrightarrow> other_name dir x \<or>
      (\<exists>p \<in> set (sl_mClosedSegments l). x = metaFileNameForClosedSegment (fst p) (sg_mLastIndex (snd p))) \<or>
      x = metaFileNameForActiveSegment (sg_mFirstIndex act) \<or> x \<in> fst ` set (sl_others l)"
    unfolding d using data_names_other[of dir] by blast
qed

lemma dir_ok_old:
  assumes "dir_ok l" and "metaFileNameForClosedSegment f la \<in> fst ` set (sl_others l)"
  shows "f \<le> la \<and> la < sl_start l"
proof -
  have "other_name (sl_mLogDir l) (metaFileNameForClosedSegment f la) \<or>
      (\<exists>f' la'. metaFileNameForClosedSegment f la = metaFileNameForClosedSegment f' la' \<and> f' \<le> la' \<and> la' < sl_start l)"
    using assms unfolding dir_ok_def by meson
  then show ?thesis by (simp add: other_not_closed)
qed

lemma directory_listing_ok:
  assumes "sl_rep env l n esc esa act" and "dir_ok l" and "set ns = fst ` set (sl_directory l)" and "distinct ns"
  shows "listing_ok (sl_mLogDir l) ns"
proof -
  have r: "closed_chain env n (sl_mClosedSegments l) esc" "sl_mActiveSegment l = Some act" "sg_mIsActive act"
      "sg_mFirstIndex act = n + length esc" "n + length esc \<le> sl_mLastIndex l + 1"
    using assms(1) by (simp_all add: sl_rep_def)
  note D = in_directory[OF r(1-3)]
  note K = closed_chain_keys[OF r(1)]
  have st: "sl_start l = n" by (rule sl_rep_start[OF assms(1)])
  have "sl_mLastIndex l + 1 < 2 ^ 64" using assms(2) unfolding dir_ok_def by blast
  then have b: "n + length esc < 2 ^ 64" using r(5) by linarith
  have oth: "\<And>x. x \<in> fst ` set (sl_others l) \<Longrightarrow> other_name (sl_mLogDir l) x \<or>
      (\<exists>f la. x = metaFileNameForClosedSegment f la \<and> f \<le> la \<and> la < n)"
    and uni: "\<And>f la la'. metaFileNameForClosedSegment f la \<in> fst ` set (sl_others l) \<Longrightarrow>
        metaFileNameForClosedSegment f la' \<in> fst ` set (sl_others l) \<Longrightarrow> la = la'"
    using assms(2) unfolding dir_ok_def st by meson+
  have old: "f \<le> la \<and> la < n" if "metaFileNameForClosedSegment f la \<in> fst ` set (sl_others l)" for f la
    using oth[OF that] by (simp add: other_not_closed)
  have noact: False if "metaFileNameForActiveSegment f \<in> fst ` set (sl_others l)" for f
    using oth[OF that] by (simp add: other_not_active)
  have "other_name (sl_mLogDir l) x \<or> (\<exists>f la. x = metaFileNameForClosedSegment f la \<and> f < 2 ^ 64 \<and> la < 2 ^ 64) \<or>
      (\<exists>f. x = metaFileNameForActiveSegment f \<and> f < 2 ^ 64)" if "x \<in> set ns" for x
  proof -
    have x: "x \<in> fst ` set (sl_directory l)" using that unfolding assms(3) .
    consider "other_name (sl_mLogDir l) x"
      | p where "p \<in> set (sl_mClosedSegments l)" "x = metaFileNameForClosedSegment (fst p) (sg_mLastIndex (snd p))"
      | "x = metaFileNameForActiveSegment (n + length esc)"
      | f la where "x = metaFileNameForClosedSegment f la" "f \<le> la" "la < n"
      using D(3)[OF x, of "sl_mLogDir l", unfolded r(4)] oth[of x] by meson
    then show ?thesis
    proof cases
      case (2 p)
      then have "fst p < 2 ^ 64" "sg_mLastIndex (snd p) < 2 ^ 64" using K b by force+
      then show ?thesis using 2(2) by blast
    next
      case 3
      then show ?thesis using b by blast
    next
      case (4 f la)
      then have "f < 2 ^ 64" "la < 2 ^ 64" using b by linarith+
      then show ?thesis using 4(1) by blast
    qed blast
  qed
  moreover have "la = la'" if h: "metaFileNameForClosedSegment f la \<in> set ns" "metaFileNameForClosedSegment f la' \<in> set ns" for f la la'
  proof -
    have key: "\<And>p. p \<in> set (sl_mClosedSegments l) \<Longrightarrow> n \<le> fst p" using K by blast
    have eq: "p = q" if "p \<in> set (sl_mClosedSegments l)" "q \<in> set (sl_mClosedSegments l)" "fst p = fst q" for p q
      using om_ok_distinct[OF closed_chain_sorted[OF r(1)]] that by (metis eq_key_imp_eq_value prod.collapse)
    consider p q where "p \<in> set (sl_mClosedSegments l)" "q \<in> set (sl_mClosedSegments l)" "f = fst p" "f = fst q"
        "la = sg_mLastIndex (snd p)" "la' = sg_mLastIndex (snd q)"
      | p la where "p \<in> set (sl_mClosedSegments l)" "f = fst p" "metaFileNameForClosedSegment f la \<in> fst ` set (sl_others l)"
      | "metaFileNameForClosedSegment f la \<in> fst ` set (sl_others l)" "metaFileNameForClosedSegment f la' \<in> fst ` set (sl_others l)"
      using h unfolding assms(3) D(1) by blast
    then show ?thesis
    proof cases
      case (1 p q)
      then show ?thesis using eq[of p q] by simp
    next
      case (2 p la)
      then show ?thesis using key[of p] old[of f la] by simp
    qed (rule uni)
  qed
  moreover have "f = f'" if "metaFileNameForActiveSegment f \<in> set ns" "metaFileNameForActiveSegment f' \<in> set ns" for f f'
    using that noact unfolding assms(3) D(2) by blast
  ultimately show ?thesis using assms(4) unfolding listing_ok_def by blast
qed

lemma directory_listed:
  assumes "sl_rep env l n esc esa act" and "dir_ok l" and "set files = set (sl_directory l)" and "distinct (map fst files)"
    and "sl_mClosedSegments l0 = []" "sl_mActiveSegment l0 = None" "sl_others l0 = files" "sl_mLogDir l0 = sl_mLogDir l"
  shows "\<exists>R. listSegments env l0 = Inr (l0\<lparr>sl_mClosedSegments := R @ map (lazyOf env) (sl_mClosedSegments l),
      sl_mActiveSegment := Some (lazyActiveSegment env (sg_mFirstIndex act))\<rparr>) \<and>
    (\<forall>p \<in> set R. \<exists>f la. p = (f, lazyClosedSegment env f la) \<and> f \<le> la \<and> la < n)"
proof -
  have r: "closed_chain env n (sl_mClosedSegments l) esc" "sl_mActiveSegment l = Some act" "sg_mIsActive act"
    using assms(1) by (simp_all add: sl_rep_def)
  note D = in_directory[OF r(1-3)]
  note K = closed_chain_keys[OF r(1)]
  have ns: "set (map fst files) = fst ` set (sl_directory l)" using assms(3) by simp
  obtain M A where M: "listSegments env l0 = Inr (l0\<lparr>sl_mClosedSegments := M, sl_mActiveSegment := A\<rparr>)" "listed env (map fst files) l0 M A"
    using listSegments_fold[of l0 "map fst files" env] directory_listing_ok[OF assms(1,2) ns assms(4)]
    unfolding listSegments_def assms(5-8) by auto
  have A: "A = Some (lazyActiveSegment env (sg_mFirstIndex act))" using M(2) D(2) unfolding listed_def ns by blast
  have om: "om_ok M" using M(2) by (simp add: listed_def)
  have setM: "set M = {(f, lazyClosedSegment env f la) |f la. metaFileNameForClosedSegment f la \<in> fst ` set (sl_directory l)}"
    using M(2) assms(5) unfolding listed_def ns by simp
  define R where "R = filter (\<lambda>p. fst p < n) M"
  have old: "f \<le> la \<and> la < n" if "metaFileNameForClosedSegment f la \<in> fst ` set (sl_others l)" for f la
    using dir_ok_old[OF assms(2) that] unfolding sl_rep_start[OF assms(1)] .
  have live: "n \<le> f" if "\<exists>p \<in> set (sl_mClosedSegments l). f = fst p \<and> la = sg_mLastIndex (snd p)" for f la
    using K that by blast
  have "\<exists>f la. p = (f, lazyClosedSegment env f la) \<and> f \<le> la \<and> la < n" if "p \<in> set R" for p
  proof -
    have "p \<in> set M" "fst p < n" using that by (simp_all add: R_def)
    then obtain f la where p: "p = (f, lazyClosedSegment env f la)" "metaFileNameForClosedSegment f la \<in> fst ` set (sl_directory l)" "f < n"
      unfolding setM by fastforce
    then have "metaFileNameForClosedSegment f la \<in> fst ` set (sl_others l)" using live[of f la] unfolding D(1) by (meson leD)
    then show ?thesis using old p(1) by blast
  qed
  moreover have "filter (\<lambda>p. \<not> fst p < n) M = map (lazyOf env) (sl_mClosedSegments l)"
  proof (rule om_set_unique)
    show "om_ok (filter (\<lambda>p. \<not> fst p < n) M)" using om by (simp add: sorted_wrt_filter sorted_wrt_map)
    show "om_ok (map (lazyOf env) (sl_mClosedSegments l))"
      using closed_chain_sorted[OF r(1)] by (simp add: lazyOf_def comp_def)
    have here: "metaFileNameForClosedSegment f la \<in> fst ` set (sl_directory l) \<and> n \<le> f \<longleftrightarrow>
        (\<exists>p \<in> set (sl_mClosedSegments l). f = fst p \<and> la = sg_mLastIndex (snd p))" for f la
      using live[of f la] old[of f la] unfolding D(1) by (meson leD le_trans)
    have "p \<in> set M \<and> n \<le> fst p \<longleftrightarrow> p \<in> lazyOf env ` set (sl_mClosedSegments l)" for p
    proof -
      have "p \<in> set M \<and> n \<le> fst p \<longleftrightarrow> (\<exists>f la. p = (f, lazyClosedSegment env f la) \<and>
          (metaFileNameForClosedSegment f la \<in> fst ` set (sl_directory l) \<and> n \<le> f))"
        unfolding setM by fastforce
      then show ?thesis unfolding here by (auto simp: lazyOf_def)
    qed
    then show "set (filter (\<lambda>p. \<not> fst p < n) M) = set (map (lazyOf env) (sl_mClosedSegments l))"
      by (auto simp: not_less)
  qed
  ultimately show ?thesis using M(1) om_split[OF om, of n] A unfolding R_def by metis
qed

section \<open>Reopening a log\<close>

definition texts_ok :: "segment_log \<Rightarrow> bool" where
  "texts_ok l \<longleftrightarrow> sl_mCurrentTerm l < 2 ^ 64 \<and> sl_mVoteFor l < 2 ^ 64 \<and> sl_mFirstIndex l < 2 ^ 64 \<and>
     sl_currentTermFile l = Some (to_string (sl_mCurrentTerm l)) \<and> sl_voteForFile l = Some (to_string (sl_mVoteFor l)) \<and>
     sl_firstIndexFile l = Some (to_string (sl_mFirstIndex l))"

abbreviation texts :: "segment_log \<Rightarrow> string option \<times> string option \<times> string option" where
  "texts l \<equiv> (sl_currentTermFile l, sl_voteForFile l, sl_firstIndexFile l)"

abbreviation names :: "(string \<times> dir_file) list \<Rightarrow> string set" where
  "names files \<equiv> fst ` set files"

lemma fold_claim:
  "sl_others (fold claim_files sgs l) = filter (\<lambda>p. fst p \<notin> (\<Union>sg \<in> set sgs. names (seg_files sg))) (sl_others l)"
  "texts (fold claim_files sgs l) = texts l"
  by (induction sgs arbitrary: l) (auto simp: claim_files_def seg_files_def intro!: filter_cong)

lemma claim_live_others:
  "sl_others (claim_live l) = filter (\<lambda>p. fst p \<notin> names (sl_directory (l\<lparr>sl_others := []\<rparr>))) (sl_others l)"
  "texts (claim_live l) = texts l"
  unfolding claim_live_def fold_claim by (auto simp: sl_directory_def intro!: filter_cong split: option.splits)

lemma live_names:
  assumes "closed_chain env n cl es" and "closed_chain env n cl' es" and "ranges cl = ranges cl'"
    and "sg_mIsActive act" and "sg_mIsActive act'" and "sg_mFirstIndex act = sg_mFirstIndex act'"
    and "sl_mClosedSegments l = cl" and "sl_mActiveSegment l = Some act"
    and "sl_mClosedSegments l' = cl'" and "sl_mActiveSegment l' = Some act'"
  shows "names (sl_directory (l\<lparr>sl_others := []\<rparr>)) = names (sl_directory (l'\<lparr>sl_others := []\<rparr>))"
proof -
  have c: "map (map fst \<circ> seg_files \<circ> snd) cl = map (\<lambda>(f, la). [dataFileNameForClosedSegment f la, metaFileNameForClosedSegment f la]) (ranges cl)"
    if "closed_chain env n cl es" for cl
    using closed_chain_keys[OF that] closed_chain_inactive[OF that]
    by (auto simp: ranges_def seg_files_def dataFileName_def metaFileName_def)
  have n: "names (concat (map (seg_files \<circ> snd) cl)) = set (concat (map (map fst \<circ> seg_files \<circ> snd) cl))" for cl :: "(nat \<times> segment) list"
    by auto
  show ?thesis
    using assms(4-10) unfolding sl_directory_def
    by (simp add: image_Un n c[OF assms(1)] c[OF assms(2)] assms(3) seg_files_def dataFileName_def metaFileName_def
        del: set_concat set_map)
qed

lemma sl_same_claim_live: "sl_same l (claim_live l)"
  unfolding claim_live_def by (rule sl_same_fold) simp

lemma in_files_directory:
  assumes "set files = set (sl_directory l)" and "distinct (map fst files)"
    and "sg \<in> snd ` set (sl_mClosedSegments l) \<or> sl_mActiveSegment l = Some sg"
  shows "in_files files sg"
proof -
  have "set (seg_files sg) \<subseteq> set files" using assms(1,3) by (auto simp: sl_directory_def)
  then show ?thesis using assms(2) by (simp add: in_files_def seg_files_def)
qed

lemma sl_rep_nonempty:
  assumes "sl_rep env l n esc esa act"
  shows "sl_mClosedSegments l = [] \<or> sl_mFirstIndex l \<le> sl_mLastIndex l"
proof (cases "sl_mClosedSegments l = []")
  case False
  then have "sg_mLastIndex (snd (hd (sl_mClosedSegments l))) < n + length esc"
    using closed_chain_keys[of env n "sl_mClosedSegments l" esc] assms by (simp add: sl_rep_def)
  then show ?thesis using assms False by (simp add: sl_rep_def)
qed simp

lemma recoverSegments_ok:
  assumes "sl_rep env l n esc esa act" and "set files = set (sl_directory l)" and "distinct (map fst files)"
    and "\<forall>p \<in> set R. \<exists>f la. p = (f, lazyClosedSegment env f la) \<and> f \<le> la \<and> la < n"
    and "sl_mClosedSegments l0 = R @ map (lazyOf env) (sl_mClosedSegments l)"
    and "sl_mActiveSegment l0 = Some (lazyActiveSegment env (sg_mFirstIndex act))"
    and "sl_others l0 = files" and "sl_mFirstIndex l0 = sl_mFirstIndex l" and "sl_mLastIndex l0 = 0"
    and "sl_mSegmentDataSizeLimit l0 = sl_mSegmentDataSizeLimit l" "sl_mSegmentMetaSizeLimit l0 = sl_mSegmentMetaSizeLimit l"
  shows "\<exists>l' cl act'. recoverSegments env l0 = Inr l' \<and> closed_chain env n cl esc \<and> ranges cl = ranges (sl_mClosedSegments l) \<and>
    seg_rep env act' esa \<and> sg_mIsActive act' \<and> sg_mFirstIndex act' = sg_mFirstIndex act \<and>
    sl_mSegmentDataSizeLimit l \<le> sg_mDataSizeLimit act' \<and> sl_mSegmentMetaSizeLimit l \<le> sg_mMetaSizeLimit act' \<and>
    (if sl_mLastIndex l < sl_mFirstIndex l then sl_same (l0\<lparr>sl_mClosedSegments := cl, sl_mActiveSegment := None\<rparr>) l'
     else sl_same (l0\<lparr>sl_mClosedSegments := cl, sl_mActiveSegment := Some act', sl_mLastIndex := sl_mLastIndex l\<rparr>) l') \<and>
    texts l' = texts l0 \<and> distinct (map fst (sl_others l')) \<and>
    (if sl_mLastIndex l < sl_mFirstIndex l then names (sl_others l') \<subseteq> names files \<union> names (seg_files act')
     else names (sl_others l') \<subseteq> names files - names (sl_directory (l'\<lparr>sl_others := []\<rparr>)))"
proof -
  note r = assms(1)[unfolded sl_rep_def limits_ok_def]
  have ch: "closed_chain env n (sl_mClosedSegments l) esc" and act: "sl_mActiveSegment l = Some act" using r by blast+
  have skip: "\<forall>p \<in> set R. \<exists>f la. p = (f, lazyClosedSegment env f la) \<and> f \<le> la \<and> la < sl_mFirstIndex l"
    using assms(4) r by (meson less_le_trans)
  have fc: "\<forall>p \<in> set (sl_mClosedSegments l). in_files files (snd p)" using in_files_directory[OF assms(2,3)] by blast
  obtain cl where cl: "recoverClosed env files (sl_mFirstIndex l) None (sl_mClosedSegments l0) =
      Inr (cl, if sl_mClosedSegments l = [] then None else Some (n + length esc - 1))" "closed_chain env n cl esc"
      "ranges cl = ranges (sl_mClosedSegments l)"
    using recoverClosed_chain[OF ch fc, where prev = None and i = "sl_mFirstIndex l"] r
    unfolding assms(5) recoverClosed_skip[OF skip] by auto
  have fa: "in_files files act" using in_files_directory[OF assms(2,3)] act by blast
  have ar: "seg_rep env act esa" "sg_mIsActive act" "sl_mSegmentDataSizeLimit l mod se_pageSize env = 0"
      "sl_mSegmentMetaSizeLimit l mod se_pageSize env = 0"
    using r by blast+
  obtain act' where a: "sl_recoverSegment env (sl_mSegmentDataSizeLimit l) (sl_mSegmentMetaSizeLimit l) files
        (lazyActiveSegment env (sg_mFirstIndex act)) = Inr act'"
      "seg_rep env act' esa" "sg_mFirstIndex act' = sg_mFirstIndex act" "sg_mIsActive act'"
      "sl_mSegmentDataSizeLimit l \<le> sg_mDataSizeLimit act'" "sl_mSegmentMetaSizeLimit l \<le> sg_mMetaSizeLimit act'"
    using sl_recoverSegment_active[OF ar(1,2) fa ar(3,4)] by blast
  have last: "sg_mLastIndex act' = sl_mLastIndex l" using a(2,3) r by (simp add: seg_rep_def)
  define prev where "prev = (if sl_mClosedSegments l = [] then None else Some (n + length esc - 1))"
  define m where "m = l0\<lparr>sl_mClosedSegments := cl, sl_mLastIndex := (case prev of None \<Rightarrow> sl_mLastIndex l0 | Some i \<Rightarrow> i)\<rparr>"
  have prev: "prev \<noteq> None \<or> sg_mFirstIndex act \<le> sl_mFirstIndex l" "\<And>p. prev = Some p \<Longrightarrow> sg_mFirstIndex act = p + 1"
    using r by (auto simp: prev_def split: if_splits)
  have ra: "recoverActive env prev m = Inr (if sl_mFirstIndex l > sl_mLastIndex l
      then release_files act' (claim_files act' (m\<lparr>sl_mActiveSegment := None\<rparr>))
      else m\<lparr>sl_mActiveSegment := Some act', sl_mLastIndex := sl_mLastIndex l\<rparr>)"
    using a(1) prev assms(6-11) last by (simp add: recoverActive_def m_def split: option.splits)
  define l' where "l' = claim_live (if sl_mFirstIndex l > sl_mLastIndex l
      then release_files act' (claim_files act' (m\<lparr>sl_mActiveSegment := None\<rparr>))
      else m\<lparr>sl_mActiveSegment := Some act', sl_mLastIndex := sl_mLastIndex l\<rparr>)"
  have "recoverSegments env l0 = Inr l'"
    using cl(1) ra unfolding recoverSegments_def m_def prev_def l'_def assms(7,8) by simp
  moreover have "texts l' = texts l0"
    unfolding l'_def claim_live_others(2) by (simp add: m_def release_files_def claim_files_def)
  moreover have "distinct (map fst (sl_others l'))"
    using assms(3,7) unfolding l'_def claim_live_others(1)
    by (auto simp: m_def release_files_def claim_files_def seg_files_def dataFileName_def metaFileName_def distinct_map_filter
        split: if_splits)
  moreover have "if sl_mLastIndex l < sl_mFirstIndex l then names (sl_others l') \<subseteq> names files \<union> names (seg_files act')
     else names (sl_others l') \<subseteq> names files - names (sl_directory (l'\<lparr>sl_others := []\<rparr>))"
    using assms(7) sl_same_simps(1,2)[OF sl_same_claim_live]
    unfolding l'_def claim_live_others(1) by (auto simp: m_def release_files_def claim_files_def sl_directory_def)
  moreover have "if sl_mLastIndex l < sl_mFirstIndex l then sl_same (l0\<lparr>sl_mClosedSegments := cl, sl_mActiveSegment := None\<rparr>) l'
     else sl_same (l0\<lparr>sl_mClosedSegments := cl, sl_mActiveSegment := Some act', sl_mLastIndex := sl_mLastIndex l\<rparr>) l'"
  proof (cases "sl_mLastIndex l < sl_mFirstIndex l")
    case True
    have "sl_mClosedSegments l = []" using sl_rep_nonempty[OF assms(1)] True by linarith
    then have "m = l0\<lparr>sl_mClosedSegments := cl\<rparr>" using assms(9) by (simp add: m_def prev_def)
    then have "sl_same (l0\<lparr>sl_mClosedSegments := cl, sl_mActiveSegment := None\<rparr>)
        (claim_live (release_files act' (claim_files act' (m\<lparr>sl_mActiveSegment := None\<rparr>))))"
      using sl_same_trans[OF sl_same_trans[OF sl_same_files(1) sl_same_files(2)] sl_same_claim_live] by metis
    then show ?thesis using True unfolding l'_def by simp
  next
    case False
    then show ?thesis using sl_same_claim_live[of "l0\<lparr>sl_mClosedSegments := cl, sl_mActiveSegment := Some act', sl_mLastIndex := sl_mLastIndex l\<rparr>"]
      by (simp add: l'_def m_def)
  qed
  ultimately show ?thesis using cl(2,3) a(2-6) by (intro exI[of _ l'] exI[of _ cl] exI[of _ act']) simp
qed

lemma ranges_hd:
  "ranges cl = ranges cl' \<Longrightarrow> (cl = [] \<longleftrightarrow> cl' = []) \<and> (cl \<noteq> [] \<longrightarrow> sg_mLastIndex (snd (hd cl)) = sg_mLastIndex (snd (hd cl')))"
  by (cases cl; cases cl') (auto simp: ranges_def)

text \<open>What reopening keeps besides the contents: where the chain starts, and the dead files.\<close>

definition reopened :: "storage_env \<Rightarrow> segment_log \<Rightarrow> segment_log \<Rightarrow> bool" where
  "reopened env l l' \<longleftrightarrow> sl_inv env l' \<and> sl_abs env l' = sl_abs env l \<and> sl_start l' = sl_start l \<and> texts l' = texts l \<and>
     distinct (map fst (sl_others l')) \<and> names (sl_others l') \<subseteq> names (sl_others l)"

lemma directory_names: "names (sl_directory l) = names (sl_directory (l\<lparr>sl_others := []\<rparr>)) \<union> names (sl_others l)"
  by (auto simp: sl_directory_def image_Un)

lemma reopen_empty:
  assumes "sl_rep env l n esc esa act" and "sl_mLastIndex l < sl_mFirstIndex l"
    and "sl_mClosedSegments m = []" "sl_mActiveSegment m = None" "sl_mFirstIndex m = sl_mFirstIndex l" "sl_mLastIndex m = sl_mLastIndex l"
      "sl_mCurrentTerm m = sl_mCurrentTerm l" "sl_mVoteFor m = sl_mVoteFor l"
      "sl_mSegmentDataSizeLimit m = sl_mSegmentDataSizeLimit l" "sl_mSegmentMetaSizeLimit m = sl_mSegmentMetaSizeLimit l"
    and "texts m = texts l" and "distinct (map fst (sl_others m))"
    and "names (sl_others m) \<subseteq> names (sl_directory l) \<union> names (seg_files act)"
  shows "\<exists>l'. sl_newActive env m = Inr l' \<and> reopened env l l'"
proof -
  have f: "sl_mFirstIndex l = sl_mLastIndex l + 1" "1 \<le> sl_mFirstIndex l" "n + length esc + length esa = sl_mFirstIndex l" "esa = []"
    using assms(1,2) by (auto simp: sl_rep_def)
  have c: "sl_mClosedSegments l = []" using sl_rep_nonempty[OF assms(1)] assms(2) by linarith
  then have n: "esc = []" "n = sl_mFirstIndex l" and act: "sl_mActiveSegment l = Some act" "sg_mIsActive act" "sg_mFirstIndex act = n"
    using assms(1) f by (auto simp: sl_rep_def)
  obtain l' where l': "sl_newActive env m = Inr l'"
    using sl_newActive_total[of env m] assms(1,9,10) by (auto simp: sl_rep_def)
  note N = sl_newActive_ok[OF l' sl_rep_env[OF assms(1)], of "sl_mFirstIndex l" "[]"]
  obtain act' where rep: "sl_rep env l' (sl_mFirstIndex l) [] [] act'" using N(1) f assms(3-6) by auto
  have fl: "sl_mFirstIndex l' = sl_mFirstIndex l" "sl_mCurrentTerm l' = sl_mCurrentTerm l" "sl_mVoteFor l' = sl_mVoteFor l"
    using N(2,4,5) f assms(3-8) by simp_all
  have act': "sl_mActiveSegment l' = Some act'" "sg_mIsActive act'" "sg_mFirstIndex act' = n" using rep n by (auto simp: sl_rep_def)
  have same: "names (seg_files act') = names (seg_files act)" using act act' by (simp add: seg_files_def dataFileName_def metaFileName_def)
  obtain sg where sg: "l' = claim_files sg (m\<lparr>sl_mActiveSegment := Some sg\<rparr>)"
    using l' unfolding sl_newActive_def by (elim resE) blast
  have "sg = act'" using act'(1) unfolding sg sl_frame by simp
  then have cl: "l' = claim_files act' (m\<lparr>sl_mActiveSegment := Some act'\<rparr>)" using sg by simp
  have o: "names (sl_others l') = names (sl_others m) - names (seg_files act)"
    unfolding same[symmetric] cl by (auto simp: claim_files_def seg_files_def)
  have d: "names (sl_directory l) = names (seg_files act) \<union> names (sl_others l)" using c act(1) by (auto simp: sl_directory_def)
  have "names (sl_others l') \<subseteq> names (sl_others l)" using assms(13) unfolding o d by (simp add: Diff_subset_conv Un_commute)
  moreover have "distinct (map fst (sl_others l'))" "texts l' = texts l"
    using assms(11,12) unfolding cl by (auto simp: claim_files_def distinct_map_filter)
  moreover have "sl_abs env l' = sl_abs env l"
    unfolding sl_rep_abs[OF rep] sl_rep_abs[OF assms(1)] by (simp add: fl n(1) f(4))
  moreover have "sl_start l' = sl_start l" unfolding sl_rep_start[OF rep] sl_rep_start[OF assms(1)] by (rule n(2)[symmetric])
  ultimately show ?thesis using l' sl_rep_inv[OF rep] unfolding reopened_def by blast
qed

lemma reopen_reset:
  assumes "sl_rep env l n esc esa act" and "sl_mLastIndex l < sl_mFirstIndex l"
    and "sl_mFirstIndex l2 = sl_mFirstIndex l" "sl_mLastIndex l2 = 0" "sl_mSegmentDataSizeLimit l2 = sl_mSegmentDataSizeLimit l"
      "sl_mSegmentMetaSizeLimit l2 = sl_mSegmentMetaSizeLimit l" "sl_mCurrentTerm l2 = sl_mCurrentTerm l" "sl_mVoteFor l2 = sl_mVoteFor l"
      "texts l2 = texts l"
    and "sl_same (l2\<lparr>sl_mClosedSegments := cl, sl_mActiveSegment := None\<rparr>) l3"
    and "ranges cl = ranges (sl_mClosedSegments l)" "sg_mIsActive act'" "sg_mFirstIndex act' = sg_mFirstIndex act"
    and "texts l3 = texts l" "distinct (map fst (sl_others l3))" "names (sl_others l3) \<subseteq> names (sl_directory l) \<union> names (seg_files act')"
  shows "\<exists>l'. (let l4 = (if sl_mLastIndex l3 = 0 then l3\<lparr>sl_mLastIndex := sub64 (sl_mFirstIndex l3) 1\<rparr> else l3) in
     if sl_mActiveSegment l4 = None then sl_newActive env l4 else Inr l4) = Inr l' \<and> reopened env l l'"
proof -
  note f = sl_same_simps[OF assms(10)]
  define l4 where "l4 = (if sl_mLastIndex l3 = 0 then l3\<lparr>sl_mLastIndex := sub64 (sl_mFirstIndex l3) 1\<rparr> else l3)"
  have "cl = []" using sl_rep_nonempty[OF assms(1)] assms(2,11) by (simp add: ranges_def)
  moreover have "sl_mFirstIndex l = sl_mLastIndex l + 1" "1 \<le> sl_mFirstIndex l" using assms(1,2) by (auto simp: sl_rep_def)
  ultimately have l4: "sl_mClosedSegments l4 = []" "sl_mActiveSegment l4 = None" "sl_mFirstIndex l4 = sl_mFirstIndex l"
      "sl_mLastIndex l4 = sl_mLastIndex l" "sl_mCurrentTerm l4 = sl_mCurrentTerm l" "sl_mVoteFor l4 = sl_mVoteFor l"
      "sl_mSegmentDataSizeLimit l4 = sl_mSegmentDataSizeLimit l" "sl_mSegmentMetaSizeLimit l4 = sl_mSegmentMetaSizeLimit l"
    using f assms(3-8) by (simp_all add: l4_def)
  have t: "texts l4 = texts l" "distinct (map fst (sl_others l4))" using assms(14,15) by (simp_all add: l4_def)
  have "names (seg_files act') = names (seg_files act)"
    using assms(1,12,13) by (simp add: seg_files_def dataFileName_def metaFileName_def sl_rep_def)
  then have "names (sl_others l4) \<subseteq> names (sl_directory l) \<union> names (seg_files act)" using assms(16) by (simp add: l4_def)
  from reopen_empty[OF assms(1,2) l4 t this] show ?thesis using l4(2) unfolding l4_def[symmetric] by (simp add: Let_def)
qed

text \<open>The object once the three text files are read.\<close>

definition blank :: "segment_log \<Rightarrow> (string \<times> dir_file) list \<Rightarrow> segment_log" where
  "blank l files = \<lparr>sl_mLogDir = sl_mLogDir l, sl_mSegmentDataSizeLimit = sl_mSegmentDataSizeLimit l,
     sl_mSegmentMetaSizeLimit = sl_mSegmentMetaSizeLimit l, sl_mFirstIndex = sl_mFirstIndex l, sl_mLastIndex = 0,
     sl_mCurrentTerm = sl_mCurrentTerm l, sl_mVoteFor = sl_mVoteFor l, sl_mClosedSegments = [], sl_mActiveSegment = None,
     sl_currentTermFile = sl_currentTermFile l, sl_voteForFile = sl_voteForFile l, sl_firstIndexFile = sl_firstIndexFile l,
     sl_others = files, sl_drops = 0\<rparr>"

lemma open_blank:
  assumes "texts_ok l" and "listSegments env (blank l files) = Inr l2" and "recoverSegments env l2 = Inr l3"
  shows "SegmentLog_open env (sl_mLogDir l) (sl_mSegmentDataSizeLimit l) (sl_mSegmentMetaSizeLimit l)
      (sl_currentTermFile l) (sl_voteForFile l) (sl_firstIndexFile l) files =
    (let l4 = (if sl_mLastIndex l3 = 0 then l3\<lparr>sl_mLastIndex := sub64 (sl_mFirstIndex l3) 1\<rparr> else l3) in
     if sl_mActiveSegment l4 = None then sl_newActive env l4 else Inr l4)"
  using assms by (simp add: SegmentLog_open_def sl_init_def texts_ok_def recoverCurrentTerm_def recoverVoteFor_def recoverFirstIndex_def
      stoull_to_string blank_def)

lemma reopen_nonempty:
  assumes "sl_rep env l n esc esa act" and "\<not> sl_mLastIndex l < sl_mFirstIndex l" and "names files = names (sl_directory l)"
    and "closed_chain env n cl esc" "ranges cl = ranges (sl_mClosedSegments l)" "seg_rep env act' esa" "sg_mIsActive act'"
      "sg_mFirstIndex act' = sg_mFirstIndex act"
      "sl_mSegmentDataSizeLimit l \<le> sg_mDataSizeLimit act'" "sl_mSegmentMetaSizeLimit l \<le> sg_mMetaSizeLimit act'"
    and "sl_same ((blank l files)\<lparr>sl_mClosedSegments := cl, sl_mActiveSegment := Some act', sl_mLastIndex := sl_mLastIndex l\<rparr>) l'"
    and "texts l' = texts l" "distinct (map fst (sl_others l'))"
    and "names (sl_others l') \<subseteq> names files - names (sl_directory (l'\<lparr>sl_others := []\<rparr>))"
  shows "reopened env l l' \<and> sl_mLastIndex l' \<noteq> 0 \<and> sl_mActiveSegment l' = Some act'"
proof -
  note f = sl_same_simps[OF assms(11)]
  have rep: "sl_rep env l' n esc esa act'"
    using assms(1,4-10) f ranges_hd[OF assms(5)] unfolding sl_rep_def by (simp add: blank_def)
  have "names (sl_directory (l\<lparr>sl_others := []\<rparr>)) = names (sl_directory (l'\<lparr>sl_others := []\<rparr>))"
    using assms(1,5,8) rep f(1) unfolding sl_rep_def by (intro live_names) (auto simp: blank_def)
  then have "names (sl_others l') \<subseteq> names (sl_others l)" using assms(3,14) directory_names[of l] by auto
  moreover have "sl_abs env l' = sl_abs env l" unfolding sl_rep_abs[OF rep] sl_rep_abs[OF assms(1)] using f by (simp add: blank_def)
  moreover have "sl_mLastIndex l' \<noteq> 0" "sl_mActiveSegment l' = Some act'" using f assms(1,2) by (auto simp: sl_rep_def blank_def)
  ultimately show ?thesis
    using assms(12,13) sl_rep_inv[OF rep] sl_rep_start[OF rep] sl_rep_start[OF assms(1)] by (simp add: reopened_def)
qed

theorem SegmentLog_reopen:
  assumes "sl_inv env l" and "texts_ok l" and "dir_ok l" and "set files = set (sl_directory l)" and "distinct (map fst files)"
  shows "\<exists>l'. SegmentLog_open env (sl_mLogDir l) (sl_mSegmentDataSizeLimit l) (sl_mSegmentMetaSizeLimit l)
      (sl_currentTermFile l) (sl_voteForFile l) (sl_firstIndexFile l) files = Inr l' \<and>
    reopened env l l'"
proof -
  obtain n esc esa act where rep: "sl_rep env l n esc esa act" using assms(1) by (auto simp: sl_inv_def)
  obtain R where R: "listSegments env (blank l files) = Inr ((blank l files)\<lparr>sl_mClosedSegments := R @ map (lazyOf env) (sl_mClosedSegments l),
      sl_mActiveSegment := Some (lazyActiveSegment env (sg_mFirstIndex act))\<rparr>)"
      "\<forall>p \<in> set R. \<exists>f la. p = (f, lazyClosedSegment env f la) \<and> f \<le> la \<and> la < n"
    using directory_listed[OF rep assms(3-5), of "blank l files"] by (auto simp: blank_def)
  define l2 where "l2 = (blank l files)\<lparr>sl_mClosedSegments := R @ map (lazyOf env) (sl_mClosedSegments l),
      sl_mActiveSegment := Some (lazyActiveSegment env (sg_mFirstIndex act))\<rparr>"
  have l2: "sl_mClosedSegments l2 = R @ map (lazyOf env) (sl_mClosedSegments l)"
      "sl_mActiveSegment l2 = Some (lazyActiveSegment env (sg_mFirstIndex act))" "sl_others l2 = files"
      "sl_mFirstIndex l2 = sl_mFirstIndex l" "sl_mLastIndex l2 = 0" "sl_mSegmentDataSizeLimit l2 = sl_mSegmentDataSizeLimit l"
      "sl_mSegmentMetaSizeLimit l2 = sl_mSegmentMetaSizeLimit l" "sl_mCurrentTerm l2 = sl_mCurrentTerm l" "sl_mVoteFor l2 = sl_mVoteFor l"
      "texts l2 = texts l"
    by (simp_all add: l2_def blank_def)
  obtain l3 cl act' where l3: "recoverSegments env l2 = Inr l3" "closed_chain env n cl esc" "ranges cl = ranges (sl_mClosedSegments l)"
      "seg_rep env act' esa" "sg_mIsActive act'" "sg_mFirstIndex act' = sg_mFirstIndex act"
      "sl_mSegmentDataSizeLimit l \<le> sg_mDataSizeLimit act'" "sl_mSegmentMetaSizeLimit l \<le> sg_mMetaSizeLimit act'"
      "if sl_mLastIndex l < sl_mFirstIndex l then sl_same (l2\<lparr>sl_mClosedSegments := cl, sl_mActiveSegment := None\<rparr>) l3
       else sl_same (l2\<lparr>sl_mClosedSegments := cl, sl_mActiveSegment := Some act', sl_mLastIndex := sl_mLastIndex l\<rparr>) l3"
      "texts l3 = texts l2" "distinct (map fst (sl_others l3))"
      "if sl_mLastIndex l < sl_mFirstIndex l then names (sl_others l3) \<subseteq> names files \<union> names (seg_files act')
       else names (sl_others l3) \<subseteq> names files - names (sl_directory (l3\<lparr>sl_others := []\<rparr>))"
    using recoverSegments_ok[OF rep assms(4,5) R(2) l2(1-7)] by blast
  note op = open_blank[OF assms(2) R(1)[folded l2_def] l3(1)]
  have nf: "names files = names (sl_directory l)" using assms(4) by simp
  show ?thesis
  proof (cases "sl_mLastIndex l < sl_mFirstIndex l")
    case True
    show ?thesis
      using reopen_reset[OF rep True l2(4-10) _ l3(3,5,6) l3(10)[unfolded l2(10)] l3(11)] l3(9,12) True nf unfolding op by simp
  next
    case False
    then show ?thesis
      using reopen_nonempty[OF rep False nf l3(2-8) _ l3(10)[unfolded l2(10)] l3(11)] l3(9,12) unfolding op by (simp add: l2_def)
  qed
qed

text \<open>A log on an empty directory is empty, and can itself be reopened.\<close>

theorem SegmentLog_fresh:
  assumes "env_ok env" and "limits_ok env dataLimit metaLimit"
  shows "\<exists>l. SegmentLog_open env dir dataLimit metaLimit None None None [] = Inr l \<and> sl_inv env l \<and>
    sl_abs env l = \<lparr>al_first = 1, al_entries = [], al_term = 0, al_vote = 0\<rparr> \<and> texts_ok l \<and> sl_others l = []"
proof -
  define m where "m = \<lparr>sl_mLogDir = dir, sl_mSegmentDataSizeLimit = dataLimit, sl_mSegmentMetaSizeLimit = metaLimit,
     sl_mFirstIndex = 1, sl_mLastIndex = 0, sl_mCurrentTerm = 0, sl_mVoteFor = 0, sl_mClosedSegments = [], sl_mActiveSegment = None,
     sl_currentTermFile = Some (to_string 0), sl_voteForFile = Some (to_string 0), sl_firstIndexFile = Some (to_string 1),
     sl_others = [], sl_drops = 0\<rparr>"
  obtain l where l: "sl_newActive env m = Inr l" using sl_newActive_total[of env m] assms(2) by (auto simp: m_def)
  have op: "SegmentLog_open env dir dataLimit metaLimit None None None [] = Inr l"
    using l by (simp add: SegmentLog_open_def sl_init_def recoverCurrentTerm_def recoverVoteFor_def recoverFirstIndex_def
        persistCurrentTerm_def persistVoteFor_def persistFirstIndex_def listSegments_def recoverSegments_def recoverActive_def
        claim_live_def m_def)
  note N = sl_newActive_ok[OF l assms(1), of 1 "[]"]
  obtain act where rep: "sl_rep env l 1 [] [] act" using N(1) by (auto simp: m_def)
  have f: "sl_mFirstIndex l = 1" "sl_mLastIndex l = 0" "sl_mCurrentTerm l = 0" "sl_mVoteFor l = 0" using N(2-) by (auto simp: m_def)
  obtain act' where l': "l = claim_files act' (m\<lparr>sl_mActiveSegment := Some act'\<rparr>)" using l by (auto simp: sl_newActive_def)
  have "texts_ok l" by (simp add: texts_ok_def l' sl_frame claim_files_def m_def)
  moreover have "sl_others l = []" by (simp add: l' claim_files_def m_def)
  ultimately show ?thesis using op sl_rep_inv[OF rep] sl_rep_abs[OF rep] f by simp
qed

end
