(* ===== verification/SegmentLog_Durable.thy ===== *)
theory SegmentLog_Durable
  imports SegmentLog_Recovery
begin

text \<open>
  The directory invariant: which files may lie around next to those of the live segments.
  Every operation of the log keeps it, so that the log can be reopened after any run.
\<close>

section \<open>Files that are not live\<close>

text \<open>A file renamed by \<^verbatim>\<open>dropSegment\<close>, or one of a closed segment below the chain.\<close>

definition dropped_name :: "string \<Rightarrow> bool" where
  "dropped_name n \<longleftrightarrow> (\<exists>pre t. n = pre @ ''.dropped.'' @ to_string t)"

definition retained_name :: "nat \<Rightarrow> string \<Rightarrow> bool" where
  "retained_name start n \<longleftrightarrow> (\<exists>f la. f \<le> la \<and> la < start \<and>
     (n = dataFileNameForClosedSegment f la \<or> n = metaFileNameForClosedSegment f la))"

definition dead_files :: "segment_log \<Rightarrow> bool" where
  "dead_files l \<longleftrightarrow> distinct (map fst (sl_others l)) \<and>
     (\<forall>n \<in> fst ` set (sl_others l). dropped_name n \<or> retained_name (sl_start l) n) \<and>
     (\<forall>f la la'. metaFileNameForClosedSegment f la \<in> fst ` set (sl_others l) \<longrightarrow>
        metaFileNameForClosedSegment f la' \<in> fst ` set (sl_others l) \<longrightarrow> la = la')"

lemma data_of_meta:
  "dataFileNameForClosedSegment f la = take (length (metaFileNameForClosedSegment f la) - 5) (metaFileNameForClosedSegment f la) @ ''.data''"
  "metaFileNameForClosedSegment f la = take (length (dataFileNameForClosedSegment f la) - 5) (dataFileNameForClosedSegment f la) @ ''.meta''"
  "dataFileNameForActiveSegment f = take (length (metaFileNameForActiveSegment f) - 5) (metaFileNameForActiveSegment f) @ ''.data''"
  "metaFileNameForActiveSegment f = take (length (dataFileNameForActiveSegment f) - 5) (dataFileNameForActiveSegment f) @ ''.meta''"
  by (simp_all add: dataFileNameForClosedSegment_def metaFileNameForClosedSegment_def dataFileNameForActiveSegment_def
      metaFileNameForActiveSegment_def)

lemma data_inject [simp]:
  "dataFileNameForClosedSegment f la = dataFileNameForClosedSegment f' la' \<longleftrightarrow> f = f' \<and> la = la'"
  "dataFileNameForActiveSegment f = dataFileNameForActiveSegment f' \<longleftrightarrow> f = f'"
  "dataFileNameForClosedSegment f la \<noteq> dataFileNameForActiveSegment f'"
  using data_of_meta(2,4) metaClosed_inject metaActive_inject metaClosed_not_active by metis+

lemmas names_distinct [simp] = names_data[symmetric] data_inject(3)[symmetric]

lemma dropped_last:
  assumes "dropped_name n" shows "n \<noteq> [] \<and> is_digit (last n)"
proof -
  obtain pre t where n: "n = pre @ ''.dropped.'' @ to_string t" using assms by (auto simp: dropped_name_def)
  have "to_string t \<noteq> []" by simp
  then have "last n = last (to_string t)" "last (to_string t) \<in> set (to_string t)" using n by (simp_all add: last_append)
  then show ?thesis using to_string_digits[of t] n by auto
qed

lemma segment_names_last:
  "last (dataFileNameForClosedSegment f la) = CHR ''a''" "last (metaFileNameForClosedSegment f la) = CHR ''a''"
  "last (dataFileNameForActiveSegment f) = CHR ''a''" "last (metaFileNameForActiveSegment f) = CHR ''a''"
  by (simp_all add: dataFileNameForClosedSegment_def metaFileNameForClosedSegment_def dataFileNameForActiveSegment_def
      metaFileNameForActiveSegment_def)

lemma dropped_not_segment [simp]:
  "\<not> dropped_name (dataFileNameForClosedSegment f la)" "\<not> dropped_name (metaFileNameForClosedSegment f la)"
  "\<not> dropped_name (dataFileNameForActiveSegment f)" "\<not> dropped_name (metaFileNameForActiveSegment f)"
  using dropped_last segment_names_last by (fastforce simp: is_digit_def)+

lemma retained_simps [simp]:
  "retained_name n (dataFileNameForClosedSegment f la) \<longleftrightarrow> f \<le> la \<and> la < n"
  "retained_name n (metaFileNameForClosedSegment f la) \<longleftrightarrow> f \<le> la \<and> la < n"
  "\<not> retained_name n (dataFileNameForActiveSegment f)" "\<not> retained_name n (metaFileNameForActiveSegment f)"
  by (auto simp: retained_name_def)

lemma retained_mono: "retained_name n x \<Longrightarrow> n \<le> n' \<Longrightarrow> retained_name n' x"
  by (auto simp: retained_name_def)

section \<open>Live files\<close>

lemma seg_files_names:
  "map fst (seg_files sg) = [dataFileName sg, metaFileName sg]"
  by (simp add: seg_files_def)

lemma closed_names_distinct:
  assumes "closed_chain env n cl es"
  shows "distinct (map fst (concat (map (seg_files \<circ> snd) cl))) \<and>
    (\<forall>x \<in> set (map fst (concat (map (seg_files \<circ> snd) cl))). \<exists>p \<in> set cl.
       x = dataFileNameForClosedSegment (fst p) (sg_mLastIndex (snd p)) \<or> x = metaFileNameForClosedSegment (fst p) (sg_mLastIndex (snd p)))"
  using assms
proof (induction cl arbitrary: n es)
  case (Cons p cl)
  obtain f sg where p: "p = (f, sg)" by fastforce
  obtain es1 es2 :: "log_entry list" where e: "es1 \<noteq> []" "closed_chain env (n + length es1) cl es2"
      "f = n" "sg_mFirstIndex sg = n" "\<not> sg_mIsActive sg"
    using Cons.prems(1) unfolding p closed_chain.simps by blast
  have nm: "dataFileName sg = dataFileNameForClosedSegment n (sg_mLastIndex sg)" "metaFileName sg = metaFileNameForClosedSegment n (sg_mLastIndex sg)"
    using e(4,5) by (simp_all add: dataFileName_def metaFileName_def)
  have gt: "\<forall>q \<in> set cl. n < fst q" using closed_chain_keys[OF e(2)] e(1) by (cases es1) auto
  note I = Cons.IH[OF e(2)]
  have "dataFileName sg \<notin> set (map fst (concat (map (seg_files \<circ> snd) cl)))"
    "metaFileName sg \<notin> set (map fst (concat (map (seg_files \<circ> snd) cl)))"
    using I gt unfolding nm by fastforce+
  moreover have "map fst (concat (map (seg_files \<circ> snd) (p # cl))) =
      dataFileName sg # metaFileName sg # map fst (concat (map (seg_files \<circ> snd) cl))"
    by (simp add: p seg_files_names)
  moreover have "dataFileName sg \<noteq> metaFileName sg" by (simp add: nm)
  ultimately show ?case using I p e(3) nm by simp
qed simp

lemma dead_dir_ok:
  assumes "sl_inv env l" and "dead_files l" and "sl_mLastIndex l + 1 < 2 ^ 64"
  shows "dir_ok l"
proof -
  obtain n esc esa act where rep: "sl_rep env l n esc esa act" using assms(1) by (auto simp: sl_inv_def)
  have r: "closed_chain env n (sl_mClosedSegments l) esc" "sl_mActiveSegment l = Some act" "sg_mIsActive act" "sl_start l = n"
    using rep sl_rep_start[OF rep] by (simp_all add: sl_rep_def)
  let ?C = "map fst (concat (map (seg_files \<circ> snd) (sl_mClosedSegments l)))"
  note C = closed_names_distinct[OF r(1)]
  have A: "map fst (seg_files act) = [dataFileNameForActiveSegment (sg_mFirstIndex act), metaFileNameForActiveSegment (sg_mFirstIndex act)]"
    using r(3) by (simp add: seg_files_def dataFileName_def metaFileName_def)
  have O: "dropped_name x \<or> retained_name n x" if "x \<in> set (map fst (sl_others l))" for x
    using assms(2) that unfolding dead_files_def r(4) set_map by blast
  have "set ?C \<inter> set (map fst (seg_files act)) = {}" using C unfolding A by fastforce
  moreover have "set ?C \<inter> set (map fst (sl_others l)) = {}"
  proof (rule ccontr)
    assume "set ?C \<inter> set (map fst (sl_others l)) \<noteq> {}"
    then obtain x where x: "x \<in> set ?C" "x \<in> set (map fst (sl_others l))" by blast
    then show False using C O[OF x(2)] closed_chain_keys[OF r(1)] by fastforce
  qed
  moreover have "set (map fst (seg_files act)) \<inter> set (map fst (sl_others l)) = {}"
    using O unfolding A by fastforce
  ultimately have "distinct (map fst (sl_directory l))"
    using C A assms(2) r(2) by (simp add: sl_directory_def dead_files_def Int_Un_distrib del: set_map)
  moreover have "other_name (sl_mLogDir l) x \<or> (\<exists>f la. x = metaFileNameForClosedSegment f la \<and> f \<le> la \<and> la < n)"
    if "x \<in> fst ` set (sl_others l)" for x
    using O[of x] that other_dropped data_names_other(1) by (auto simp: dropped_name_def retained_name_def)
  ultimately show ?thesis using assms(2,3) unfolding dir_ok_def dead_files_def r(4) by blast
qed

section \<open>How the files of an operation may change\<close>

text \<open>Files are claimed by a live segment or renamed when one is dropped, nothing else.\<close>

definition dead_le :: "segment_log \<Rightarrow> segment_log \<Rightarrow> bool" where
  "dead_le l l' \<longleftrightarrow> sl_currentTermFile l' = sl_currentTermFile l \<and> sl_voteForFile l' = sl_voteForFile l \<and>
     sl_firstIndexFile l' = sl_firstIndexFile l \<and>
     (distinct (map fst (sl_others l)) \<longrightarrow> distinct (map fst (sl_others l'))) \<and>
     (\<forall>n \<in> fst ` set (sl_others l'). n \<in> fst ` set (sl_others l) \<or> dropped_name n)"

lemma dead_le_refl [simp]:
  "dead_le l l" "dead_le l (l\<lparr>sl_mActiveSegment := a\<rparr>)" "dead_le l (l\<lparr>sl_mLastIndex := i\<rparr>)"
  "dead_le l (l\<lparr>sl_mClosedSegments := c\<rparr>)" "dead_le l (l\<lparr>sl_mFirstIndex := i\<rparr>)"
  by (simp_all add: dead_le_def)

lemma dead_le_put [simp]: "dead_le l (put_segment r sg l)"
  by (cases r) simp_all

lemma dead_le_trans: "dead_le a b \<Longrightarrow> dead_le b c \<Longrightarrow> dead_le a c"
  unfolding dead_le_def by metis

lemma dead_le_claim [simp]: "dead_le l (claim_files sg l)"
  by (auto simp: dead_le_def claim_files_def distinct_map_filter)

lemma dead_le_drop [simp]: "dead_le l (dropSegment env sg l)"
proof -
  have d: "dropped_name (x @ ''.dropped.'' @ to_string t)" for x t unfolding dropped_name_def by blast
  have ne: "dataFileName sg @ suffix \<noteq> metaFileName sg @ suffix" for suffix
    by (simp add: dataFileName_def metaFileName_def)
  show ?thesis
    using d ne by (auto simp: dead_le_def dropSegment_def Let_def distinct_map_filter simp del: append.simps append_assoc)
qed

lemma dead_le_drops [simp]: "dead_le l (fold (dropSegment env) sgs l)"
  by (induction sgs arbitrary: l) (auto intro: dead_le_trans dead_le_drop)

lemma dead_le_newActive: "sl_newActive env l = Inr l' \<Longrightarrow> dead_le l l'"
  by (auto simp: sl_newActive_def intro: dead_le_trans[OF dead_le_refl(2) dead_le_claim])

lemma dead_le_files:
  assumes "dead_le l l'" and "dead_files l" and "sl_start l \<le> sl_start l'"
  shows "dead_files l'"
proof -
  have n: "x \<in> fst ` set (sl_others l) \<or> dropped_name x" if "x \<in> fst ` set (sl_others l')" for x
    using assms(1) that unfolding dead_le_def by blast
  have "dropped_name x \<or> retained_name (sl_start l') x" if "x \<in> fst ` set (sl_others l')" for x
    using n[OF that] assms(2) retained_mono[OF _ assms(3)] unfolding dead_files_def by blast
  moreover have m: "metaFileNameForClosedSegment f la \<in> fst ` set (sl_others l)"
    if "metaFileNameForClosedSegment f la \<in> fst ` set (sl_others l')" for f la
    using n[OF that] by simp
  moreover have "la = la'" if "metaFileNameForClosedSegment f la \<in> fst ` set (sl_others l')"
      "metaFileNameForClosedSegment f la' \<in> fst ` set (sl_others l')" for f la la'
    using m[OF that(1)] m[OF that(2)] assms(2) unfolding dead_files_def by meson
  moreover have "distinct (map fst (sl_others l'))" using assms(1,2) unfolding dead_files_def dead_le_def by meson
  ultimately show ?thesis unfolding dead_files_def by meson
qed

lemma sl_start_act: "sl_mClosedSegments l = [] \<Longrightarrow> sl_mActiveSegment l = Some act \<Longrightarrow> sl_start l = sg_mFirstIndex act"
  by (simp add: sl_start_def)

lemma sl_start_closed: "sl_mClosedSegments l = p # cl \<Longrightarrow> sl_start l = fst p"
  by (simp add: sl_start_def)

lemma rollActiveSegment_dead:
  assumes "rollActiveSegment env l = Inr l'" and "env_ok env" and "om_ok (sl_mClosedSegments l)"
    and "\<forall>p \<in> set (sl_mClosedSegments l). \<forall>act. sl_mActiveSegment l = Some act \<longrightarrow> fst p < sg_mFirstIndex act"
  shows "dead_le l l' \<and> sl_start l' = sl_start l"
proof -
  obtain act where a: "sl_mActiveSegment l = Some act" "sg_mIsActive act"
    and n: "sl_newActive env (claim_files (act\<lparr>sg_mIsActive := False\<rparr>)
      (l\<lparr>sl_mClosedSegments := om_upd (sg_mFirstIndex act) (act\<lparr>sg_mIsActive := False\<rparr>) (sl_mClosedSegments l), sl_mActiveSegment := None\<rparr>)) = Inr l'"
    using assms(1) unfolding rollActiveSegment_def sg_closeActiveSegment_def by (elim resE) auto
  have upd: "om_upd (sg_mFirstIndex act) (act\<lparr>sg_mIsActive := False\<rparr>) (sl_mClosedSegments l) =
      sl_mClosedSegments l @ [(sg_mFirstIndex act, act\<lparr>sg_mIsActive := False\<rparr>)]"
    using assms(4) a(1) by (intro om_upd_after) blast
  have "dead_le l l'"
    using dead_le_trans[OF dead_le_trans[OF dead_le_trans[OF dead_le_refl(4) dead_le_refl(2)] dead_le_claim] dead_le_newActive[OF n]] .
  moreover have "sl_mClosedSegments l' = sl_mClosedSegments l @ [(sg_mFirstIndex act, act\<lparr>sg_mIsActive := False\<rparr>)]"
    using sl_newActive_Inr[OF n assms(2)] sl_same_simps(1) by (fastforce simp: sl_frame upd)
  ultimately show ?thesis using a(1) by (cases "sl_mClosedSegments l") (simp_all add: sl_start_def)
qed

lemma sg_appendEntries_first: "sg_appendEntries env es sg = Inr sg' \<Longrightarrow> sg_mFirstIndex sg' = sg_mFirstIndex sg"
  by (auto simp: sg_appendEntries_def sg_appendData_def sg_appendMeta_def)

lemma sl_append_dead:
  assumes "sl_inv env l" and "sl_append env es l = Inr l'"
  shows "dead_le l l' \<and> sl_start l' = sl_start l"
proof -
  obtain n esc esa act where r: "sl_rep env l n esc esa act" using assms by (auto simp: sl_inv_def)
  have act: "sl_mActiveSegment l = Some act" "closed_chain env n (sl_mClosedSegments l) esc" "sg_mFirstIndex act = n + length esc"
    using r by (auto simp: sl_rep_def)
  obtain roll m act1 act2 where d: "shouldRoll env es act = Inr roll" "(if roll then rollActiveSegment env l else Inr l) = Inr m"
      "sl_mActiveSegment m = Some act1" "sg_appendEntries env es act1 = Inr act2"
      "l' = m\<lparr>sl_mActiveSegment := Some act2, sl_mLastIndex := sl_mLastIndex m + length es\<rparr>"
    using assms(2) act(1) unfolding sl_append_def by (elim resE) auto
  have lt: "\<forall>p \<in> set (sl_mClosedSegments l). \<forall>act. sl_mActiveSegment l = Some act \<longrightarrow> fst p < sg_mFirstIndex act"
    using closed_chain_keys[OF act(2)] act(1,3) by fastforce
  have m: "dead_le l m \<and> sl_start m = sl_start l"
    using rollActiveSegment_dead[OF _ sl_rep_env[OF r] closed_chain_sorted[OF act(2)] lt] d(2) by (cases roll) auto
  have "sg_mFirstIndex act2 = sg_mFirstIndex act1" using d(4) by (rule sg_appendEntries_first)
  then have "sl_start l' = sl_start m" using d(3,5) by (simp add: sl_start_def split: list.splits)
  moreover have "dead_le m l'" unfolding d(5) by (rule dead_le_trans[OF dead_le_refl(2) dead_le_refl(3)])
  ultimately show ?thesis using m dead_le_trans by auto
qed

lemma ts_choose_dead: "ts_choose k l = Inr (l', dropped, seg) \<Longrightarrow> dead_le l l'"
  unfolding ts_choose_def
  by (elim resE) (auto simp: Let_def dead_le_def split: if_splits)

lemma ts_cut_dead: "ts_cut k dropped seg l = Inr (l', dropped') \<Longrightarrow> dead_le l l'"
  unfolding ts_cut_def
  by (elim resE) (auto intro: dead_le_trans[OF dead_le_put dead_le_claim] split: if_splits seg_ref.splits)

lemma sl_truncateSuffix_dead:
  assumes "sl_truncateSuffix env k l = Inr l'"
  shows "dead_le l l'"
proof (cases "sl_mLastIndex l \<le> k")
  case True
  then show ?thesis using assms by (simp add: sl_truncateSuffix_def)
next
  case False
  obtain m dropped seg m' dropped' where d: "ts_choose k (l\<lparr>sl_mLastIndex := k\<rparr>) = Inr (m, dropped, seg)"
      "ts_cut k dropped seg m = Inr (m', dropped')"
      "(if sl_mActiveSegment (fold (dropSegment env) dropped' m') = None then sl_newActive env (fold (dropSegment env) dropped' m')
        else Inr (fold (dropSegment env) dropped' m')) = Inr l'"
    using assms False unfolding sl_truncateSuffix_def Let_def by (elim resE) auto
  have m: "dead_le l m" using dead_le_trans[OF dead_le_refl(3) ts_choose_dead[OF d(1)]] .
  have m': "dead_le l (fold (dropSegment env) dropped' m')"
    using dead_le_trans[OF dead_le_trans[OF m ts_cut_dead[OF d(2)]] dead_le_drops] .
  show ?thesis using d(3) dead_le_trans[OF m' dead_le_newActive] m' by (auto split: if_splits)
qed

text \<open>Compacting: the closed segments below the new first index are left behind as they are.\<close>

lemma fold_release:
  "sl_others (fold (\<lambda>p. release_files (snd p)) cl l) = concat (map (seg_files \<circ> snd) (rev cl)) @ sl_others l"
  "sl_currentTermFile (fold (\<lambda>p. release_files (snd p)) cl l) = sl_currentTermFile l"
  "sl_voteForFile (fold (\<lambda>p. release_files (snd p)) cl l) = sl_voteForFile l"
  "sl_firstIndexFile (fold (\<lambda>p. release_files (snd p)) cl l) = sl_firstIndexFile l"
  by (induction cl arbitrary: l) (simp_all add: release_files_def)

lemma tp_closed_chain:
  assumes "closed_chain env n cl es"
  shows "\<exists>es1 es2. es = es1 @ es2 \<and> closed_chain env n (takeWhile (\<lambda>p. sg_mLastIndex (snd p) < k) cl) es1 \<and>
    closed_chain env (n + length es1) (dropWhile (\<lambda>p. sg_mLastIndex (snd p) < k) cl) es2"
  using assms closed_chain_append[of env n "takeWhile (\<lambda>p. sg_mLastIndex (snd p) < k) cl" "dropWhile (\<lambda>p. sg_mLastIndex (snd p) < k) cl" es]
  by simp

lemma distinct_concat_rev: "distinct (concat (rev xss)) = distinct (concat xss)"
  by (induction xss) auto

lemma released_dead:
  assumes "closed_chain env n cl es1" and "dead_files l" and "sl_start l = n"
    and "sl_others l' = concat (map (seg_files \<circ> snd) (rev cl)) @ sl_others l" and "sl_start l' = n + length es1"
  shows "dead_files l'"
proof -
  let ?C = "map fst (concat (map (seg_files \<circ> snd) (rev cl)))"
  note C = closed_names_distinct[OF assms(1)] and K = closed_chain_keys[OF assms(1)]
  have "?C = concat (rev (map (map fst \<circ> seg_files \<circ> snd) cl))" "map fst (concat (map (seg_files \<circ> snd) cl)) = concat (map (map fst \<circ> seg_files \<circ> snd) cl)"
    by (simp_all add: map_concat rev_map comp_assoc)
  then have dC: "distinct ?C" and sC: "set ?C = set (map fst (concat (map (seg_files \<circ> snd) cl)))"
    using C distinct_concat_rev by (simp, simp)
  have inC: "\<exists>p \<in> set cl. x = dataFileNameForClosedSegment (fst p) (sg_mLastIndex (snd p)) \<or> x = metaFileNameForClosedSegment (fst p) (sg_mLastIndex (snd p))"
    if "x \<in> set ?C" for x using C that unfolding sC by blast
  have O: "dropped_name x \<or> retained_name n x" if "x \<in> set (map fst (sl_others l))" for x
    using assms(2) that unfolding dead_files_def assms(3) set_map by blast
  have out: "n \<le> f" if "metaFileNameForClosedSegment f la \<in> set ?C" for f la using inC[OF that] K by fastforce
  have old: "la < n" "f \<le> la" if "metaFileNameForClosedSegment f la \<in> set (map fst (sl_others l))" for f la using O[OF that] by auto
  have disj: "set ?C \<inter> set (map fst (sl_others l)) = {}"
  proof (rule ccontr)
    assume "set ?C \<inter> set (map fst (sl_others l)) \<noteq> {}"
    then obtain x where x: "x \<in> set ?C" "x \<in> set (map fst (sl_others l))" by blast
    then show False using inC[OF x(1)] O[OF x(2)] K by fastforce
  qed
  have names: "set (map fst (sl_others l')) = set ?C \<union> set (map fst (sl_others l))" using assms(4) by auto
  have "distinct (map fst (sl_others l'))" using dC disj assms(2,4) by (simp add: dead_files_def del: set_map)
  moreover have "dropped_name x \<or> retained_name (sl_start l') x" if "x \<in> set (map fst (sl_others l'))" for x
  proof (cases "x \<in> set ?C")
    case True
    then show ?thesis using inC[OF True] K by (fastforce simp: assms(5))
  next
    case False
    then show ?thesis using that O[of x] retained_mono[of n x "n + length es1"] unfolding names assms(5) by auto
  qed
  moreover have "la = la'" if "metaFileNameForClosedSegment f la \<in> set (map fst (sl_others l'))"
      "metaFileNameForClosedSegment f la' \<in> set (map fst (sl_others l'))" for f la la'
  proof (cases "n \<le> f")
    case True
    then have "metaFileNameForClosedSegment f la \<in> set ?C" "metaFileNameForClosedSegment f la' \<in> set ?C"
      using that old[of f la] old[of f la'] unfolding names by force+
    then show ?thesis using inC[of "metaFileNameForClosedSegment f la"] inC[of "metaFileNameForClosedSegment f la'"]
        om_ok_distinct[OF closed_chain_sorted[OF assms(1)]] by (auto dest: eq_key_imp_eq_value)
  next
    case False
    then have "metaFileNameForClosedSegment f la \<in> set (map fst (sl_others l))" "metaFileNameForClosedSegment f la' \<in> set (map fst (sl_others l))"
      using that out[of f la] out[of f la'] unfolding names by blast+
    then show ?thesis using assms(2) unfolding dead_files_def set_map by meson
  qed
  ultimately show ?thesis unfolding dead_files_def set_map by blast
qed

lemma sl_truncatePrefix_dead:
  assumes "sl_inv env l" and "dead_files l" and "k \<le> sl_mLastIndex l" and "sl_mFirstIndex l < k" and "sl_truncatePrefix env k l = Inr l'"
  shows "dead_files l' \<and> sl_currentTermFile l' = sl_currentTermFile l \<and> sl_voteForFile l' = sl_voteForFile l \<and>
    sl_firstIndexFile l' = Some (to_string k)"
proof -
  obtain n esc esa act where rep: "sl_rep env l n esc esa act" using assms(1) by (auto simp: sl_inv_def)
  have r: "closed_chain env n (sl_mClosedSegments l) esc" "sl_mActiveSegment l = Some act" "sg_mFirstIndex act = n + length esc"
      "sg_mLastIndex act = sl_mLastIndex l" "sl_start l = n"
    using rep sl_rep_start[OF rep] by (auto simp: sl_rep_def seg_rep_def)
  let ?gone = "\<lambda>p. sg_mLastIndex (snd p) < k"
  define cl where "cl = takeWhile ?gone (sl_mClosedSegments l)"
  have l': "l' = tp_closed k ((persistFirstIndex k l)\<lparr>sl_mFirstIndex := k\<rparr>)"
    using assms(3-5) r(2,4) sl_same_simps(2)[OF sl_same_tp_closed[where l = l and k = k]]
    unfolding sl_truncatePrefix_def by (auto simp: Let_def split: if_splits)
  have o: "sl_others l' = concat (map (seg_files \<circ> snd) (rev cl)) @ sl_others l"
      "sl_currentTermFile l' = sl_currentTermFile l" "sl_voteForFile l' = sl_voteForFile l" "sl_firstIndexFile l' = Some (to_string k)"
    unfolding l' tp_closed_def by (simp_all add: Let_def fold_release persistFirstIndex_def cl_def)
  obtain es1 es2 where e: "esc = es1 @ es2" "closed_chain env n cl es1"
      "closed_chain env (n + length es1) (dropWhile ?gone (sl_mClosedSegments l)) es2"
    using tp_closed_chain[OF r(1), of k] unfolding cl_def by blast
  have st: "sl_start l' = n + length es1"
    using closed_chain_start[of env "n + length es1"] e(1,3) r(2,3) sl_same_simps(1,2)[OF sl_same_tp_closed[where l = l and k = k]]
    unfolding l' by (cases "dropWhile ?gone (sl_mClosedSegments l)") (auto simp: sl_start_def)
  show ?thesis using released_dead[OF e(2) assms(2) r(5) o(1) st] o(2-4) by simp
qed

text \<open>Reading touches nothing but the cached key version of one segment.\<close>

lemma om_upd_keys: "om_ok m \<Longrightarrow> k \<in> fst ` set m \<Longrightarrow> map fst (om_upd k v m) = map fst m"
proof (induction m)
  case (Cons p m)
  have "fst p < k \<or> fst p = k" using Cons.prems by auto
  then show ?case using Cons by (cases p) auto
qed simp

lemma sl_start_keys: "sl_start l = (case map fst (sl_mClosedSegments l) of f # _ \<Rightarrow> f
    | [] \<Rightarrow> (case sl_mActiveSegment l of None \<Rightarrow> sl_mFirstIndex l | Some act \<Rightarrow> sg_mFirstIndex act))"
  by (auto simp: sl_start_def split: list.splits)

lemma takeWhile_last_in: "takeWhile P xs = ys @ [p] \<Longrightarrow> p \<in> set xs"
  by (metis in_set_conv_decomp set_takeWhileD)

lemma put_segment_start:
  assumes "sl_inv env l" and "getSegment i l = Inr (Some (r, sg))" and "sg_mFirstIndex sg' = sg_mFirstIndex sg"
  shows "sl_start (put_segment r sg' l) = sl_start l"
proof -
  obtain n esc esa act where rep: "sl_rep env l n esc esa act" using assms(1) by (auto simp: sl_inv_def)
  then have c: "om_ok (sl_mClosedSegments l)" "sl_mActiveSegment l = Some act" using closed_chain_sorted by (auto simp: sl_rep_def)
  have "r = ActiveRef \<and> sg = act \<or> (\<exists>k. r = ClosedRef k \<and> (k, sg) \<in> set (sl_mClosedSegments l))"
    using assms(2) c(2) unfolding getSegment_def
    by (auto split: if_splits list.splits dest: takeWhile_last_in)
  then show ?thesis
  proof
    assume "\<exists>k. r = ClosedRef k \<and> (k, sg) \<in> set (sl_mClosedSegments l)"
    then obtain k where k: "r = ClosedRef k" "k \<in> fst ` set (sl_mClosedSegments l)" by force
    show ?thesis using om_upd_keys[OF c(1) k(2)] k(1) c(2) by (simp add: sl_start_keys split: list.split)
  qed (use c(2) assms(3) in \<open>simp add: sl_start_keys split: list.splits\<close>)
qed

lemma verifyHMAC_first: "verifyHMAC env m sg = Inr sg' \<Longrightarrow> sg_mFirstIndex sg' = sg_mFirstIndex sg"
  by (auto simp: verifyHMAC_def split: if_splits option.splits)

lemma sg_getEntry_first: "sg_getEntry env i sg = Inr (sg', e) \<Longrightarrow> sg_mFirstIndex sg' = sg_mFirstIndex sg"
  by (auto simp: sg_getEntry_def dest: verifyHMAC_first split: if_splits)

lemma sg_getEntries_loop_first:
  "sg_getEntries_loop env i maxLen left batch len es sg = Inr (sg', n, es') \<Longrightarrow> sg_mFirstIndex sg' = sg_mFirstIndex sg"
  by (induction env i maxLen left batch len es sg rule: sg_getEntries_loop.induct)
    (fastforce dest: verifyHMAC_first split: if_splits option.splits)+

lemma sl_read_dead:
  assumes "sl_inv env l"
  shows "sl_getEntry env i l = Inr (l', e) \<Longrightarrow> dead_le l l' \<and> sl_start l' = sl_start l"
    and "sl_getEntries env i maxLen maxBatch l = Inr (l', n, es) \<Longrightarrow> dead_le l l' \<and> sl_start l' = sl_start l"
  using put_segment_start[OF assms]
  by (auto simp: sl_getEntry_def sl_getEntries_def sg_getEntries_def dest!: sg_getEntry_first sg_getEntries_loop_first
      split: option.splits if_splits)

section \<open>Runs of the log\<close>

definition sl_durable :: "storage_env \<Rightarrow> segment_log \<Rightarrow> bool" where
  "sl_durable env l \<longleftrightarrow> sl_inv env l \<and> texts_ok l \<and> dead_files l"

text \<open>
  Every method of the log, and a restart: the object is gone and a new one is made from the
  directory, listed in any order. Terms, votes and indices are 64-bit values; the consensus
  module never truncates below the first index and never compacts past the last one.
\<close>

inductive sl_step :: "storage_env \<Rightarrow> segment_log \<Rightarrow> segment_log \<Rightarrow> bool" for env where
  ss_appendEntry: "sl_appendEntry env e l = Inr (l', b) \<Longrightarrow> sl_step env l l'"
| ss_appendEntries: "sl_appendEntries env es l = Inr (l', b) \<Longrightarrow> sl_step env l l'"
| ss_getEntry: "sl_getEntry env i l = Inr (l', e) \<Longrightarrow> sl_step env l l'"
| ss_getEntries: "sl_getEntries env i maxLen maxBatch l = Inr (l', n, es) \<Longrightarrow> sl_step env l l'"
| ss_truncateSuffix: "sl_mFirstIndex l \<le> k + 1 \<Longrightarrow> sl_truncateSuffix env k l = Inr l' \<Longrightarrow> sl_step env l l'"
| ss_truncatePrefix: "k \<le> sl_mLastIndex l \<Longrightarrow> k < 2 ^ 64 \<Longrightarrow> sl_truncatePrefix env k l = Inr l' \<Longrightarrow> sl_step env l l'"
| ss_setCurrentTerm: "t < 2 ^ 64 \<Longrightarrow> sl_step env l (sl_setCurrentTerm t l)"
| ss_setVoteFor: "v < 2 ^ 64 \<Longrightarrow> sl_step env l (sl_setVoteFor v l)"
| ss_restart: "sl_mLastIndex l + 1 < 2 ^ 64 \<Longrightarrow> set files = set (sl_directory l) \<Longrightarrow> distinct (map fst files) \<Longrightarrow>
    SegmentLog_open env (sl_mLogDir l) (sl_mSegmentDataSizeLimit l) (sl_mSegmentMetaSizeLimit l)
      (sl_currentTermFile l) (sl_voteForFile l) (sl_firstIndexFile l) files = Inr l' \<Longrightarrow> sl_step env l l'"

lemma durableI:
  assumes "sl_durable env l" and "sl_inv env l'" and "dead_le l l'" and "sl_start l \<le> sl_start l'"
    and "al_first (sl_abs env l') = al_first (sl_abs env l)" "al_term (sl_abs env l') = al_term (sl_abs env l)"
      "al_vote (sl_abs env l') = al_vote (sl_abs env l)"
  shows "sl_durable env l'"
  using assms dead_le_files[OF assms(3) _ assms(4)] by (simp add: sl_durable_def texts_ok_def dead_le_def sl_abs_def)

lemma reopened_durable: "sl_durable env l \<Longrightarrow> reopened env l l' \<Longrightarrow> sl_durable env l'"
  by (rule durableI) (auto simp: reopened_def dead_le_def)

lemma set_durable:
  assumes "sl_durable env l"
  shows "t < 2 ^ 64 \<Longrightarrow> sl_durable env (sl_setCurrentTerm t l)" and "v < 2 ^ 64 \<Longrightarrow> sl_durable env (sl_setVoteFor v l)"
  using assms sl_set_ok[of env l]
  by (auto simp: sl_durable_def texts_ok_def dead_files_def sl_start_def sl_setCurrentTerm_def sl_setVoteFor_def
      persistCurrentTerm_def persistVoteFor_def split: list.splits option.splits)

lemma append_durable:
  assumes "sl_durable env l" and "sl_append env es l = Inr l'"
  shows "sl_durable env l'"
proof -
  have inv: "sl_inv env l" using assms(1) by (simp add: sl_durable_def)
  show ?thesis
    using sl_append_ok[OF inv assms(2)] sl_append_dead[OF inv assms(2)] by (intro durableI[OF assms(1)]) simp_all
qed

lemma truncateSuffix_durable:
  assumes "sl_durable env l" and "sl_mFirstIndex l \<le> k + 1" and "sl_truncateSuffix env k l = Inr l'"
  shows "sl_durable env l'"
proof -
  have inv: "sl_inv env l" using assms(1) by (simp add: sl_durable_def)
  have f: "al_first (sl_abs env l) \<le> k + 1" using assms(2) by (simp add: sl_abs_def)
  show ?thesis
    using sl_truncateSuffix_ok[OF inv assms(2,3)] sl_truncateSuffix_dead[OF assms(3)] al_first_truncateSuffix[OF f]
    by (intro durableI[OF assms(1)]) simp_all
qed

lemma truncatePrefix_durable:
  assumes "sl_durable env l" and "k \<le> sl_mLastIndex l" "k < 2 ^ 64" and "sl_truncatePrefix env k l = Inr l'"
  shows "sl_durable env l'"
proof (cases "sl_mFirstIndex l < k")
  case True
  have d: "sl_inv env l" "dead_files l" using assms(1) by (simp_all add: sl_durable_def)
  note o = sl_truncatePrefix_ok[OF d(1) assms(4)]
  have last: "al_last (sl_abs env l) = sl_mLastIndex l" using sl_inv_wf[OF d(1)] by simp
  have f: "sl_mFirstIndex l' = al_first (sl_abs env l')" "sl_mCurrentTerm l' = al_term (sl_abs env l')"
    "sl_mVoteFor l' = al_vote (sl_abs env l')" by (simp_all add: sl_abs_def)
  have "sl_mFirstIndex l' = k" "sl_mCurrentTerm l' = sl_mCurrentTerm l" "sl_mVoteFor l' = sl_mVoteFor l"
    using o True assms(2) last unfolding f by (simp_all add: al_truncatePrefix_def sl_abs_def)
  then show ?thesis
    using sl_truncatePrefix_dead[OF d assms(2) True assms(4)] assms(1,3) o by (simp add: sl_durable_def texts_ok_def)
qed (use assms in \<open>simp add: sl_truncatePrefix_def\<close>)

theorem sl_step_durable:
  assumes "sl_step env l l'" and "sl_durable env l"
  shows "sl_durable env l'"
  using assms(1)
proof cases
  case (ss_appendEntry e b)
  then show ?thesis using assms(2) append_durable[OF assms(2)] by (auto simp: sl_appendEntry_def split: if_splits)
next
  case (ss_appendEntries es b)
  then show ?thesis using assms(2) append_durable[OF assms(2)] by (auto simp: sl_appendEntries_def split: if_splits list.splits)
next
  case (ss_getEntry i e)
  have inv: "sl_inv env l" using assms(2) by (simp add: sl_durable_def)
  show ?thesis using sl_getEntry_frame[OF inv ss_getEntry] sl_read_dead(1)[OF inv ss_getEntry] by (intro durableI[OF assms(2)]) simp_all
next
  case (ss_getEntries i maxLen maxBatch n es)
  have inv: "sl_inv env l" using assms(2) by (simp add: sl_durable_def)
  show ?thesis
    using seg.getEntries_frame[OF inv, of i maxLen maxBatch] ss_getEntries sl_read_dead(2)[OF inv ss_getEntries]
    by (intro durableI[OF assms(2)]) (simp_all add: seg_ops_def)
next
  case (ss_restart files)
  have d: "sl_inv env l" "texts_ok l" "dir_ok l" using assms(2) dead_dir_ok ss_restart(1) by (auto simp: sl_durable_def)
  show ?thesis using SegmentLog_reopen[OF d ss_restart(2,3)] ss_restart(4) reopened_durable[OF assms(2)] by simp
qed (use assms(2) truncateSuffix_durable truncatePrefix_durable set_durable in blast)+

lemma sl_run_durable:
  assumes "(sl_step env)\<^sup>*\<^sup>* l l'" and "sl_durable env l"
  shows "sl_durable env l'"
  using assms by (induction rule: rtranclp_induct) (auto intro: sl_step_durable)

lemma durable_fresh:
  assumes "env_ok env" and "limits_ok env dataLimit metaLimit"
    and "SegmentLog_open env dir dataLimit metaLimit None None None [] = Inr l"
  shows "sl_durable env l" and "sl_abs env l = \<lparr>al_first = 1, al_entries = [], al_term = 0, al_vote = 0\<rparr>"
  using SegmentLog_fresh[OF assms(1,2), of dir] assms(3) by (auto simp: sl_durable_def dead_files_def)

lemma durable_restart:
  assumes "sl_durable env l" and "sl_mLastIndex l + 1 < 2 ^ 64" and "set files = set (sl_directory l)" and "distinct (map fst files)"
  shows "\<exists>l'. SegmentLog_open env (sl_mLogDir l) (sl_mSegmentDataSizeLimit l) (sl_mSegmentMetaSizeLimit l)
      (sl_currentTermFile l) (sl_voteForFile l) (sl_firstIndexFile l) files = Inr l' \<and>
    sl_durable env l' \<and> sl_abs env l' = sl_abs env l"
proof -
  have d: "sl_inv env l" "texts_ok l" "dir_ok l" using assms(1,2) dead_dir_ok by (auto simp: sl_durable_def)
  show ?thesis using SegmentLog_reopen[OF d assms(3,4)] reopened_durable[OF assms(1)] by (auto simp: reopened_def)
qed

lemma durable_directory:
  assumes "sl_durable env l" and "sl_mLastIndex l + 1 < 2 ^ 64"
  shows "distinct (map fst (sl_directory l))"
  using dead_dir_ok[of env l] assms by (simp add: sl_durable_def dir_ok_def)

lemma SegmentLog_open_limits:
  assumes "SegmentLog_open env dir dataLimit metaLimit None None None [] = Inr l"
  shows "sl_mSegmentDataSizeLimit l = dataLimit \<and> sl_mSegmentMetaSizeLimit l = metaLimit"
  using assms
  by (auto simp: SegmentLog_open_def sl_init_def recoverCurrentTerm_def recoverVoteFor_def recoverFirstIndex_def
      persistCurrentTerm_def persistVoteFor_def persistFirstIndex_def listSegments_def recoverSegments_def recoverActive_def
      claim_live_def sl_newActive_def sl_frame)

end
