(* ===== verification/Storage_Example.thy ===== *)
theory Storage_Example
  imports SegmentLog_Rep
begin

text \<open>
  A concrete environment for the storage components: a small message codec in place of the
  generated one and a toy cipher and digest in place of OpenSSL's, with the proof that they
  satisfy what the components assume of them (\<^const>\<open>env_ok\<close>). The witnesses evaluate in it.
\<close>

section \<open>A codec for log entries\<close>

definition enc_nat :: "nat \<Rightarrow> string" where
  "enc_nat n = to_string n @ '',''"

definition dec_nat :: "string \<Rightarrow> (nat \<times> string) option" where
  "dec_nat s = (case dropWhile is_digit s of [] \<Rightarrow> None | c # r \<Rightarrow> Some (dec_val (takeWhile is_digit s), r))"

definition enc_str :: "string \<Rightarrow> string" where
  "enc_str s = enc_nat (length s) @ s"

definition dec_str :: "string \<Rightarrow> (string \<times> string) option" where
  "dec_str s = (case dec_nat s of None \<Rightarrow> None | Some (n, r) \<Rightarrow> Some (take n r, drop n r))"

definition enc_tag :: "(nat \<times> string) option \<Rightarrow> string" where
  "enc_tag t = (case t of None \<Rightarrow> enc_nat 0 | Some (k, v) \<Rightarrow> enc_nat 1 @ enc_nat k @ enc_str v)"

definition dec_tag :: "string \<Rightarrow> ((nat \<times> string) option \<times> string) option" where
  "dec_tag s = (case dec_nat s of None \<Rightarrow> None | Some (n, r) \<Rightarrow>
     if n = 0 then Some (None, r)
     else case dec_nat r of None \<Rightarrow> None | Some (k, r) \<Rightarrow>
          case dec_str r of None \<Rightarrow> None | Some (v, r) \<Rightarrow> Some (Some (k, v), r))"

definition toy_serialize :: "log_entry \<Rightarrow> string" where
  "toy_serialize e = enc_nat (le_term e) @ enc_nat (le_index e) @ enc_nat (if le_noop e then 1 else 0) @
     enc_nat (le_checksum e) @ enc_nat (le_version e) @ enc_tag (le_specialTag e) @ enc_str (le_payload e)"

definition toy_parse :: "string \<Rightarrow> log_entry option" where
  "toy_parse s =
     (case dec_nat s of None \<Rightarrow> None | Some (t, s) \<Rightarrow>
      case dec_nat s of None \<Rightarrow> None | Some (i, s) \<Rightarrow>
      case dec_nat s of None \<Rightarrow> None | Some (n, s) \<Rightarrow>
      case dec_nat s of None \<Rightarrow> None | Some (c, s) \<Rightarrow>
      case dec_nat s of None \<Rightarrow> None | Some (v, s) \<Rightarrow>
      case dec_tag s of None \<Rightarrow> None | Some (tag, s) \<Rightarrow>
      case dec_str s of None \<Rightarrow> None | Some (p, s) \<Rightarrow>
      Some \<lparr>le_term = t, le_index = i, le_noop = (n = 1), le_checksum = c, le_payload = p,
            le_version = v, le_specialTag = tag\<rparr>)"

lemma dec_enc_nat [simp]: "dec_nat (enc_nat n @ r) = Some (n, r)"
proof -
  have d: "\<forall>c \<in> set (to_string n). is_digit c" by (rule to_string_digits)
  have c: "\<not> is_digit (CHR '','')" by (simp add: is_digit_def)
  have "takeWhile is_digit (to_string n @ CHR '','' # r) = to_string n"
    "dropWhile is_digit (to_string n @ CHR '','' # r) = CHR '','' # r"
    using d c by (simp_all add: takeWhile_append2 dropWhile_append2)
  then show ?thesis by (simp add: dec_nat_def enc_nat_def)
qed

lemma dec_enc_str [simp]: "dec_str (enc_str s @ r) = Some (s, r)"
  by (simp add: dec_str_def enc_str_def)

lemma dec_enc_tag [simp]: "dec_tag (enc_tag t @ r) = Some (t, r)"
  by (cases t) (auto simp: dec_tag_def enc_tag_def)

lemma toy_parse_serialize: "toy_parse (toy_serialize e) = Some e"
  using dec_enc_str[of "le_payload e" "[]"] by (cases e) (simp add: toy_parse_def toy_serialize_def)

section \<open>A toy cipher and digest\<close>

definition toy_ssl :: openssl where
  "toy_ssl = \<lparr>evp_new = True, evp_encryptInit = (\<lambda>key iv. True),
     evp_encryptUpdate = (\<lambda>key iv text. Some (rev text)), evp_encryptFinal = (\<lambda>key iv text. Some []),
     evp_decryptInit = (\<lambda>key iv. True),
     evp_decryptUpdate = (\<lambda>key iv text. Some (rev text)), evp_decryptFinal = (\<lambda>key iv text. Some []),
     ossl_HMAC = (\<lambda>key text. Some (take 32 (text @ key)))\<rparr>"

definition toy_keys :: secret_key where
  "toy_keys = \<lparr>sk_mAllKeys = replicate 3 (replicate 32 (CHR ''k'')), sk_mLatestVersion = 2\<rparr>"

definition toy_crypto :: crypto_util where
  "toy_crypto = \<lparr>cu_mEnabled = True, cu_mSecKeys = toy_keys\<rparr>"

lemma toy_ssl_ok: "openssl_ok toy_ssl"
  by (auto simp: openssl_ok_def toy_ssl_def kKeyLen_def)

lemma toy_crypto_ok: "crypto_ok toy_crypto"
  by (simp add: crypto_ok_def toy_crypto_def toy_keys_def keys_ok_def kKeyLen_def kOldestSecKeyVersion_def)

definition toy_env :: storage_env where
  "toy_env = \<lparr>se_crypto = toy_crypto, se_ssl = toy_ssl, se_byteSize = length \<circ> toy_serialize,
     se_serialize = toy_serialize, se_parse = toy_parse, se_pageSize = 64, se_clock = (\<lambda>n. n)\<rparr>"

lemma toy_env_ok: "env_ok toy_env"
  using toy_ssl_ok toy_crypto_ok by (simp add: env_ok_def toy_env_def toy_parse_serialize sizeof_LogMeta_def)

end
