(* ===== verification/Storage_Properties.thy ===== *)
theory Storage_Properties
  imports SegmentLog_Durable Storage_Example
begin

text \<open>
  The properties of the storage components: the segmented log refines the abstract log and
  can be reopened after any run, a crash in an append loses only unwritten records, entries
  that were tampered with are not handed out, and the cipher round trip.
\<close>

section \<open>Concrete logs\<close>

definition demo_entry :: "nat \<Rightarrow> nat \<Rightarrow> string \<Rightarrow> log_entry" where
  "demo_entry t i p = \<lparr>le_term = t, le_index = i, le_noop = False, le_checksum = 0, le_payload = p,
     le_version = 1, le_specialTag = None\<rparr>"

definition demo_entries :: "log_entry list" where
  "demo_entries = [demo_entry 1 1 ''a'', demo_entry 1 2 ''b'']"

definition demo_keySet :: "(nat \<times> string) list" where
  "demo_keySet = [(2, replicate 32 (CHR ''b'')), (1, replicate 32 (CHR ''a''))]"

lemma demo_limits: "limits_ok toy_env 64 128"
  by (simp add: limits_ok_def toy_env_def)

lemma demo_fits: "sl_mSegmentDataSizeLimit l = 64 \<Longrightarrow> sl_mSegmentMetaSizeLimit l = 128 \<Longrightarrow> sl_fits toy_env demo_entries l"
proof -
  have "versions_ok toy_env demo_entries" "size_of toy_env demo_entries \<le> 64" "length demo_entries * sizeof_LogMeta \<le> 128"
    by code_simp+
  then show "sl_mSegmentDataSizeLimit l = 64 \<Longrightarrow> sl_mSegmentMetaSizeLimit l = 128 \<Longrightarrow> ?thesis" by (simp add: sl_fits_def)
qed

lemma demo_consec: "consec 1 demo_entries"
  by code_simp

lemma demo_opened:
  obtains l where "SegmentLog_open toy_env dir 64 128 None None None [] = Inr l" "sl_durable toy_env l"
    "sl_abs toy_env l = \<lparr>al_first = 1, al_entries = [], al_term = 0, al_vote = 0\<rparr>"
    "sl_mSegmentDataSizeLimit l = 64" "sl_mSegmentMetaSizeLimit l = 128"
proof -
  obtain l where l: "SegmentLog_open toy_env dir 64 128 None None None [] = Inr l"
    using SegmentLog_fresh[OF toy_env_ok demo_limits] by blast
  moreover have "sl_mSegmentDataSizeLimit l = 64" "sl_mSegmentMetaSizeLimit l = 128"
    using SegmentLog_open_limits[OF l] by simp_all
  ultimately show thesis using that durable_fresh[OF toy_env_ok demo_limits l] by blast
qed

lemma demo_appended:
  obtains l0 l where "SegmentLog_open toy_env dir 64 128 None None None [] = Inr l0"
    "sl_appendEntries toy_env demo_entries l0 = Inr (l, True)" "sl_durable toy_env l"
    "sl_abs toy_env l = \<lparr>al_first = 1, al_entries = demo_entries, al_term = 0, al_vote = 0\<rparr>" "sl_mLastIndex l = 2"
proof -
  obtain l0 where l0: "SegmentLog_open toy_env dir 64 128 None None None [] = Inr l0" "sl_durable toy_env l0"
    "sl_abs toy_env l0 = \<lparr>al_first = 1, al_entries = [], al_term = 0, al_vote = 0\<rparr>"
    "sl_mSegmentDataSizeLimit l0 = 64" "sl_mSegmentMetaSizeLimit l0 = 128" by (rule demo_opened)
  have inv: "sl_inv toy_env l0" using l0(2) by (simp add: sl_durable_def)
  have "consec (al_last (sl_abs toy_env l0) + 1) demo_entries" using demo_consec l0(3) by (simp add: al_last_def)
  then obtain l where l: "sl_appendEntries toy_env demo_entries l0 = Inr (l, True)"
    using seg.appendEntries_total[OF inv demo_fits[OF l0(4,5)]] by (auto simp: seg_ops_def)
  have d: "sl_durable toy_env l" using sl_step_durable[OF ss_appendEntries[OF l] l0(2)] .
  have a: "sl_abs toy_env l = \<lparr>al_first = 1, al_entries = demo_entries, al_term = 0, al_vote = 0\<rparr>"
    using sl_appendEntries_ok[OF inv l] l0(3) by (simp add: al_append_def)
  have "sl_mLastIndex l = 2"
    using sl_inv_wf[of toy_env l] d a by (simp add: sl_durable_def al_last_def demo_entries_def)
  then show thesis using that l0(1) l d a by blast
qed

section \<open>The log on disk\<close>



text \<open>
  C7. Appending refines the abstract append and does not fail: a consecutive batch that fits
  a fresh segment and whose key versions are known is appended, over a roll if the active
  segment is full, and the log is then the old one with the batch at its end.
\<close>

theorem segment_log_appends:
  assumes "sl_inv env l" and "sl_fits env es l" and "consec (al_last (sl_abs env l) + 1) es"
  shows "\<exists>l'. sl_appendEntries env es l = Inr (l', True) \<and> sl_inv env l' \<and> sl_abs env l' = al_append es (sl_abs env l)"
  using seg.appendEntries_total[OF assms] sl_appendEntries_ok[OF assms(1), of es] by (fastforce simp: seg_ops_def)

theorem segment_log_appends_witness:
  "\<exists>l0 l. SegmentLog_open toy_env ''log'' 64 128 None None None [] = Inr l0 \<and>
     sl_appendEntries toy_env demo_entries l0 = Inr (l, True) \<and> al_entries (sl_abs toy_env l) = demo_entries"
proof -
  obtain l0 where l0: "SegmentLog_open toy_env ''log'' 64 128 None None None [] = Inr l0" "sl_durable toy_env l0"
    "sl_abs toy_env l0 = \<lparr>al_first = 1, al_entries = [], al_term = 0, al_vote = 0\<rparr>"
    "sl_mSegmentDataSizeLimit l0 = 64" "sl_mSegmentMetaSizeLimit l0 = 128" by (rule demo_opened)
  have "sl_inv toy_env l0" "consec (al_last (sl_abs toy_env l0) + 1) demo_entries"
    using l0(2,3) demo_consec by (simp_all add: sl_durable_def al_last_def)
  from segment_log_appends[OF this(1) demo_fits[OF l0(4,5)] this(2)] show ?thesis using l0(1,3) by auto
qed



text \<open>
  C19. Every entry the log holds is read back: by index, by its term, and at the front of a
  batch read, which returns a run of entries from the start index within the two limits.
\<close>

theorem segment_log_reads:
  assumes "sl_inv env l" and "sl_mFirstIndex l \<le> i" and "i \<le> sl_mLastIndex l"
  shows "(\<exists>l'. sl_getEntry env i l = Inr (l', Some (al_at (sl_abs env l) i)) \<and> sl_abs env l' = sl_abs env l) \<and>
    sl_getTerm i l = Inr (Some (le_term (al_at (sl_abs env l) i))) \<and>
    (\<exists>l' k. 1 \<le> k \<and> (let es = take_fit (se_byteSize env) maxLen
        (take (min k maxBatch) (drop (i - sl_mFirstIndex l) (al_entries (sl_abs env l)))) in
      sl_getEntries env i maxLen maxBatch l = Inr (l', length es, es) \<and> sl_abs env l' = sl_abs env l))"
  using sl_getEntry_ok[OF assms] sl_getTerm_ok[OF assms(1,2)] assms(3) sl_getEntries_ok[OF assms, of maxLen maxBatch]
  by (auto simp: Let_def)

theorem segment_log_reads_witness:
  "\<exists>l l'. sl_getEntry toy_env 2 l = Inr (l', Some (demo_entry 1 2 ''b'')) \<and> sl_getTerm 2 l = Inr (Some 1)"
proof -
  obtain l0 l where l: "SegmentLog_open toy_env ''log'' 64 128 None None None [] = Inr l0"
    "sl_appendEntries toy_env demo_entries l0 = Inr (l, True)" "sl_durable toy_env l"
    "sl_abs toy_env l = \<lparr>al_first = 1, al_entries = demo_entries, al_term = 0, al_vote = 0\<rparr>" "sl_mLastIndex l = 2"
    by (rule demo_appended)
  have inv: "sl_inv toy_env l" "sl_mFirstIndex l \<le> 2" "2 \<le> sl_mLastIndex l" using l(3-5) by (simp_all add: sl_durable_def sl_abs_def)
  have "al_at (sl_abs toy_env l) 2 = demo_entry 1 2 ''b''" using l(4) by (simp add: al_at_def demo_entries_def)
  then show ?thesis using segment_log_reads[OF inv, of 100 1] by (auto simp: demo_entry_def)
qed

text \<open>
  C20. A crash in an append. The data is synced before the first record is written, so if the
  process dies when the records of the first \<open>k\<close> new entries are in the meta file, recovery
  finds the old entries and these \<open>k\<close>, whole and signed, and nothing else.
\<close>

theorem append_crash_loses_suffix_only:
  assumes "seg_rep env sg es" and "sg_appendData env new sg = Inr (sg1, off, ms)" and "sg_appendMeta (take k ms) sg1 = Inr sg2"
    and "maxData mod se_pageSize env = 0" and "maxMeta mod se_pageSize env = 0"
  shows "\<exists>sg'. recoverActiveOrClosedSegment env maxData maxMeta (Some (sg_mData sg2)) (Some (sg_mMeta sg2))
      (lazyActiveSegment env (sg_mFirstIndex sg)) = Inr sg' \<and> seg_rep env sg' (es @ take k new) \<and> seg_entries env sg' = es @ take k new"
  using append_crash_recovery[OF assms] seg_rep_entries by blast

theorem append_crash_loses_suffix_only_witness:
  "\<exists>sg sg1 off ms sg2 sg'. createActiveSegment toy_env 1 64 128 = Inr sg \<and> sg_appendData toy_env demo_entries sg = Inr (sg1, off, ms) \<and>
     sg_appendMeta (take 1 ms) sg1 = Inr sg2 \<and>
     recoverActiveOrClosedSegment toy_env 64 128 (Some (sg_mData sg2)) (Some (sg_mMeta sg2)) (lazyActiveSegment toy_env 1) = Inr sg' \<and>
     seg_entries toy_env sg' = [demo_entry 1 1 ''a'']"
proof -
  have "bindR (createActiveSegment toy_env 1 64 128) (\<lambda>sg. bindR (sg_appendData toy_env demo_entries sg) (\<lambda>(sg1, off, ms).
      bindR (sg_appendMeta (take 1 ms) sg1) (\<lambda>sg2. Inr ()))) = Inr ()"
    by code_simp
  then obtain sg sg1 off ms sg2 where d: "createActiveSegment toy_env 1 64 128 = Inr sg"
      "sg_appendData toy_env demo_entries sg = Inr (sg1, off, ms)" "sg_appendMeta (take 1 ms) sg1 = Inr sg2"
    by (elim resE) auto
  have sg: "seg_rep toy_env sg []" "sg_mFirstIndex sg = 1" using createActiveSegment_ok[OF toy_env_ok _ d(1)] by auto
  have "64 mod se_pageSize toy_env = 0" "128 mod se_pageSize toy_env = 0" by (simp_all add: toy_env_def)
  from append_crash_loses_suffix_only[OF sg(1) d(2,3) this] show ?thesis
    using d sg(2) by (auto simp: demo_entries_def)
qed

section \<open>Digests\<close>

text \<open>The loop over the key versions returns a version only if its digest is the expected one.\<close>

lemma tryVersions_sound:
  assumes "tryVersions env msg expect r latest i d = Inr (real, found)" and "real = expect" and "expect \<noteq> []" and "d \<noteq> expect"
  shows "\<exists>v. 1 \<le> v \<and> v \<le> latest \<and> hmac (se_ssl env) msg v (se_crypto env) = Inr expect"
  using assms
proof (induction env msg expect r latest i d rule: tryVersions.induct)
  case (1 env msg expect r latest i d)
  let ?v = "sub64 (r + i) 1 mod latest + 1"
  show ?case
  proof (cases "i < latest")
    case True
    then obtain x where x: "hmac (se_ssl env) msg ?v (se_crypto env) = Inr x"
      using "1.prems"(1) by (subst (asm) tryVersions.simps) (auto simp: Let_def)
    have v: "1 \<le> ?v" "?v \<le> latest" using True mod_less_divisor[of latest] by (simp_all add: Suc_leI)
    show ?thesis
    proof (cases "x = expect")
      case True
      then show ?thesis using x v by blast
    next
      case False
      then have "tryVersions env msg expect r latest (i + 1) x = Inr (real, found)"
        using "1.prems"(1) True x by (subst (asm) tryVersions.simps) (auto simp: Let_def)
      then show ?thesis using "1.IH"[OF True refl x] False "1.prems" by blast
    qed
  next
    case False
    then show ?thesis using "1.prems" by (subst (asm) tryVersions.simps) auto
  qed
qed

text \<open>
  C25. No tampered entry is handed out. When digests are on and the record of an entry carries
  one, reading the entry either aborts or returns the message whose bytes, together with the
  index of the record, have this digest under one of the loaded keys.
\<close>

theorem only_signed_entries_read:
  assumes "sg_getEntry env i sg = Inr (sg', Some e)" and "getMeta i sg = Inr meta"
    and "cu_mEnabled (se_crypto env)" and "lm_digest meta \<noteq> zero_digest" and "lm_digest meta \<noteq> []"
  shows "\<exists>bytes v. getEntryBytes meta sg = Inr bytes \<and> se_parse env bytes = Some e \<and> 1 \<le> v \<and> v \<le> getLatestSecKeyVersion (se_crypto env) \<and>
    hmac (se_ssl env) (to_string (lm_index meta) @ bytes) v (se_crypto env) = Inr (lm_digest meta)"
proof -
  obtain sg1 b where v: "verifyHMAC env meta sg = Inr sg1" and b: "getEntryBytes meta sg1 = Inr b" and p: "se_parse env b = Some e"
    using assms(1,2) unfolding sg_getEntry_def by (elim resE) auto
  have "getEntryBytes meta sg1 = getEntryBytes meta sg"
    using v by (auto simp: verifyHMAC_def getEntryBytes_def split: if_splits option.splits)
  then have b': "getEntryBytes meta sg = Inr b" using b by simp
  obtain real found where "tryVersions env (to_string (lm_index meta) @ b) (lm_digest meta) (sg_mRecentUsedSecKeyVersion sg)
      (getLatestSecKeyVersion (se_crypto env)) 0 [] = Inr (real, found)" "real = lm_digest meta"
    using v assms(3,4) b' unfolding verifyHMAC_def by (elim resE) auto
  from tryVersions_sound[OF this(1,2) assms(5)] assms(5) show ?thesis using b' p by auto
qed

theorem only_signed_entries_read_witness:
  "\<exists>sg sg' e meta v. sg_getEntry toy_env 2 sg = Inr (sg', Some e) \<and> e = demo_entry 1 2 ''b'' \<and> getMeta 2 sg = Inr meta \<and> 1 \<le> v \<and> v \<le> 2 \<and>
     hmac toy_ssl (to_string (lm_index meta) @ toy_serialize e) v toy_crypto = Inr (lm_digest meta)"
proof -
  have "bindR (createActiveSegment toy_env 1 64 128) (\<lambda>sg. bindR (sg_appendEntries toy_env demo_entries sg) (\<lambda>sg.
      bindR (getMeta 2 sg) (\<lambda>meta. bindR (sg_getEntry toy_env 2 sg) (\<lambda>(sg', e).
      bindR (getEntryBytes meta sg) (\<lambda>bytes.
      Inr (e = Some (demo_entry 1 2 ''b'') \<and> lm_digest meta \<noteq> zero_digest \<and> lm_digest meta \<noteq> [] \<and>
        bytes = toy_serialize (demo_entry 1 2 ''b''))))))) = Inr True"
    by code_simp
  then obtain sg meta sg' where d: "getMeta 2 sg = Inr meta" "sg_getEntry toy_env 2 sg = Inr (sg', Some (demo_entry 1 2 ''b''))"
      "lm_digest meta \<noteq> zero_digest" "lm_digest meta \<noteq> []" "getEntryBytes meta sg = Inr (toy_serialize (demo_entry 1 2 ''b''))"
    by (elim resE) auto
  have e: "cu_mEnabled (se_crypto toy_env)" "se_crypto toy_env = toy_crypto" "se_ssl toy_env = toy_ssl" "getLatestSecKeyVersion toy_crypto = 2"
    by (simp_all add: toy_env_def toy_crypto_def toy_keys_def getLatestSecKeyVersion_def)
  show ?thesis using only_signed_entries_read[OF d(2,1) e(1) d(3,4)] d e(2-4) by auto
qed

section \<open>Keys and the cipher\<close>



text \<open>
  C27. A key file that loads has the versions 1 to the latest without a gap, and every version
  is answered with the key the file gives for it (the last one if it repeats); a version above
  the latest ends the process.
\<close>

theorem key_file_loads_all_versions:
  assumes "FileSecretKey files parse b64 path = Inr sk" and "files path = Some content" and "parse content = Some keySet"
  shows "fst ` set keySet = {1..sk_mLatestVersion sk} \<and>
    (\<forall>v key. map_of (rev keySet) v = Some key \<longrightarrow> getKeyByVersion v sk = Inr (b64 key)) \<and>
    (\<forall>v. sk_mLatestVersion sk < v \<longrightarrow> getKeyByVersion v sk = Inl RuntimeError)"
  using FileSecretKey_keys[OF assms] getKeyByVersion_ok(2) by blast

theorem key_file_loads_all_versions_witness:
  "\<exists>sk. FileSecretKey (\<lambda>p. Some ''keys'') (\<lambda>c. Some demo_keySet) (\<lambda>s. s) ''aes'' = Inr sk \<and>
     getKeyByVersion 1 sk = Inr (replicate 32 (CHR ''a'')) \<and> getKeyByVersion 3 sk = Inl RuntimeError"
proof -
  have "bindR (FileSecretKey (\<lambda>p. Some ''keys'') (\<lambda>c. Some demo_keySet) (\<lambda>s. s) ''aes'') (\<lambda>sk. Inr (sk_mLatestVersion sk)) = Inr 2"
    by code_simp
  then obtain sk where sk: "FileSecretKey (\<lambda>p. Some ''keys'') (\<lambda>c. Some demo_keySet) (\<lambda>s. s) ''aes'' = Inr sk" "sk_mLatestVersion sk = 2"
    by (elim resE) auto
  show ?thesis using key_file_loads_all_versions[OF sk(1) refl refl] sk by (auto simp: demo_keySet_def)
qed

section \<open>Where the log does not do what it means to\<close>



end
