(* ===== verification/Raft_Properties.thy ===== *)
theory Raft_Properties
  imports Raft_Replication Storage_Properties
begin

text \<open>
  The properties of one node of the consensus module, most of them over the segmented log on
  disk: what an accepted AppendEntries request does, how the leader finds the point where a
  follower's log agrees, what it commits, what it appends for its clients, who wins an
  election, and when the election timer fires.
\<close>

section \<open>Concrete nodes\<close>

definition demo_env :: raft_env where
  "demo_env = \<lparr>env_clock = (\<lambda>n. n), env_rand = (\<lambda>n. n)\<rparr>"

definition demo_peer :: "nat \<Rightarrow> peer" where
  "demo_peer i = new_peer\<lparr>p_mId := i, p_mMatchIndex := 1, p_mNextIndex := 3, p_mHaveVote := True\<rparr>"

definition demo_group :: membership where
  "demo_group = \<lparr>ms_mPeers = [(2, demo_peer 2), (3, new_peer\<lparr>p_mId := 3\<rparr>)],
     ms_mInitialRoles = [(1, Follower), (2, Follower), (3, Follower)],
     ms_mSelfInfo = \<lparr>mi_mId = 1, mi_mAddress = ''a:1''\<rparr>, ms_mClients = [], ms_mOldMembers = [],
     ms_mNewMembers = [], ms_mInsyncLearners = []\<rparr>"

definition demo_node :: "raft_role \<Rightarrow> 'l \<Rightarrow> 'l raft_core" where
  "demo_node role l = (raft_core_fields role l)\<lparr>mLeaderId := 2, mClusterMembers := db_init demo_group\<rparr>"

definition demo_request :: ae_request where
  "demo_request = \<lparr>aeq_term = 2, aeq_leader_id = 2, aeq_prev_log_index = 1, aeq_prev_log_term = 1,
     aeq_entries = [demo_entry 2 2 ''c'', demo_entry 2 3 ''d''], aeq_commit_index = 1\<rparr>"

definition demo_mem :: inmemory_log where
  "demo_mem = \<lparr>ml_mLog = demo_entries, ml_mFirstIndex = 1, ml_mLastIndex = 2, ml_mTerm = 1, ml_mVoteFor = 1\<rparr>"

lemma demo_node_simps [simp]:
  "mLog (demo_node role l) = l" "mRaftRole (demo_node role l) = role" "members (demo_node role l) = demo_group"
  by (simp_all add: demo_node_def raft_core_fields_def db_init_def db_getCurrent_def)

lemma demo_mem_inv: "mem_inv demo_mem"
  by (simp add: mem_inv_def demo_mem_def demo_entries_def demo_entry_def)

lemma demo_group_sets: "member_sets_ok demo_group"
  by (simp add: member_sets_ok_def demo_group_def)

section \<open>Followers\<close>

text \<open>A follower on disk that accepts the request, cuts its conflicting entry and takes the new ones.\<close>

lemma demo_log_on_disk:
  assumes "SegmentLog_open toy_env ''log'' 64 192 None None None [] = Inr l0" and "sl_appendEntries toy_env demo_entries l0 = Inr (l, True)"
  shows "sl_inv toy_env l" "sl_abs toy_env l = \<lparr>al_first = 1, al_entries = demo_entries, al_term = 0, al_vote = 0\<rparr>"
proof -
  have "limits_ok toy_env 64 192" by (simp add: limits_ok_def toy_env_def)
  from durable_fresh[OF toy_env_ok this assms(1)] have l0: "sl_inv toy_env l0"
      "sl_abs toy_env l0 = \<lparr>al_first = 1, al_entries = [], al_term = 0, al_vote = 0\<rparr>"
    by (simp_all add: sl_durable_def)
  show "sl_inv toy_env l" "sl_abs toy_env l = \<lparr>al_first = 1, al_entries = demo_entries, al_term = 0, al_vote = 0\<rparr>"
    using sl_appendEntries_ok[OF l0(1) assms(2)] l0(2) by (simp_all add: al_append_def)
qed

lemma demo_accepts:
  obtains l0 l st r t where "SegmentLog_open toy_env ''log'' 64 192 None None None [] = Inr l0"
    "sl_appendEntries toy_env demo_entries l0 = Inr (l, True)" "sl_inv toy_env l"
    "sl_abs toy_env l = \<lparr>al_first = 1, al_entries = demo_entries, al_term = 0, al_vote = 0\<rparr>"
    "handleAppendEntriesRequest demo_env (seg_ops toy_env) demo_request (demo_node Follower l) = Inr (st, r, t)" "aep_success r"
proof -
  have "bindR (SegmentLog_open toy_env ''log'' 64 192 None None None []) (\<lambda>l0. bindR (sl_appendEntries toy_env demo_entries l0) (\<lambda>(l, b).
      bindR (handleAppendEntriesRequest demo_env (seg_ops toy_env) demo_request (demo_node Follower l)) (\<lambda>(st, r, t).
      Inr (b \<and> aep_success r)))) = Inr True"
    by code_simp
  then obtain l0 l st r t where d: "SegmentLog_open toy_env ''log'' 64 192 None None None [] = Inr l0"
      "sl_appendEntries toy_env demo_entries l0 = Inr (l, True)"
      "handleAppendEntriesRequest demo_env (seg_ops toy_env) demo_request (demo_node Follower l) = Inr (st, r, t)" "aep_success r"
    by (elim resE) auto
  show thesis using demo_log_on_disk[OF d(1,2)] d that by blast
qed

text \<open>
  C5. Accepting an AppendEntries request computes the reference merge. On disk the log
  becomes what \<^const>\<open>ae_result\<close> says: entries that agree in their term stay, from the first
  conflict on the request replaces the log, a higher term is adopted and clears the vote. The
  request's entries are consecutive, the commit index becomes the larger of the two, and the
  answer carries the last index the request covers and the follower's own last index.
\<close>

theorem accepted_request_merges:
  assumes "sl_inv se (mLog s)" and "handleAppendEntriesRequest env (seg_ops se) q s = Inr (st, r, t)" and "aep_success r"
  shows "sl_inv se (mLog t) \<and> sl_abs se (mLog t) = ae_result (sl_abs se (mLog s)) q \<and>
    mCommitIndex t = max (mCommitIndex s) (aeq_commit_index q) \<and> st = GrpcOK \<and>
    consec (aeq_prev_log_index q + 1) (aeq_entries q) \<and>
    aep_match_index r = aeq_prev_log_index q + length (aeq_entries q) \<and>
    aep_last_log_index r = al_last (sl_abs se (mLog t)) \<and> aep_term r = aeq_term q"
  using seg.accept_result[OF assms] by blast

theorem accepted_request_merges_witness:
  "\<exists>l st r t. al_entries (sl_abs toy_env l) = demo_entries \<and>
     handleAppendEntriesRequest demo_env (seg_ops toy_env) demo_request (demo_node Follower l) = Inr (st, r, t) \<and>
     al_entries (sl_abs toy_env (mLog t)) = [demo_entry 1 1 ''a'', demo_entry 2 2 ''c'', demo_entry 2 3 ''d'']"
proof -
  obtain l st r t where d: "sl_inv toy_env l" "sl_abs toy_env l = \<lparr>al_first = 1, al_entries = demo_entries, al_term = 0, al_vote = 0\<rparr>"
    "handleAppendEntriesRequest demo_env (seg_ops toy_env) demo_request (demo_node Follower l) = Inr (st, r, t)" "aep_success r"
    using demo_accepts by metis
  have "ae_result (sl_abs toy_env l) demo_request =
      \<lparr>al_first = 1, al_entries = [demo_entry 1 1 ''a'', demo_entry 2 2 ''c'', demo_entry 2 3 ''d''], al_term = 2, al_vote = 0\<rparr>"
    unfolding d(2) by code_simp
  then have "al_entries (sl_abs toy_env (mLog t)) = [demo_entry 1 1 ''a'', demo_entry 2 2 ''c'', demo_entry 2 3 ''d'']"
    using accepted_request_merges[OF _ d(3,4)] d(1) by simp
  with d(2,3) show ?thesis by (metis alog.select_convs(2))
qed







section \<open>The leader\<close>


definition demo_reject :: ae_response where
  "demo_reject = \<lparr>aep_term = 1, aep_success = False, aep_id = 2, aep_saved_term = 1, aep_saved_prev_log_index = 2,
     aep_last_log_index = 1, aep_match_index = 0\<rparr>"


text \<open>
  C6. What the leader commits. A change of the commit index is a move up to the largest index
  that a quorum stores (a majority of the voters, of both halves of a joint configuration, and
  of the in-sync learners if there are any), whose entry is of the leader's own term; together
  with it exactly the client requests up to that index are answered, in order.
\<close>

theorem leader_commits_only_replicated:
  assumes "advanceCommitIndex ops s = Inr t" and "member_sets_ok (members s)" and "mCommitIndex t \<noteq> mCommitIndex s"
  shows "commits_to ops s (mCommitIndex t) \<and>
    mPendingClientRequests t = dropWhile (\<lambda>(i, h). i \<le> mCommitIndex t) (mPendingClientRequests s) \<and>
    mEffects t = mEffects s @ replyPending 200 ''Success'' (mLeaderId s)
      (takeWhile (\<lambda>(i, h). i \<le> mCommitIndex t) (mPendingClientRequests s)) \<and> mLog t = mLog s"
proof -
  let ?c = "mCommitIndex t"
  from advanceCommitIndex_spec[OF assms(1,2)] assms(3) have c: "commits_to ops s ?c"
    and t: "t = s\<lparr>mCommitIndex := ?c,
          mPendingClientRequests := dropWhile (\<lambda>(i, h). i \<le> ?c) (mPendingClientRequests s),
          mEffects := mEffects s @ replyPending 200 ''Success'' (mLeaderId s)
             (takeWhile (\<lambda>(i, h). i \<le> ?c) (mPendingClientRequests s))\<rparr>" by auto
  have "mPendingClientRequests t = dropWhile (\<lambda>(i, h). i \<le> ?c) (mPendingClientRequests s)" by (subst t) simp
  moreover have "mEffects t = mEffects s @ replyPending 200 ''Success'' (mLeaderId s)
      (takeWhile (\<lambda>(i, h). i \<le> ?c) (mPendingClientRequests s))" by (subst t) simp
  moreover have "mLog t = mLog s" by (subst t) simp
  ultimately show ?thesis using c by blast
qed

theorem leader_commits_only_replicated_witness:
  "\<exists>t. advanceCommitIndex (mem_ops (\<lambda>e. 1)) (demo_node Leader demo_mem) = Inr t \<and> mCommitIndex t = 1 \<and>
     commits_to (mem_ops (\<lambda>e. 1)) (demo_node Leader demo_mem) 1"
proof -
  have "bindR (advanceCommitIndex (mem_ops (\<lambda>e. 1)) (demo_node Leader demo_mem)) (\<lambda>t.
      Inr (mCommitIndex t = 1 \<and> mCommitIndex (demo_node Leader demo_mem) = 0)) = Inr True" by code_simp
  then obtain t where t: "advanceCommitIndex (mem_ops (\<lambda>e. 1)) (demo_node Leader demo_mem) = Inr t" "mCommitIndex t = 1"
      "mCommitIndex (demo_node Leader demo_mem) = 0"
    by (elim resE) auto
  show ?thesis using leader_commits_only_replicated[OF t(1)] t demo_group_sets by auto
qed

text \<open>
  C18. The sorting of match indices computes the quorum: whenever \<^verbatim>\<open>getMajorityIndex\<close> returns, an
  index is stored by a quorum if and only if it is at most the returned one.
\<close>

theorem majority_index_meaning:
  assumes "getMajorityIndex ops s = Inr v" and "member_sets_ok (members s)"
  shows "replicated ops s w \<longleftrightarrow> w \<le> v"
  using getMajorityIndex_replicated[OF assms] .

theorem majority_index_meaning_witness:
  "replicated (mem_ops (\<lambda>e. 1)) (demo_node Leader demo_mem) 1 \<and> \<not> replicated (mem_ops (\<lambda>e. 1)) (demo_node Leader demo_mem) 2"
proof -
  have "getMajorityIndex (mem_ops (\<lambda>e. 1)) (demo_node Leader demo_mem) = Inr 1" by code_simp
  then show ?thesis using majority_index_meaning[of _ "demo_node Leader demo_mem" 1] demo_group_sets by simp
qed



text \<open>
  C9. A candidate becomes leader only when elected. It then names itself the leader, its log
  on disk grows by one no-op entry of its own term at the next index, and every peer starts
  from the end of the log before it with nothing known to match.
\<close>

theorem new_leader:
  assumes "sl_inv se (mLog s)" and "becomeLeader env (seg_ops se) s = Inr t"
    and "mRaftRole s = Candidate" and "mRaftRole t = Leader" and "member_sets_ok (members s)"
  shows "elected s \<and> mLeaderId t = selfId s \<and>
    (\<exists>n. sl_abs se (mLog t) = al_append [noop_entry (lo_getLatestSecKeyVersion (seg_ops se) (mLog s))
        (al_term (sl_abs se (mLog s))) (al_last (sl_abs se (mLog s)) + 1) n] (sl_abs se (mLog s))) \<and>
    (\<forall>k \<in> fst ` set (peers s). \<exists>p. map_of (peers t) k = Some p \<and> fresh_peer (al_last (sl_abs se (mLog s))) p)"
  using seg.becomeLeader_spec[OF assms] .

theorem new_leader_witness:
  "\<exists>l t. al_entries (sl_abs toy_env l) = demo_entries \<and>
     becomeLeader demo_env (seg_ops toy_env) (demo_node Candidate l) = Inr t \<and> mLeaderId t = 1 \<and>
     length (al_entries (sl_abs toy_env (mLog t))) = 3"
proof -
  have "bindR (SegmentLog_open toy_env ''log'' 64 192 None None None []) (\<lambda>l0. bindR (sl_appendEntries toy_env demo_entries l0) (\<lambda>(l, b).
      bindR (becomeLeader demo_env (seg_ops toy_env) (demo_node Candidate l)) (\<lambda>t. Inr (b \<and> mRaftRole t = Leader)))) = Inr True"
    by code_simp
  then obtain l0 l t where d: "SegmentLog_open toy_env ''log'' 64 192 None None None [] = Inr l0"
      "sl_appendEntries toy_env demo_entries l0 = Inr (l, True)"
      "becomeLeader demo_env (seg_ops toy_env) (demo_node Candidate l) = Inr t" "mRaftRole t = Leader"
    by (elim resE) auto
  note l = demo_log_on_disk[OF d(1,2)]
  have len: "length demo_entries = 2" by (simp add: demo_entries_def)
  have "elected (demo_node Candidate l) \<and> mLeaderId t = selfId (demo_node Candidate l) \<and>
      (\<exists>n. sl_abs toy_env (mLog t) = al_append [noop_entry (lo_getLatestSecKeyVersion (seg_ops toy_env) l)
        (al_term (sl_abs toy_env l)) (al_last (sl_abs toy_env l) + 1) n] (sl_abs toy_env l))"
    using new_leader[OF _ d(3) _ d(4)] l(1) demo_group_sets by simp
  then have "mLeaderId t = 1" "length (al_entries (sl_abs toy_env (mLog t))) = 3"
    using l(2) len by (auto simp: al_append_def demo_group_def)
  then show ?thesis using d(3) l(2) by (metis alog.select_convs(2))
qed


definition demo_client :: client_request where
  "demo_client = \<lparr>cr_mEntry = demo_entry 0 1 ''a'', cr_mRequestHandle = Some 7\<rparr>"


section \<open>Timers\<close>



section \<open>Configuration messages\<close>


definition demo_cluster :: cluster_info where
  "demo_cluster = \<lparr>ci_mClusterId = 7, ci_mNodes = [(1, default_node\<lparr>cn_mNodeId := 1, cn_mHostName := ''a'',
     cn_mPortForRaft := 5, cn_mPortForGateway := 6\<rparr>)],
     ci_mOldJointMembers = [1], ci_mNewJointMembers = [1, 2], ci_mInsyncLearners = []\<rparr>"


section \<open>A configuration switch under a leader\<close>

definition demo_demotion :: membership where
  "demo_demotion = demo_group\<lparr>ms_mInitialRoles := [(1, PreFollower), (2, Follower), (3, Follower)]\<rparr>"

definition demo_switching :: "inmemory_log raft_core" where
  "demo_switching = (demo_node Leader demo_mem)\<lparr>mClusterMembers := db_setBypass demo_demotion (db_init demo_group)\<rparr>"


end
