(* ===== verification/Election_Properties.thy ===== *)
theory Election_Properties
  imports Raft_Election Raft_Properties
begin

text \<open>
  Election safety of a cluster whose nodes keep their logs on disk, with a run of three nodes
  that elects a leader.
\<close>

section \<open>Three nodes\<close>

definition trio :: "nat \<Rightarrow> membership" where
  "trio i = \<lparr>ms_mPeers = map (\<lambda>k. (k, new_peer\<lparr>p_mId := k\<rparr>)) (filter (\<lambda>k. k \<noteq> i) [1, 2, 3]),
     ms_mInitialRoles = [(1, Follower), (2, Follower), (3, Follower)],
     ms_mSelfInfo = \<lparr>mi_mId = i, mi_mAddress = ''a:1''\<rparr>,
     ms_mClients = map (\<lambda>k. (k, new_client ''b:1'')) (filter (\<lambda>k. k \<noteq> i) [1, 2, 3]),
     ms_mOldMembers = [], ms_mNewMembers = [], ms_mInsyncLearners = []\<rparr>"

definition voter :: "'l \<Rightarrow> nat \<Rightarrow> 'l raft_core" where
  "voter l i = (raft_core_fields Follower l)\<lparr>mClusterMembers := db_init (trio i)\<rparr>"

definition late :: raft_env where
  "late = \<lparr>env_clock = (\<lambda>n. 5000000000 + n), env_rand = (\<lambda>n. 0)\<rparr>"

definition ballot_request :: rv_request where
  "ballot_request = \<lparr>rvq_term = 1, rvq_candidate_id = 1, rvq_last_log_index = 0, rvq_last_log_term = 0, rvq_prevote = False\<rparr>"

definition ballot_answer :: rv_response where
  "ballot_answer = \<lparr>rvp_term = 1, rvp_vote_granted = True, rvp_id = 2, rvp_saved_term = 1, rvp_prevote = False\<rparr>"

lemma trio_run:
  obtains l a1 a2 b1 a3 a4 where "SegmentLog_open toy_env ''log'' 64 192 None None None [] = Inr l"
    "electionTimeout late (seg_ops toy_env) (voter l 1) = Inr a1" "requestVote late (seg_ops toy_env) a1 = Inr a2"
    "SendRV 2 ballot_request \<in> set (mEffects a2)"
    "receiveMessage late (seg_ops toy_env) (deliver (RequestVoteRequestEvent 0 ballot_request) (voter l 2)) = Inr b1"
    "ReplyRV 0 GrpcOK ballot_answer \<in> set (mEffects b1)"
    "receiveMessage late (seg_ops toy_env) (deliver (RequestVoteResponseEvent 2 True ballot_answer) a2) = Inr a3"
    "becomeLeader late (seg_ops toy_env) a3 = Inr a4" "mRaftRole a4 = Leader"
proof -
  have "bindR (SegmentLog_open toy_env ''log'' 64 192 None None None []) (\<lambda>l.
      bindR (electionTimeout late (seg_ops toy_env) (voter l 1)) (\<lambda>a1.
      bindR (requestVote late (seg_ops toy_env) a1) (\<lambda>a2.
      bindR (receiveMessage late (seg_ops toy_env) (deliver (RequestVoteRequestEvent 0 ballot_request) (voter l 2))) (\<lambda>b1.
      bindR (receiveMessage late (seg_ops toy_env) (deliver (RequestVoteResponseEvent 2 True ballot_answer) a2)) (\<lambda>a3.
      bindR (becomeLeader late (seg_ops toy_env) a3) (\<lambda>a4.
      Inr (SendRV 2 ballot_request \<in> set (mEffects a2) \<and> ReplyRV 0 GrpcOK ballot_answer \<in> set (mEffects b1) \<and>
        mRaftRole a4 = Leader))))))) = Inr True"
    by code_simp
  then show thesis using that by (elim resE) auto
qed

definition trio_cluster :: "'l \<Rightarrow> 'l cluster" where
  "trio_cluster l = \<lparr>cl_node = voter l, cl_call = (\<lambda>_. None)\<rparr>"

lemma voter_simps [simp]:
  "members (voter l i) = trio i" "mLog (voter l i) = l" "mRaftRole (voter l i) = Follower" "mCommitIndex (voter l i) = 0"
  "mail (voter l i) = {}" "rv_out (voter l i) = {}"
  by (simp_all add: voter_def db_init_def db_getCurrent_def raft_core_fields_def mail_def rv_out_def)

lemma trio_voters:
  assumes "i \<in> {1, 2, 3}"
  shows "nonLearnersOf (trio i) (allNodeIds (trio i)) = {1, 2, 3}"
proof -
  have "set (allNodeIds (trio 1)) = {1, 2, 3}" "set (allNodeIds (trio 2)) = {1, 2, 3}" "set (allNodeIds (trio 3)) = {1, 2, 3}"
    by code_simp+
  moreover have "roleOf (trio i) k = Some Follower" if "k \<in> {1, 2, 3}" for k
    using that by (auto simp: roleOf_def trio_def uint32_def)
  ultimately show ?thesis using assms by (auto simp: nonLearnersOf_def)
qed

lemma trio_init:
  assumes "sl_inv se l"
  shows "cluster_init (sl_abs se) (sl_inv se) {1, 2, 3} ({1, 2, 3}, {1, 2, 3}) (trio_cluster l)"
proof -
  have "electorate (voter l i) = ({1, 2, 3}, {1, 2, 3})" if "i \<in> {1, 2, 3}" for i
    using trio_voters[OF that] by (simp add: electorate_def joint_config_def trio_def)
  moreover have "om_ok (ms_mPeers (trio i))" "member_sets_ok (trio i)" "mi_mId (ms_mSelfInfo (trio i)) = i" for i
    by (simp_all add: trio_def member_sets_ok_def)
  ultimately show ?thesis using assms by (auto simp: cluster_init_def trio_cluster_def raft_ok_def)
qed

text \<open>
  C1. Election safety. In a cluster with a fixed membership (plain or joint) whose nodes keep
  their logs on disk, started with any terms and votes on the disks, no two nodes are ever
  leaders of the same term, at the same time or one after the other: whatever the network does
  with the vote messages, whatever AppendEntries messages, client and sync requests arrive,
  and however the nodes compact their logs, crash and restart.
\<close>

theorem election_safety:
  assumes "cluster_init (sl_abs se) (sl_inv se) N E c0"
    and "(cluster_step (seg_ops se) (sl_abs se) (sl_inv se) N)\<^sup>*\<^sup>* c0 c"
    and "(cluster_step (seg_ops se) (sl_abs se) (sl_inv se) N)\<^sup>*\<^sup>* c d"
    and "i \<in> N" and "j \<in> N" and "mRaftRole (cl_node c i) = Leader" and "mRaftRole (cl_node d j) = Leader"
    and "lo_getCurrentTerm (seg_ops se) (mLog (cl_node c i)) = lo_getCurrentTerm (seg_ops se) (mLog (cl_node d j))"
  shows "i = j"
  using assms by (rule seg.one_leader_per_term)

lemma trio_elects:
  obtains l c where "sl_inv toy_env l" "mRaftRole (cl_node c 1) = Leader"
    "(cluster_step (seg_ops toy_env) (sl_abs toy_env) (sl_inv toy_env) {1, 2, 3})\<^sup>*\<^sup>* (trio_cluster l) c"
proof -
  let ?step = "cluster_step (seg_ops toy_env) (sl_abs toy_env) (sl_inv toy_env) {1, 2, 3}"
  obtain l a1 a2 b1 a3 a4 where l: "SegmentLog_open toy_env ''log'' 64 192 None None None [] = Inr l"
    and r: "electionTimeout late (seg_ops toy_env) (voter l 1) = Inr a1" "requestVote late (seg_ops toy_env) a1 = Inr a2"
    "SendRV 2 ballot_request \<in> set (mEffects a2)"
    "receiveMessage late (seg_ops toy_env) (deliver (RequestVoteRequestEvent 0 ballot_request) (voter l 2)) = Inr b1"
    "ReplyRV 0 GrpcOK ballot_answer \<in> set (mEffects b1)"
    "receiveMessage late (seg_ops toy_env) (deliver (RequestVoteResponseEvent 2 True ballot_answer) a2) = Inr a3"
    "becomeLeader late (seg_ops toy_env) a3 = Inr a4" "mRaftRole a4 = Leader" by (rule trio_run)
  let ?b0 = "deliver (RequestVoteRequestEvent 0 ballot_request) (voter l 2)"
  let ?a = "deliver (RequestVoteResponseEvent 2 True ballot_answer) a2"
  define c0 where "c0 = trio_cluster l"
  define c1 where "c1 = put 1 a1 c0"
  define c2 where "c2 = put 1 a2 c1"
  define c3 where "c3 = (put 2 ?b0 c2)\<lparr>cl_call := [(2, 0) \<mapsto> 1]\<rparr>"
  define c4 where "c4 = put 2 b1 c3"
  define c5 where "c5 = put 1 ?a c4"
  define c6 where "c6 = put 1 a3 c5"
  define c7 where "c7 = put 1 a4 c6"
  note d = c0_def c1_def c2_def c3_def c4_def c5_def c6_def c7_def put_def trio_cluster_def
  have "?step c0 c1" unfolding c1_def using lp_electionTimeout[OF r(1)] by (intro cs_phase[where env = late]) (simp_all add: d)
  moreover have "?step c1 c2" unfolding c2_def using lp_requestVote[OF r(2)] by (intro cs_phase[where env = late]) (simp_all add: d)
  moreover have "?step c2 c3"
    using cs_vote_request[of 1 "{1, 2, 3}" 2 ballot_request c2 0 "seg_ops toy_env" "sl_abs toy_env" "sl_inv toy_env"] r(3)
    by (simp add: d)
  moreover have "?step c3 c4" unfolding c4_def using lp_receiveMessage[OF r(4)] by (intro cs_phase[where env = late]) (simp_all add: d)
  moreover have "?step c4 c5"
    using cs_vote_answer[of 1 "{1, 2, 3}" 2 0 GrpcOK ballot_answer c4 "seg_ops toy_env" "sl_abs toy_env" "sl_inv toy_env"] r(5)
    by (simp add: d)
  moreover have "?step c5 c6" unfolding c6_def using lp_receiveMessage[OF r(6)] by (intro cs_phase[where env = late]) (simp_all add: d)
  moreover have "?step c6 c7" unfolding c7_def using lp_becomeLeader[OF r(7)] by (intro cs_phase[where env = late]) (simp_all add: d)
  ultimately have run: "?step\<^sup>*\<^sup>* c0 c7" by (meson converse_rtranclp_into_rtranclp rtranclp.rtrancl_refl)
  have "limits_ok toy_env 64 192" by (simp add: limits_ok_def toy_env_def)
  from durable_fresh[OF toy_env_ok this l] have "sl_inv toy_env l" by (simp add: sl_durable_def)
  then show thesis using run r(8) by (intro that[of l c7]) (simp_all add: c0_def c7_def put_def)
qed

theorem election_safety_witness:
  "\<exists>l c. (cluster_step (seg_ops toy_env) (sl_abs toy_env) (sl_inv toy_env) {1, 2, 3})\<^sup>*\<^sup>* (trio_cluster l) c \<and>
     mRaftRole (cl_node c 1) = Leader \<and>
     (mRaftRole (cl_node c 2) = Leader \<longrightarrow>
        lo_getCurrentTerm (seg_ops toy_env) (mLog (cl_node c 2)) \<noteq> lo_getCurrentTerm (seg_ops toy_env) (mLog (cl_node c 1)))"
proof -
  obtain l c where r: "sl_inv toy_env l" "mRaftRole (cl_node c 1) = Leader"
    "(cluster_step (seg_ops toy_env) (sl_abs toy_env) (sl_inv toy_env) {1, 2, 3})\<^sup>*\<^sup>* (trio_cluster l) c" by (rule trio_elects)
  have "(1::nat) \<in> {1, 2, 3}" "(2::nat) \<in> {1, 2, 3}" "(1::nat) \<noteq> 2" by simp_all
  with election_safety[OF trio_init[OF r(1)] r(3) rtranclp.rtrancl_refl, of 1 2] r show ?thesis by metis
qed

end
