(* ===== verification/Cluster_Config.thy ===== *)
theory Cluster_Config
  imports Cluster_Info "HOL-Library.Char_ord" "HOL-Library.List_Lexorder"
begin

text \<open>
  Reading the cluster configuration (\<^verbatim>\<open>util/ClusterInfo.cpp\<close>): the text format of the
  configuration file, the choice of the node's own identity, and the application's copy of the
  result (\<^verbatim>\<open>app_util/AppInfo\<close>).
\<close>

section \<open>Strings\<close>

text \<open>
  \<^verbatim>\<open>absl::StrSplit\<close> by a one-character delimiter; an empty text is one empty piece. Read into a
  pair it gives the first two pieces, empty where there are fewer, and drops the rest; read into
  a \<^verbatim>\<open>std::set\<close> it gives the pieces in order without repetition.
\<close>

fun str_split :: "char \<Rightarrow> string \<Rightarrow> string list" where
  "str_split d [] = [[]]"
| "str_split d (c # s) =
     (if c = d then [] # str_split d s
      else case str_split d s of [] \<Rightarrow> [[c]] | t # ts \<Rightarrow> (c # t) # ts)"

fun as_pair :: "string list \<Rightarrow> string \<times> string" where
  "as_pair [] = ([], [])"
| "as_pair [a] = (a, [])"
| "as_pair (a # b # _) = (a, b)"

definition as_set :: "string list \<Rightarrow> string list" where
  "as_set ts = sort (remdups ts)"

text \<open>\<^verbatim>\<open>std::stoi\<close>, whose result is a 32-bit signed integer.\<close>

definition stoi :: "string \<Rightarrow> int res" where
  "stoi s =
     (let t = dropWhile is_space s;
          neg = (t \<noteq> [] \<and> hd t = CHR ''-'');
          u = (if t \<noteq> [] \<and> (hd t = CHR ''-'' \<or> hd t = CHR ''+'') then tl t else t);
          ds = takeWhile is_digit u;
          v = (if neg then - int (dec_val ds) else int (dec_val ds))
      in if ds = [] then Inl InvalidArgument
         else if v < - (2 ^ 31) \<or> 2 ^ 31 \<le> v then Inl OutOfRange
         else Inr v)"

text \<open>The value stored into a \<^verbatim>\<open>uint32_t\<close>.\<close>

definition stou32 :: "string \<Rightarrow> nat res" where
  "stou32 s = bindR (stoi s) (\<lambda>i. Inr (nat (i mod 2 ^ 32)))"

section \<open>parseToClusterInfo\<close>

definition parsePorts :: "string \<Rightarrow> cluster_node \<Rightarrow> cluster_node res" where
  "parsePorts text node =
     (if text = [] then Inr node
      else let ports = str_split CHR ''|'' text in
        ensure (length ports = 6)
         (bindR (stou32 (ports ! 0)) (\<lambda>p0.
          bindR (stou32 (ports ! 1)) (\<lambda>p1.
          bindR (stou32 (ports ! 2)) (\<lambda>p2.
          bindR (stou32 (ports ! 3)) (\<lambda>p3.
          bindR (stou32 (ports ! 4)) (\<lambda>p4.
          bindR (stou32 (ports ! 5)) (\<lambda>p5.
          Inr (node\<lparr>cn_mPortForRaft := p0, cn_mPortForGateway := p1, cn_mPortForFetcher := p2,
                     cn_mPortForStream := p3, cn_mPortForNetAdmin := p4, cn_mPortForCtrl := p5\<rparr>)))))))))"

definition parseNode :: "string \<Rightarrow> cluster_info \<Rightarrow> cluster_info res" where
  "parseNode n info =
     (let (host, port) = as_pair (str_split CHR '':'' n);
          (i, name) = as_pair (str_split CHR ''@'' host) in
      bindR (stou32 i) (\<lambda>i.
      bindR (parsePorts port (default_node\<lparr>cn_mNodeId := i, cn_mHostName := name\<rparr>)) (\<lambda>node.
      Inr (addNode (node\<lparr>cn_mInitialRole := IR_Voter\<rparr>) info))))"

definition parseCluster ::
  "string \<Rightarrow> (nat \<times> cluster_info) list \<Rightarrow> (nat \<times> cluster_info) list res" where
  "parseCluster c result =
     (let (i, nodes) = as_pair (str_split CHR ''#'' c) in
      bindR (stou32 i) (\<lambda>i.
      bindR (foldR parseNode (str_split CHR '','' nodes)
               \<lparr>ci_mClusterId = i, ci_mNodes = [], ci_mOldJointMembers = [],
                ci_mNewJointMembers = [], ci_mInsyncLearners = []\<rparr>) (\<lambda>info.
      Inr (om_upd (ci_mClusterId info) info result))))"

definition parseLearner :: "string \<Rightarrow> cluster_info \<Rightarrow> cluster_info res" where
  "parseLearner s info =
     bindR (stou32 s) (\<lambda>i. case map_of (ci_mNodes info) i of
        None \<Rightarrow> Inl RuntimeError
      | Some node \<Rightarrow>
          Inr (info\<lparr>ci_mNodes := om_upd i (node\<lparr>cn_mInitialRole := IR_Learner\<rparr>) (ci_mNodes info)\<rparr>))"

definition parseLearners ::
  "string \<Rightarrow> (nat \<times> cluster_info) list \<Rightarrow> (nat \<times> cluster_info) list res" where
  "parseLearners c result =
     (let (i, learners) = as_pair (str_split CHR ''#'' c) in
      bindR (stou32 i) (\<lambda>i. case map_of result i of
        None \<Rightarrow> Inl RuntimeError
      | Some info \<Rightarrow>
          bindR (foldR parseLearner (as_set (str_split CHR '','' learners)) info) (\<lambda>info.
          Inr (om_upd i info result))))"

definition parseToClusterInfo :: "string \<Rightarrow> string \<Rightarrow> (nat \<times> cluster_info) list res" where
  "parseToClusterInfo infoStr learnersStr =
     bindR (foldR parseCluster (str_split CHR '';'' infoStr) []) (\<lambda>result.
     if learnersStr = [] then Inr result
     else foldR parseLearners (str_split CHR '';'' learnersStr) result)"

section \<open>The node's own identity\<close>

text \<open>
  What the process reads of its host: the two environment variables and the host name.
  \<^verbatim>\<open>std::string\<close> built from the null pointer of a missing \<^verbatim>\<open>MEMBERID\<close> throws.
\<close>

record host_env =
  he_SELF_UDNS :: "string option"
  he_MEMBERID :: "string option"
  he_getHostname :: string

definition selfHostname :: "host_env \<Rightarrow> string" where
  "selfHostname he = (case he_SELF_UDNS he of None \<Rightarrow> he_getHostname he | Some h \<Rightarrow> h)"

definition deduceSelfNodeId :: "host_env \<Rightarrow> cluster_info \<Rightarrow> (bool \<times> nat \<times> string) res" where
  "deduceSelfNodeId he info =
     (let myHostname = selfHostname he in
      case List.find (\<lambda>(i, node). myHostname = cn_mHostName node) (ci_mNodes info) of
        Some (i, node) \<Rightarrow> Inr (True, i, myHostname)
      | None \<Rightarrow>
          (case he_MEMBERID he of None \<Rightarrow> Inl RuntimeError
           | Some m \<Rightarrow>
               bindR (stou32 m) (\<lambda>i. case map_of (ci_mNodes info) i of
                 Some node \<Rightarrow> Inr (True, i, cn_mHostName node)
               | None \<Rightarrow> Inr (False, kUnknownNodeId, myHostname))))"

text \<open>
  The loop over the clusters by host name: a later cluster that names the host replaces the
  identity an earlier one gave, the first node within a cluster is taken.
\<close>

definition matchHost :: "string \<Rightarrow> nat \<times> cluster_info \<Rightarrow> int \<times> int \<Rightarrow> int \<times> int" where
  "matchHost myHostname = (\<lambda>(clusterId, info) me.
     case List.find (\<lambda>(i, node). myHostname = cn_mHostName node) (ci_mNodes info) of
       None \<Rightarrow> me | Some (i, node) \<Rightarrow> (int clusterId, int i))"

definition resolveLocal ::
  "host_env \<Rightarrow> ini_reader \<Rightarrow> (nat \<times> nat \<times> nat \<times> (nat \<times> cluster_info) list) res" where
  "resolveLocal he r =
     bindR (parseToClusterInfo (ini_Get r ''cluster'' ''cluster.conf'' [])
              (ini_Get r ''cluster'' ''cluster.conf.learners'' [])) (\<lambda>all.
     let myClusterId = ini_GetInteger r ''cluster'' ''self.clusterId'' (- 1);
         myNodeId = ini_GetInteger r ''cluster'' ''self.nodeId'' (- 1);
         version = ini_GetInteger r ''cluster'' ''cluster.conf.version'' 0 in
     bindR
      (if myClusterId \<noteq> - 1 \<and> myNodeId \<noteq> - 1
       then ensure (\<exists>(c, info) \<in> set all. myClusterId = int c \<and> (\<exists>(i, n) \<in> set (ci_mNodes info). int i = myNodeId))
              (Inr (myClusterId, myNodeId))
       else let (myClusterId, myNodeId) = fold (matchHost (selfHostname he)) all (myClusterId, myNodeId) in
            ensure (myClusterId \<noteq> - 1) (ensure (myNodeId \<noteq> - 1) (Inr (myClusterId, myNodeId))))
      (\<lambda>(myClusterId, myNodeId).
         Inr (nat (myClusterId mod 2 ^ 32), nat (myNodeId mod 2 ^ 32), to_uint64 version, all)))"

text \<open>The first cluster that can tell the node who it is.\<close>

fun deduceCluster :: "host_env \<Rightarrow> (nat \<times> cluster_info) list \<Rightarrow> (nat \<times> nat) option res" where
  "deduceCluster he [] = Inr None"
| "deduceCluster he ((c, info) # rest) =
     bindR (deduceSelfNodeId he info) (\<lambda>(found, i, h).
       if found then Inr (Some (c, i)) else deduceCluster he rest)"

text \<open>
  \<open>kv\<close> gives the value the external configuration store has for a key; \<^const>\<open>None\<close> is the call
  with a null client factory, which is dereferenced.
\<close>

definition resolveExternal ::
  "host_env \<Rightarrow> (string \<Rightarrow> string) option \<Rightarrow> ini_reader \<Rightarrow> (nat \<times> nat \<times> nat \<times> (nat \<times> cluster_info) list) res" where
  "resolveExternal he factory r =
     (let key = ini_Get r ''raft.external'' ''cluster.conf.key'' [] in
      ensure (ini_Get r ''raft.external'' ''config.file'' [] \<noteq> [])
      (ensure (key \<noteq> [])
       (case factory of None \<Rightarrow> Inl OutOfBounds | Some kv \<Rightarrow>
        bindR (parseToClusterInfo (kv key) (kv (key @ ''.learners''))) (\<lambda>all.
        let versionStr = kv (key @ ''.version'') in
        bindR (if versionStr = [] then Inr 0 else bindR (stoi versionStr) (\<lambda>v. Inr (to_uint64 v))) (\<lambda>version.
        bindR (deduceCluster he all) (\<lambda>me. case me of
            None \<Rightarrow> Inl RuntimeError
          | Some (myClusterId, myNodeId) \<Rightarrow>
              if myNodeId = kUnknownNodeId then Inl RuntimeError
              else Inr (myClusterId, myNodeId, version, all)))))))"

definition resolveAllClusters ::
  "host_env \<Rightarrow> (string \<Rightarrow> string) option \<Rightarrow> ini_reader \<Rightarrow> (nat \<times> nat \<times> nat \<times> (nat \<times> cluster_info) list) res" where
  "resolveAllClusters he factory r =
     ensure (ini_Get r ''cluster'' ''persistence.type'' ''UNKNOWN'' = ''raft'')
      (if \<not> ini_GetBoolean r ''raft.external'' ''enable'' False then resolveLocal he r
       else resolveExternal he factory r)"

section \<open>Routes in the external store\<close>

text \<open>
  The JSON document of the routes, as its parser returns it: the text of \<^verbatim>\<open>epoch\<close> and of the
  \<^verbatim>\<open>clusterId\<close> of every element of \<^verbatim>\<open>routeInfos\<close>, \<^const>\<open>None\<close> where the key is missing. The
  function catches every exception.
\<close>

record route_doc =
  rd_epoch :: "string option"
  rd_routeInfos :: "string option list option"

fun findRoute :: "nat \<Rightarrow> string option list \<Rightarrow> bool res" where
  "findRoute clusterId [] = Inr False"
| "findRoute clusterId (None # infos) = Inl RuntimeError"
| "findRoute clusterId (Some s # infos) =
     bindR (stoi s) (\<lambda>i. if clusterId = to_uint64 i then Inr True else findRoute clusterId infos)"

definition checkHasRoute :: "(string \<Rightarrow> route_doc option) \<Rightarrow> string \<Rightarrow> nat \<Rightarrow> bool" where
  "checkHasRoute read_json routeStr clusterId =
     (case (case read_json routeStr of None \<Rightarrow> Inl RuntimeError
            | Some d \<Rightarrow>
                (case rd_epoch d of None \<Rightarrow> Inl RuntimeError
                 | Some e \<Rightarrow> bindR (stoi e) (\<lambda>_.
                    case rd_routeInfos d of None \<Rightarrow> Inl RuntimeError
                    | Some infos \<Rightarrow> findRoute clusterId infos)))
      of Inl _ \<Rightarrow> False | Inr b \<Rightarrow> b)"

section \<open>The documented format\<close>

text \<open>
  The texts the header file documents: clusters separated by semicolons, each its id, a hash and
  its nodes separated by commas; a node is its id, its host and six ports. The second text names
  the learners of every cluster that has some.
\<close>

fun join :: "char \<Rightarrow> string list \<Rightarrow> string" where
  "join d [] = []"
| "join d [t] = t"
| "join d (t # u # ts) = t @ d # join d (u # ts)"

definition ports_of :: "cluster_node \<Rightarrow> nat list" where
  "ports_of n = [cn_mPortForRaft n, cn_mPortForGateway n, cn_mPortForFetcher n,
     cn_mPortForStream n, cn_mPortForNetAdmin n, cn_mPortForCtrl n]"

definition node_text :: "cluster_node \<Rightarrow> string" where
  "node_text n = (to_string (cn_mNodeId n) @ CHR ''@'' # cn_mHostName n) @ CHR '':'' #
     join CHR ''|'' (map to_string (ports_of n))"

definition cluster_text :: "nat \<times> cluster_info \<Rightarrow> string" where
  "cluster_text c = to_string (fst c) @ CHR ''#'' # join CHR '','' (map (node_text \<circ> snd) (ci_mNodes (snd c)))"

definition conf_text :: "(nat \<times> cluster_info) list \<Rightarrow> string" where
  "conf_text cs = join CHR '';'' (map cluster_text cs)"

definition learners :: "cluster_info \<Rightarrow> nat list" where
  "learners info = map fst (filter (\<lambda>(i, n). cn_mInitialRole n = IR_Learner) (ci_mNodes info))"

definition learner_text :: "nat \<times> cluster_info \<Rightarrow> string" where
  "learner_text c = to_string (fst c) @ CHR ''#'' # join CHR '','' (map to_string (learners (snd c)))"

definition learners_text :: "(nat \<times> cluster_info) list \<Rightarrow> string" where
  "learners_text cs = join CHR '';'' (map learner_text (filter (\<lambda>c. learners (snd c) \<noteq> []) cs))"

definition host_ok :: "string \<Rightarrow> bool" where
  "host_ok h \<longleftrightarrow> (\<forall>c \<in> set h. c \<notin> {CHR '';'', CHR ''#'', CHR '','', CHR '':'', CHR ''@''})"

definition node_text_ok :: "nat \<times> cluster_node \<Rightarrow> bool" where
  "node_text_ok p = (case p of (i, n) \<Rightarrow> cn_mNodeId n = i \<and> i < 2 ^ 31 \<and> host_ok (cn_mHostName n) \<and>
     list_all (\<lambda>q. q < 2 ^ 31) (ports_of n) \<and> cn_mInitialRole n \<noteq> IR_PreFollower)"

definition cluster_text_ok :: "nat \<times> cluster_info \<Rightarrow> bool" where
  "cluster_text_ok p = (case p of (c, info) \<Rightarrow> ci_mClusterId info = c \<and> c < 2 ^ 31 \<and> ci_mNodes info \<noteq> [] \<and>
     om_ok (ci_mNodes info) \<and> list_all node_text_ok (ci_mNodes info) \<and>
     ci_mOldJointMembers info = [] \<and> ci_mNewJointMembers info = [] \<and> ci_mInsyncLearners info = [])"

subsection \<open>Splitting\<close>

lemma str_split_none: "d \<notin> set t \<Longrightarrow> str_split d t = [t]"
  by (induction t) auto

lemma str_split_append: "d \<notin> set t \<Longrightarrow> str_split d (t @ d # s) = t # str_split d s"
  by (induction t) auto

lemma str_split_join:
  "ts \<noteq> [] \<Longrightarrow> (\<And>t. t \<in> set ts \<Longrightarrow> d \<notin> set t) \<Longrightarrow> str_split d (join d ts) = ts"
  by (induction d ts rule: join.induct) (auto simp: str_split_none str_split_append)

lemma split_pair:
  "d \<notin> set a \<Longrightarrow> d \<notin> set b \<Longrightarrow> as_pair (str_split d (a @ d # b)) = (a, b)"
  by (simp add: str_split_append str_split_none)

lemma set_join: "set (join d ts) \<subseteq> insert d (\<Union> (set ` set ts))"
  by (induction d ts rule: join.induct) auto

lemma stoi_to_string:
  assumes "n < 2 ^ 31"
  shows "stoi (to_string n) = Inr (int n)"
proof -
  obtain c cs where s: "to_string n = c # cs" by (cases "to_string n") auto
  have d: "is_digit c" using to_string_digits[of n] s by simp
  then have c: "\<not> is_space c" "c \<noteq> CHR ''-''" "c \<noteq> CHR ''+''"
    by (auto simp: is_digit_def is_space_def)
  have "takeWhile is_digit (to_string n) = to_string n"
    using to_string_digits by (rule takeWhile_all)
  with s c assms dec_val_to_string[of n] show ?thesis
    by (simp add: stoi_def Let_def)
qed

lemma stou32_to_string: "n < 2 ^ 31 \<Longrightarrow> stou32 (to_string n) = Inr n"
  by (simp add: stou32_def stoi_to_string)

lemma to_string_sep: "\<not> is_digit d \<Longrightarrow> d \<notin> set (to_string n)"
  using to_string_digits by blast

lemma seps [simp]: "\<not> is_digit CHR '';''" "\<not> is_digit CHR ''#''" "\<not> is_digit CHR '',''"
  "\<not> is_digit CHR '':''" "\<not> is_digit CHR ''@''" "\<not> is_digit CHR ''|''"
  by (simp_all add: is_digit_def)

lemma digits_join: "\<not> is_digit d \<Longrightarrow> d \<noteq> e \<Longrightarrow> d \<notin> set (join e (map to_string ns))"
  using set_join[of e "map to_string ns"] to_string_sep[of d] by fastforce

subsection \<open>Nodes and clusters\<close>

lemma parsePorts_text:
  assumes "list_all (\<lambda>q. q < 2 ^ 31) (ports_of n)"
  shows "parsePorts (join CHR ''|'' (map to_string (ports_of n))) m =
    Inr (m\<lparr>cn_mPortForRaft := cn_mPortForRaft n, cn_mPortForGateway := cn_mPortForGateway n,
      cn_mPortForFetcher := cn_mPortForFetcher n, cn_mPortForStream := cn_mPortForStream n,
      cn_mPortForNetAdmin := cn_mPortForNetAdmin n, cn_mPortForCtrl := cn_mPortForCtrl n\<rparr>)"
proof -
  have ne: "join CHR ''|'' (map to_string (ports_of n)) \<noteq> []"
    by (simp add: ports_of_def)
  have "str_split CHR ''|'' (join CHR ''|'' (map to_string (ports_of n))) = map to_string (ports_of n)"
    by (intro str_split_join) (auto simp: to_string_sep ports_of_def)
  with ne assms show ?thesis
    by (simp add: parsePorts_def stou32_to_string) (simp add: ports_of_def stou32_to_string)
qed

lemma parseNode_text:
  assumes "node_text_ok (i, n)"
  shows "parseNode (node_text n) info = Inr (addNode (n\<lparr>cn_mInitialRole := IR_Voter\<rparr>) info)"
proof -
  note ok = assms[unfolded node_text_ok_def, simplified]
  have h: "CHR '':'' \<notin> set (cn_mHostName n)" "CHR ''@'' \<notin> set (cn_mHostName n)"
    using ok by (auto simp: host_ok_def)
  have "as_pair (str_split CHR '':'' (node_text n)) =
      (to_string (cn_mNodeId n) @ CHR ''@'' # cn_mHostName n, join CHR ''|'' (map to_string (ports_of n)))"
    unfolding node_text_def using h by (intro split_pair) (auto simp: to_string_sep digits_join)
  moreover have "as_pair (str_split CHR ''@'' (to_string (cn_mNodeId n) @ CHR ''@'' # cn_mHostName n)) =
      (to_string (cn_mNodeId n), cn_mHostName n)"
    using h by (intro split_pair) (auto simp: to_string_sep)
  ultimately show ?thesis
    using ok by (cases n) (simp add: parseNode_def stou32_to_string parsePorts_text default_node_def)
qed

definition voters :: "cluster_info \<Rightarrow> cluster_info" where
  "voters info = info\<lparr>ci_mNodes := om_map (\<lambda>n. n\<lparr>cn_mInitialRole := IR_Voter\<rparr>) (ci_mNodes info)\<rparr>"

lemma foldR_parseNode:
  assumes "list_all node_text_ok ns"
  shows "foldR parseNode (map (node_text \<circ> snd) ns) info =
    Inr (info\<lparr>ci_mNodes := fold (\<lambda>(k, v). om_upd k v)
       (om_map (\<lambda>n. n\<lparr>cn_mInitialRole := IR_Voter\<rparr>) ns) (ci_mNodes info)\<rparr>)"
  using assms
proof (induction ns arbitrary: info)
  case (Cons p ns)
  obtain i n where p: "p = (i, n)" by fastforce
  have ok: "node_text_ok (i, n)" using Cons.prems by (simp add: p)
  then have "cn_mNodeId n = i" by (simp add: node_text_ok_def)
  with Cons show ?case
    by (simp add: p parseNode_text[OF ok] addNode_def om_map_def)
qed (simp add: om_map_def)

lemma node_text_sep:
  assumes "node_text_ok p" "d \<in> {CHR '';'', CHR ''#'', CHR '',''}"
  shows "d \<notin> set ((node_text \<circ> snd) p)"
  using assms digits_join[of d "CHR ''|''"] to_string_sep[of d]
  by (auto simp: node_text_ok_def node_text_def host_ok_def)

lemma nodes_text_sep:
  assumes "list_all node_text_ok ns" "d \<in> {CHR '';'', CHR ''#''}"
  shows "d \<notin> set (join CHR '','' (map (node_text \<circ> snd) ns))"
proof -
  have "d \<notin> set ((node_text \<circ> snd) p)" if "p \<in> set ns" for p
    using assms that node_text_sep[of p d] by (auto simp: list_all_iff)
  then show ?thesis
    using assms set_join[of "CHR '',''" "map (node_text \<circ> snd) ns"] by fastforce
qed

lemma parseCluster_text:
  assumes "cluster_text_ok c"
  shows "parseCluster (cluster_text c) m = Inr (om_upd (fst c) (voters (snd c)) m)"
proof -
  obtain i info where c: "c = (i, info)" by fastforce
  note ok = assms[unfolded cluster_text_ok_def c, simplified]
  have pair: "as_pair (str_split CHR ''#'' (cluster_text c)) =
      (to_string i, join CHR '','' (map (node_text \<circ> snd) (ci_mNodes info)))"
    unfolding cluster_text_def c using ok
    by (simp only: fst_conv snd_conv, intro split_pair) (auto simp: to_string_sep nodes_text_sep)
  have split: "str_split CHR '','' (join CHR '','' (map (node_text \<circ> snd) (ci_mNodes info))) =
      map (node_text \<circ> snd) (ci_mNodes info)"
  proof (rule str_split_join)
    show "CHR '','' \<notin> set t" if "t \<in> set (map (node_text \<circ> snd) (ci_mNodes info))" for t
      using that ok node_text_sep[of _ "CHR '',''"] by (fastforce simp: list_all_iff)
  qed (use ok in simp)
  show ?thesis
    using ok fold_om_upd[of "[]" "om_map (\<lambda>n. n\<lparr>cn_mInitialRole := IR_Voter\<rparr>) (ci_mNodes info)"]
    unfolding parseCluster_def pair Let_def prod.case split
    by (cases info) (simp add: stou32_to_string foldR_parseNode c voters_def)
qed

lemma foldR_parseCluster:
  assumes "list_all cluster_text_ok cs"
  shows "foldR parseCluster (map cluster_text cs) m = Inr (fold (\<lambda>(k, v). om_upd k v) (om_map voters cs) m)"
  using assms by (induction cs arbitrary: m) (auto simp: parseCluster_text om_map_def)

subsection \<open>Learners\<close>

definition mark :: "nat set \<Rightarrow> (nat \<times> cluster_node) list \<Rightarrow> (nat \<times> cluster_node) list" where
  "mark S ns = map (\<lambda>(i, n). (i, if i \<in> S then n\<lparr>cn_mInitialRole := IR_Learner\<rparr> else n)) ns"

lemma om_upd_present:
  "om_ok m \<Longrightarrow> map_of m k = Some v \<Longrightarrow> om_upd k w m = map (\<lambda>(j, x). (j, if j = k then w else x)) m"
proof (induction m)
  case (Cons p m)
  obtain j x where p: "p = (j, x)" by fastforce
  have rest: "map (\<lambda>(j, x). (j, if j = k then w else x)) m = m" if "k \<notin> fst ` set m"
    using that by (induction m) auto
  show ?case
  proof (cases "j = k")
    case True
    then have "k \<notin> fst ` set m" using Cons.prems by (auto simp: p)
    then show ?thesis using True rest by (simp add: p)
  next
    case False
    then have "k \<in> fst ` set m" using Cons.prems(2) by (force simp: p dest: map_of_SomeD split: if_splits)
    then have "j < k" using Cons.prems by (auto simp: p)
    then show ?thesis using Cons False by (simp add: p)
  qed
qed simp

lemma map_of_mark: "map_of (mark S ns) i = map_option (\<lambda>n. if i \<in> S then n\<lparr>cn_mInitialRole := IR_Learner\<rparr> else n) (map_of ns i)"
  by (induction ns) (auto simp: mark_def)

lemma mark_keys [simp]: "map fst (mark S ns) = map fst ns"
  by (auto simp: mark_def)

lemma parseLearner_mark:
  assumes "om_ok ns" "i \<in> fst ` set ns" "i < 2 ^ 31"
  shows "parseLearner (to_string i) (info\<lparr>ci_mNodes := mark S ns\<rparr>) = Inr (info\<lparr>ci_mNodes := mark (insert i S) ns\<rparr>)"
proof -
  obtain n where n: "map_of ns i = Some n"
    using assms(2) by (metis (no_types, lifting) imageE map_of_eq_None_iff not_None_eq)
  let ?n = "if i \<in> S then n\<lparr>cn_mInitialRole := IR_Learner\<rparr> else n"
  have m: "map_of (mark S ns) i = Some ?n" by (simp add: map_of_mark n)
  have k: "\<And>m. (i, m) \<in> set ns \<Longrightarrow> m = n"
    using n om_ok_distinct[OF assms(1)] by (simp add: map_of_eq_Some_iff)
  have "om_upd i (?n\<lparr>cn_mInitialRole := IR_Learner\<rparr>) (mark S ns) = mark (insert i S) ns"
    unfolding om_upd_present[OF assms(1)[folded mark_keys[of S ns]] m]
    using k by (auto simp: mark_def)
  then show ?thesis
    by (simp add: parseLearner_def stou32_to_string[OF assms(3)] m)
qed

lemma foldR_parseLearner:
  assumes "om_ok ns" "\<And>s. s \<in> set ss \<Longrightarrow> \<exists>i. s = to_string i \<and> i \<in> fst ` set ns \<and> i < 2 ^ 31"
  shows "foldR parseLearner ss (info\<lparr>ci_mNodes := mark S ns\<rparr>) =
    Inr (info\<lparr>ci_mNodes := mark (S \<union> {i. to_string i \<in> set ss}) ns\<rparr>)"
  using assms(2)
proof (induction ss arbitrary: S)
  case (Cons s ss)
  obtain i where i: "s = to_string i" "i \<in> fst ` set ns" "i < 2 ^ 31" using Cons.prems[of s] by auto
  have e: "insert i S \<union> {j. to_string j \<in> set ss} = S \<union> {j. to_string j \<in> set (s # ss)}"
    using i by auto
  have ih: "foldR parseLearner ss (info\<lparr>ci_mNodes := mark (insert i S) ns\<rparr>) =
      Inr (info\<lparr>ci_mNodes := mark (insert i S \<union> {j. to_string j \<in> set ss}) ns\<rparr>)"
    using Cons.prems by (intro Cons.IH) simp
  show ?case
    unfolding i(1) foldR.simps parseLearner_mark[OF assms(1) i(2,3)] bindR_Inr ih e[unfolded i(1)] ..
qed simp

lemma mark_voters:
  assumes "om_ok (ci_mNodes info)" "list_all node_text_ok (ci_mNodes info)"
  shows "mark (set (learners info)) (ci_mNodes (voters info)) = ci_mNodes info"
proof -
  have "(if i \<in> set (learners info) then (n\<lparr>cn_mInitialRole := IR_Voter\<rparr>)\<lparr>cn_mInitialRole := IR_Learner\<rparr>
      else n\<lparr>cn_mInitialRole := IR_Voter\<rparr>) = n" if p: "(i, n) \<in> set (ci_mNodes info)" for i n
  proof -
    have "i \<in> set (learners info) \<longleftrightarrow> cn_mInitialRole n = IR_Learner"
      using p om_ok_distinct[OF assms(1)] by (force simp: learners_def dest: eq_key_imp_eq_value)
    moreover have "cn_mInitialRole n \<noteq> IR_PreFollower"
      using p assms(2) by (auto simp: list_all_iff node_text_ok_def)
    ultimately show ?thesis by (cases n, cases "cn_mInitialRole n") auto
  qed
  then show ?thesis
    by (auto simp: mark_def voters_def om_map_def intro!: map_idI)
qed

lemma parseLearners_text:
  assumes "om_ok cs" "c \<in> set cs" "cluster_text_ok c" "learners (snd c) \<noteq> []"
    and "map_of m (fst c) = Some (voters (snd c))"
  shows "parseLearners (learner_text c) m = Inr (om_upd (fst c) (snd c) m)"
proof -
  obtain i info where c: "c = (i, info)" by fastforce
  note ok = assms(3)[unfolded cluster_text_ok_def c, simplified]
  have ids: "j \<in> fst ` set (ci_mNodes info) \<and> j < 2 ^ 31" if "j \<in> set (learners info)" for j
    using that ok by (force simp: learners_def list_all_iff node_text_ok_def)
  have pair: "as_pair (str_split CHR ''#'' (learner_text c)) =
      (to_string i, join CHR '','' (map to_string (learners info)))"
    unfolding learner_text_def c
    by (simp only: fst_conv snd_conv, intro split_pair) (auto simp: to_string_sep digits_join)
  have split: "set (as_set (str_split CHR '','' (join CHR '','' (map to_string (learners info))))) =
      to_string ` set (learners info)"
    using assms(4) by (subst str_split_join) (auto simp: c to_string_sep as_set_def)
  have keys: "fst ` set (ci_mNodes (voters info)) = fst ` set (ci_mNodes info)" "om_ok (ci_mNodes (voters info))"
    using ok by (force simp: voters_def)+
  have same: "voters info = info\<lparr>ci_mNodes := mark {} (ci_mNodes (voters info))\<rparr>"
    by (simp add: mark_def voters_def case_prod_unfold)
  have "{j. to_string j \<in> to_string ` set (learners info)} = set (learners info)" by auto
  then have "foldR parseLearner (as_set (str_split CHR '','' (join CHR '','' (map to_string (learners info))))) (voters info)
      = Inr (info\<lparr>ci_mNodes := mark (set (learners info)) (ci_mNodes (voters info))\<rparr>)"
    using ids keys by (subst same, subst foldR_parseLearner) (auto simp: split)
  then have "foldR parseLearner (as_set (str_split CHR '','' (join CHR '','' (map to_string (learners info))))) (voters info)
      = Inr info"
    using ok by (simp add: mark_voters)
  then show ?thesis
    using ok assms(5) unfolding parseLearners_def pair by (simp add: stou32_to_string c)
qed

text \<open>\<open>restore K cs\<close>: the clusters of \<open>K\<close> have their learners back.\<close>

definition restore :: "nat set \<Rightarrow> (nat \<times> cluster_info) list \<Rightarrow> (nat \<times> cluster_info) list" where
  "restore K cs = map (\<lambda>(c, info). (c, if c \<in> K then info else voters info)) cs"

lemma restore_keys [simp]: "map fst (restore K cs) = map fst cs"
  by (auto simp: restore_def)

lemma map_of_restore:
  "map_of (restore K cs) c = map_option (\<lambda>info. if c \<in> K then info else voters info) (map_of cs c)"
  by (induction cs) (auto simp: restore_def)

lemma foldR_parseLearners:
  assumes "om_ok cs" "list_all cluster_text_ok cs" "set ls \<subseteq> set cs" "distinct (map fst ls)"
    and "\<And>c. c \<in> set ls \<Longrightarrow> learners (snd c) \<noteq> []" "K \<inter> fst ` set ls = {}"
  shows "foldR parseLearners (map learner_text ls) (restore K cs) = Inr (restore (K \<union> fst ` set ls) cs)"
  using assms(3-6)
proof (induction ls arbitrary: K)
  case (Cons c ls)
  obtain i info where c: "c = (i, info)" by fastforce
  have cs: "map_of cs i = Some info"
    using Cons.prems(1) om_ok_distinct[OF assms(1)] by (simp add: c)
  have m: "map_of (restore K cs) i = Some (voters info)"
    using Cons.prems(4) cs by (auto simp: map_of_restore c)
  have k: "j = info" if "(i, j) \<in> set cs" for j
    using that cs om_ok_distinct[OF assms(1)] by (simp add: map_of_eq_Some_iff)
  have "om_upd i info (restore K cs) = restore (insert i K) cs"
    unfolding om_upd_present[OF assms(1)[folded restore_keys[of K cs]] m]
    using k by (auto simp: restore_def)
  moreover have "parseLearners (learner_text c) (restore K cs) = Inr (om_upd i info (restore K cs))"
    using parseLearners_text[OF assms(1), of c "restore K cs"] Cons.prems(1) Cons.prems(3)[of c] assms(2) m
    by (simp add: c list_all_iff)
  moreover have "foldR parseLearners (map learner_text ls) (restore (insert i K) cs) =
      Inr (restore (insert i K \<union> fst ` set ls) cs)"
    using Cons.prems by (intro Cons.IH) (auto simp: c)
  ultimately show ?case by (simp add: c)
qed simp

lemma restore_all:
  assumes "list_all cluster_text_ok cs"
  shows "restore (fst ` set (filter (\<lambda>c. learners (snd c) \<noteq> []) cs)) cs = cs"
proof -
  have "voters info = info" if "(c, info) \<in> set cs" "learners info = []" for c info
  proof -
    have ok: "om_ok (ci_mNodes info)" "list_all node_text_ok (ci_mNodes info)"
      using that assms by (auto simp: list_all_iff cluster_text_ok_def)
    show ?thesis
      using mark_voters[OF ok] that(2) by (simp add: mark_def voters_def case_prod_unfold)
  qed
  moreover have "(c, info) \<in> set cs \<Longrightarrow> c \<notin> fst ` set (filter (\<lambda>c. learners (snd c) \<noteq> []) cs) \<Longrightarrow> learners info = []"
    for c info by force
  ultimately show ?thesis
    by (auto simp: restore_def intro!: map_idI)
qed

lemma cluster_text_sep:
  assumes "cluster_text_ok c"
  shows "CHR '';'' \<notin> set (cluster_text c)" "CHR '';'' \<notin> set (learner_text c)"
  using assms nodes_text_sep[of "ci_mNodes (snd c)" "CHR '';''"]
  by (auto simp: cluster_text_def learner_text_def cluster_text_ok_def to_string_sep digits_join)

text \<open>
  C32. The configuration reader understands the format the header documents: the text of any set
  of clusters whose nodes are voters and learners, with host names free of separators and numbers
  within a signed 32-bit integer, is read back as exactly these clusters, nodes, ports and roles.
\<close>

theorem configuration_text_read_back:
  assumes "cs \<noteq> []" and "om_ok cs" and "list_all cluster_text_ok cs"
  shows "parseToClusterInfo (conf_text cs) (learners_text cs) = Inr cs"
proof -
  let ?ls = "filter (\<lambda>c. learners (snd c) \<noteq> []) cs"
  have sep: "CHR '';'' \<notin> set t" if "t \<in> set (map cluster_text cs) \<union> set (map learner_text ?ls)" for t
    using that assms(3) cluster_text_sep by (auto simp: list_all_iff)
  have "str_split CHR '';'' (conf_text cs) = map cluster_text cs"
    unfolding conf_text_def using assms(1) sep by (intro str_split_join) auto
  moreover have "om_map voters cs = restore {} cs"
    by (simp add: restore_def om_map_def)
  ultimately have clusters: "foldR parseCluster (str_split CHR '';'' (conf_text cs)) [] = Inr (restore {} cs)"
    using assms(2) fold_om_upd[of "[]" "om_map voters cs"] by (simp add: foldR_parseCluster[OF assms(3)])
  have all: "foldR parseLearners (map learner_text ?ls) (restore {} cs) = Inr cs"
  proof -
    have "foldR parseLearners (map learner_text ?ls) (restore {} cs) = Inr (restore ({} \<union> fst ` set ?ls) cs)"
      by (rule foldR_parseLearners[OF assms(2,3)])
         (auto intro: distinct_map_filter[OF om_ok_distinct[OF assms(2)]])
    then show ?thesis unfolding Un_empty_left restore_all[OF assms(3)] .
  qed
  show ?thesis
  proof (cases "?ls = []")
    case True
    then show ?thesis
      using clusters all by (simp add: parseToClusterInfo_def learners_text_def)
  next
    case False
    have ne: "learners_text cs \<noteq> []"
      using False by (cases ?ls; cases "tl ?ls") (auto simp: learners_text_def learner_text_def)
    have "str_split CHR '';'' (learners_text cs) = map learner_text ?ls"
      unfolding learners_text_def using False sep by (intro str_split_join) auto
    then show ?thesis
      using clusters all ne by (simp add: parseToClusterInfo_def)
  qed
qed

definition sample_clusters :: "(nat \<times> cluster_info) list" where
  "sample_clusters = [(0, \<lparr>ci_mClusterId = 0,
      ci_mNodes = [(1, default_node\<lparr>cn_mNodeId := 1, cn_mHostName := ''n1''\<rparr>),
                   (2, default_node\<lparr>cn_mNodeId := 2, cn_mHostName := ''n2'', cn_mInitialRole := IR_Learner\<rparr>)],
      ci_mOldJointMembers = [], ci_mNewJointMembers = [], ci_mInsyncLearners = []\<rparr>)]"

theorem configuration_text_read_back_witness:
  "parseToClusterInfo
     ''0#1@n1:5254|50055|50056|5678|50065|61203,2@n2:5254|50055|50056|5678|50065|61203'' ''0#2''
   = Inr sample_clusters"
proof -
  have "conf_text sample_clusters =
      ''0#1@n1:5254|50055|50056|5678|50065|61203,2@n2:5254|50055|50056|5678|50065|61203''"
    "learners_text sample_clusters = ''0#2''" "sample_clusters \<noteq> []" "om_ok sample_clusters"
    "list_all cluster_text_ok sample_clusters"
    by code_simp+
  then show ?thesis
    using configuration_text_read_back[of sample_clusters] by simp
qed

end
