(* ===== verification/Control.thy ===== *)
theory Control
  imports Cluster_Config Raft_Types
begin

text \<open>
  The control commands of an application (\<^verbatim>\<open>app_util/control\<close>) and the process-wide settings
  they read (\<^verbatim>\<open>app_util/AppInfo\<close>): splitting a cluster by routes and changing the members of the
  cluster. A command is verified when it arrives and processed against the control state, which
  gives events; the events change the state when they are applied.
\<close>

section \<open>AppInfo\<close>

record app_info =
  ai_initialized :: bool
  ai_mSubsystemId :: nat
  ai_mGroupVersion :: nat
  ai_mStressTestEnabled :: bool
  ai_mAppVersion :: string
  ai_mAllClusterInfo :: "(nat \<times> cluster_info) list"
  ai_mClusterVersion :: nat
  ai_mMyClusterId :: nat
  ai_mMyNodeId :: nat

definition AppInfo_init :: "host_env \<Rightarrow> ini_reader \<Rightarrow> app_info \<Rightarrow> app_info res" where
  "AppInfo_init he r a =
     (if ai_initialized a then Inr a
      else bindR (resolveAllClusters he None r) (\<lambda>(myClusterId, myNodeId, clusterVersion, all).
        let subsystem = to_uint64 (ini_GetInteger r ''app'' ''subsystem.id'' 0) in
        ensure (subsystem > 0)
         (Inr (a\<lparr>ai_initialized := True, ai_mMyClusterId := myClusterId, ai_mMyNodeId := myNodeId,
                 ai_mAllClusterInfo := all, ai_mClusterVersion := clusterVersion,
                 ai_mSubsystemId := subsystem,
                 ai_mGroupVersion := to_uint64 (ini_GetInteger r ''app'' ''group.version'' 0),
                 ai_mStressTestEnabled := ini_GetBoolean r ''app'' ''stress.test.enabled'' False,
                 ai_mAppVersion := ini_Get r ''app'' ''version'' ''v2''\<rparr>))))"

definition AppInfo_init_from :: "nat \<Rightarrow> nat \<Rightarrow> cluster_info \<Rightarrow> app_info \<Rightarrow> app_info" where
  "AppInfo_init_from version nodeId info a =
     (if ai_initialized a then a
      else a\<lparr>ai_initialized := True, ai_mClusterVersion := version, ai_mMyNodeId := nodeId,
             ai_mMyClusterId := ci_mClusterId info,
             ai_mAllClusterInfo := om_upd (ci_mClusterId info) info (ai_mAllClusterInfo a)\<rparr>)"

text \<open>\<^verbatim>\<open>mAllClusterInfo[id]\<close> of a missing id is a default-constructed value.\<close>

definition empty_cluster_info :: cluster_info where
  "empty_cluster_info = \<lparr>ci_mClusterId = 0, ci_mNodes = [], ci_mOldJointMembers = [],
     ci_mNewJointMembers = [], ci_mInsyncLearners = []\<rparr>"

definition getMyClusterInfo :: "app_info \<Rightarrow> cluster_info" where
  "getMyClusterInfo a = (case map_of (ai_mAllClusterInfo a) (ai_mMyClusterId a) of
     None \<Rightarrow> empty_cluster_info | Some info \<Rightarrow> info)"

definition setClusterInfo :: "nat \<Rightarrow> nat \<Rightarrow> cluster_info \<Rightarrow> app_info \<Rightarrow> app_info res" where
  "setClusterInfo clusterVersion nodeId info a =
     ensure (ai_mMyClusterId a = ci_mClusterId info)
     (ensure (clusterVersion > ai_mClusterVersion a)
     (ensure (nodeId \<noteq> kUnknownNodeId)
      (Inr (a\<lparr>ai_mClusterVersion := clusterVersion,
              ai_mAllClusterInfo := om_upd (ci_mClusterId info) info (ai_mAllClusterInfo a)\<rparr>))))"

definition getMyInitRaftRole :: "app_info \<Rightarrow> raft_role res" where
  "getMyInitRaftRole a =
     ensure (ai_initialized a)
      (Inr (case map_of (getAllInitialRoles (getMyClusterInfo a)) (ai_mMyNodeId a) of
          None \<Rightarrow> Follower
        | Some IR_Learner \<Rightarrow> Learner
        | Some IR_PreFollower \<Rightarrow> PreFollower
        | Some IR_Voter \<Rightarrow> Follower))"

section \<open>Routes\<close>

text \<open>
  The hash map and the hash sets of the routes are kept as sorted lists; their iteration order
  shows only in the order of the entries of a message.
\<close>

record route_proto =
  rt_type :: nat
  rt_groups :: "nat list"
  rt_groupTotal :: nat

record route =
  r_mGroups :: "nat list"
  r_mGroupTotal :: nat
  r_mType :: nat

definition Route_of :: "route_proto \<Rightarrow> route" where
  "Route_of p = \<lparr>r_mGroups = fold insort_insert (rt_groups p) [], r_mGroupTotal = rt_groupTotal p, r_mType = rt_type p\<rparr>"

definition Route_buildProto :: "route \<Rightarrow> route_proto" where
  "Route_buildProto r = \<lparr>rt_type = r_mType r, rt_groups = r_mGroups r, rt_groupTotal = r_mGroupTotal r\<rparr>"

definition rm_parseFromProto :: "route_proto list \<Rightarrow> (nat \<times> route) list \<Rightarrow> (nat \<times> route) list" where
  "rm_parseFromProto ps m = fold (\<lambda>p. om_upd (rt_type p) (Route_of p)) ps m"

definition rm_groupTotal :: "nat \<Rightarrow> (nat \<times> route) list \<Rightarrow> nat" where
  "rm_groupTotal type m = (case map_of m type of None \<Rightarrow> 0 | Some r \<Rightarrow> r_mGroupTotal r)"

definition rm_hasGroup :: "nat \<Rightarrow> nat \<Rightarrow> (nat \<times> route) list \<Rightarrow> bool" where
  "rm_hasGroup type g m = (case map_of m type of None \<Rightarrow> False | Some r \<Rightarrow> g \<in> set (r_mGroups r))"

definition rm_applyRoute :: "nat \<Rightarrow> route \<Rightarrow> (nat \<times> route) list \<Rightarrow> (nat \<times> route) list" where
  "rm_applyRoute type r m = (if r_mGroups r = [] then om_erase type m else om_upd type r m)"

definition rm_buildProto :: "(nat \<times> route) list \<Rightarrow> route_proto list" where
  "rm_buildProto m = map (Route_buildProto \<circ> snd) m"

section \<open>CtrlState\<close>

text \<open>
  \<^verbatim>\<open>mClusterId\<close> and \<^verbatim>\<open>mStartIndex\<close> have no initialiser: \<open>new_ctrl_state\<close> takes the values the
  memory had.
\<close>

record ctrl_state =
  cs_mRouteMap :: "(nat \<times> route) list"
  cs_mEpoch :: nat
  cs_mPlanId :: string
  cs_mClusterId :: nat
  cs_mStartIndex :: nat
  cs_mClusterVersion :: nat
  cs_mClusterConfiguration :: cluster_info
  cs_mClusterReconfigureIndex :: nat

definition new_ctrl_state :: "nat \<Rightarrow> nat \<Rightarrow> ctrl_state" where
  "new_ctrl_state u v = \<lparr>cs_mRouteMap = [], cs_mEpoch = 0, cs_mPlanId = [], cs_mClusterId = u,
     cs_mStartIndex = v, cs_mClusterVersion = 0, cs_mClusterConfiguration = empty_cluster_info,
     cs_mClusterReconfigureIndex = 0\<rparr>"

definition hasSplitState :: "ctrl_state \<Rightarrow> bool" where
  "hasSplitState s \<longleftrightarrow> cs_mEpoch s > 0"

definition setClusterConfiguration :: "nat \<Rightarrow> cluster_info \<Rightarrow> nat \<Rightarrow> ctrl_state \<Rightarrow> ctrl_state" where
  "setClusterConfiguration version info index s =
     s\<lparr>cs_mClusterVersion := version, cs_mClusterConfiguration := info, cs_mClusterReconfigureIndex := index\<rparr>"

definition cs_applyRoute :: "route_proto \<Rightarrow> ctrl_state \<Rightarrow> ctrl_state" where
  "cs_applyRoute p s = s\<lparr>cs_mRouteMap := rm_applyRoute (rt_type p) (Route_of p) (cs_mRouteMap s)\<rparr>"

record split_state =
  ss_routes :: "route_proto list"
  ss_epoch :: nat
  ss_planId :: string
  ss_clusterId :: nat
  ss_startIndex :: nat
  ss_clusterVersion :: nat
  ss_clusterConfiguration :: cluster_configuration
  ss_clusterReconfigureIndex :: nat

definition cs_buildProto :: "ctrl_state \<Rightarrow> split_state" where
  "cs_buildProto s = \<lparr>ss_routes = rm_buildProto (cs_mRouteMap s), ss_epoch = cs_mEpoch s,
     ss_planId = cs_mPlanId s, ss_clusterId = cs_mClusterId s, ss_startIndex = cs_mStartIndex s,
     ss_clusterVersion = cs_mClusterVersion s,
     ss_clusterConfiguration = syncToProto (cs_mClusterConfiguration s),
     ss_clusterReconfigureIndex = cs_mClusterReconfigureIndex s\<rparr>"

text \<open>\<open>ser\<close> and \<open>par\<close> are the serialisation of the message and its parser.\<close>

definition cs_encodeToString :: "(split_state \<Rightarrow> string) \<Rightarrow> ctrl_state \<Rightarrow> string" where
  "cs_encodeToString ser s = ser (cs_buildProto s)"

definition cs_decodeFromString :: "(string \<Rightarrow> split_state) \<Rightarrow> nat \<Rightarrow> string \<Rightarrow> ctrl_state \<Rightarrow> ctrl_state" where
  "cs_decodeFromString par groupId view s =
     (if view = [] then s
      else let d = par view;
               s = (if ss_clusterId d = groupId
                    then s\<lparr>cs_mRouteMap := rm_parseFromProto (ss_routes d) (cs_mRouteMap s),
                           cs_mPlanId := ss_planId d, cs_mClusterId := ss_clusterId d,
                           cs_mEpoch := ss_epoch d, cs_mStartIndex := ss_startIndex d\<rparr>
                    else s) in
           s\<lparr>cs_mClusterVersion := ss_clusterVersion d,
             cs_mClusterConfiguration := syncFromProto (ss_clusterConfiguration d),
             cs_mClusterReconfigureIndex := ss_clusterReconfigureIndex d\<rparr>)"

text \<open>
  Recovery asks the configuration store whether the cluster still has routes and, when it has,
  tells the consensus module to stop synchronising at the start index: the second component.
\<close>

definition recoverForEAL ::
  "(string \<Rightarrow> split_state) \<Rightarrow> nat \<Rightarrow> (nat \<Rightarrow> nat \<Rightarrow> bool) \<Rightarrow> string \<Rightarrow> ctrl_state \<Rightarrow> ctrl_state \<times> nat option" where
  "recoverForEAL par groupId hasRoute str s =
     (let s = cs_decodeFromString par groupId str s in
      (s, if hasSplitState s \<and> cs_mClusterId s > 0 \<and> hasRoute (cs_mEpoch s) (cs_mClusterId s)
          then Some (cs_mStartIndex s) else None))"

section \<open>Splitting a cluster\<close>

record impact =
  im_route :: route_proto
  im_clusterId :: nat
  im_newCluster :: bool

record split_request =
  sq_epoch :: nat
  sq_planId :: string
  sq_impacts :: "impact list"

record process_hint =
  ph_mCode :: nat
  ph_mMessage :: string

definition kVerifiedSuccess :: string where "kVerifiedSuccess = ''Success''"

text \<open>The groups of one route: \<^const>\<open>Inl\<close> is the error message the function returns.\<close>

fun verifyGroups :: "nat \<Rightarrow> nat list \<Rightarrow> (nat \<times> nat) list \<Rightarrow> string + (nat \<times> nat) list" where
  "verifyGroups type [] seen = Inr seen"
| "verifyGroups type (g # gs) seen =
     (if (type, g) \<in> set seen
      then Inl (''duplicated group :'' @ to_string g @ ''with type '' @ to_string type)
      else verifyGroups type gs ((type, g) # seen))"

fun verifyImpacts :: "impact list \<Rightarrow> (nat \<times> nat) list \<Rightarrow> (nat \<times> nat) list \<Rightarrow> string" where
  "verifyImpacts [] groupTotals groups = kVerifiedSuccess"
| "verifyImpacts (im # ims) groupTotals groups =
     (let route = im_route im; type = rt_type route;
          total = (case map_of groupTotals type of None \<Rightarrow> 0 | Some t \<Rightarrow> t) in
      if total > 0 \<and> total \<noteq> rt_groupTotal route
      then ''group total should be same with '' @ to_string total
      else case verifyGroups type (rt_groups route) groups of
             Inl e \<Rightarrow> e
           | Inr groups \<Rightarrow> verifyImpacts ims (om_upd type (rt_groupTotal route) groupTotals) groups)"

definition split_verifyCommand :: "split_request \<Rightarrow> string" where
  "split_verifyCommand q =
     (if sq_planId q = [] then ''planId is empty''
      else if sq_epoch q = 0 then ''epoch should greater than 0''
      else verifyImpacts (sq_impacts q) [] [])"

definition split_process :: "ctrl_state \<Rightarrow> split_request \<Rightarrow> process_hint \<times> split_request list" where
  "split_process s q =
     (if hasSplitState s \<and> sq_epoch q < cs_mEpoch s
      then (\<lparr>ph_mCode = 400, ph_mMessage = ''epoch should be greater than '' @ to_string (cs_mEpoch s)\<rparr>, [])
      else if hasSplitState s \<and> sq_epoch q = cs_mEpoch s
      then if sq_planId q = cs_mPlanId s
           then (\<lparr>ph_mCode = 201, ph_mMessage = ''deduped''\<rparr>, [])
           else (\<lparr>ph_mCode = 400, ph_mMessage = ''plan id should be '' @ cs_mPlanId s\<rparr>, [])
      else (\<lparr>ph_mCode = 200, ph_mMessage = ''ok''\<rparr>, [q]))"

definition split_impact ::
  "nat \<Rightarrow> nat \<Rightarrow> impact \<Rightarrow> ctrl_state \<times> bool \<Rightarrow> (ctrl_state \<times> bool) res" where
  "split_impact groupId commandId im = (\<lambda>(s, impacted).
     if im_clusterId im \<noteq> groupId then Inr (s, impacted)
     else let s = (cs_applyRoute (im_route im) s)\<lparr>cs_mClusterId := im_clusterId im\<rparr> in
          if im_newCluster im
          then ensure (im_clusterId im \<noteq> 0) (Inr (s\<lparr>cs_mStartIndex := commandId + 1\<rparr>, True))
          else Inr (s, True))"

definition split_apply :: "nat \<Rightarrow> nat \<Rightarrow> split_request \<Rightarrow> ctrl_state \<Rightarrow> ctrl_state res" where
  "split_apply groupId commandId q s =
     bindR (foldR (split_impact groupId commandId) (sq_impacts q) (s\<lparr>cs_mRouteMap := []\<rparr>, False)) (\<lambda>(s, impacted).
     Inr (if impacted then s\<lparr>cs_mEpoch := sq_epoch q, cs_mPlanId := sq_planId q\<rparr> else s))"

section \<open>Changing the members\<close>

record reconfigure_request =
  rq_version :: nat
  rq_configuration :: cluster_configuration

definition apostrophe :: string where "apostrophe = [CHR 0x27]"

text \<open>The loop over the new and the old ids of a joint configuration.\<close>

fun verifyJointIds :: "string \<Rightarrow> nat list \<Rightarrow> nat list \<Rightarrow> nat list \<Rightarrow> string + nat list" where
  "verifyJointIds which ids [] joint = Inr joint"
| "verifyJointIds which ids (i # is) joint =
     (if i \<notin> set ids then Inl (which @ '' member id '' @ apostrophe @ to_string i @ apostrophe @ '' is not in members list.'')
      else verifyJointIds which ids is (insort_insert i joint))"

definition verifyJoint :: "cluster_configuration \<Rightarrow> string" where
  "verifyJoint c =
     (let ids = map mp_id (cc_members c) in
      if cc_newMemberIds c = [] \<and> cc_oldMemberIds c \<noteq> []
      then ''New members should not be empty when old members are not empty.''
      else if cc_newMemberIds c \<noteq> [] \<and> cc_oldMemberIds c = []
      then ''Old members should not be empty when new members are not empty.''
      else if cc_newMemberIds c \<noteq> [] \<and> cc_oldMemberIds c \<noteq> []
      then case verifyJointIds ''New'' ids (cc_newMemberIds c) [] of Inl e \<Rightarrow> e
           | Inr joint \<Rightarrow>
             (case verifyJointIds ''Old'' ids (cc_oldMemberIds c) joint of Inl e \<Rightarrow> e
              | Inr joint \<Rightarrow>
                  if length joint \<noteq> length (cc_members c)
                  then ''Joint member size should be the same as member'' @ apostrophe @ ''s.''
                  else kVerifiedSuccess)
      else kVerifiedSuccess)"

definition reconfigure_verifyCommand :: "nat \<Rightarrow> reconfigure_request \<Rightarrow> string" where
  "reconfigure_verifyCommand groupId q =
     (let c = rq_configuration q in
      if cc_clusterId c \<noteq> groupId
      then ''This reconfigure command is sent to a wrong cluster. cluster id in request: '' @
           to_string (cc_clusterId c) @ '', id of this cluster: '' @ to_string groupId
      else if cc_members c = [] then ''Members in reconfigure command should not be empty.''
      else if \<exists>m \<in> set (cc_members c). mp_id m = 0 then ''Member id should be greater than 0.''
      else verifyJoint c)"

definition node_address :: "cluster_node \<Rightarrow> string" where
  "node_address n = cn_mHostName n @ '':'' @ to_string (cn_mPortForRaft n)"

definition member_address :: "member_proto \<Rightarrow> string" where
  "member_address m = mp_address m @ '':'' @ to_string (if mp_port m = 0 then kDefaultRaftPort else mp_port m)"

definition latestConfiguration :: "app_info \<Rightarrow> ctrl_state \<Rightarrow> cluster_info" where
  "latestConfiguration a s =
     (if cs_mClusterVersion s > ai_mClusterVersion a then cs_mClusterConfiguration s else getMyClusterInfo a)"

definition addresses_of :: "cluster_info \<Rightarrow> (string \<times> nat) list" where
  "addresses_of c = fold (\<lambda>(i, n). om_upd (node_address n) i) (ci_mNodes c) []"

definition bad_request :: "string \<Rightarrow> process_hint \<times> reconfigure_request list" where
  "bad_request e = (\<lparr>ph_mCode = 400, ph_mMessage = e\<rparr>, [])"

definition reconfigure_process ::
  "app_info \<Rightarrow> ctrl_state \<Rightarrow> reconfigure_request \<Rightarrow> process_hint \<times> reconfigure_request list" where
  "reconfigure_process a s q =
     (let latestVersion = max (cs_mClusterVersion s) (ai_mClusterVersion a);
          latest = latestConfiguration a s;
          members = cc_members (rq_configuration q);
          addresses = addresses_of latest;
          requested = map member_address members;
          roles = getAllInitialRoles latest;
          learnerSet = map mp_id (filter (\<lambda>m. mp_role m = IR_Learner) members) in
      if rq_version q \<noteq> latestVersion + 1
      then bad_request (''Version should be current version + 1. current version: '' @ to_string latestVersion @
             '', new version: '' @ to_string (rq_version q))
      else if \<not> (\<exists>m \<in> set members. map_of addresses (member_address m) \<noteq> None)
      then bad_request ''New members should have intersection with current members.''
      else case List.find (\<lambda>m. map_of addresses (member_address m) = None \<and> mp_role m = IR_Voter) members of
        Some m \<Rightarrow> bad_request (''New members should not be voter. '' @ to_string (mp_id m) @ ''@'' @
             member_address m @ '' is voter.'')
      | None \<Rightarrow>
      (case List.find (\<lambda>(i, n). node_address n \<notin> set requested \<and>
               (map_of roles i = None \<or> map_of roles i = Some IR_Voter)) (ci_mNodes latest) of
        Some (i, n) \<Rightarrow> bad_request (''Only non-voter can be removed from cluster. '' @ to_string i @ ''@'' @
             node_address n @ '' is voter.'')
      | None \<Rightarrow>
      (case List.find (\<lambda>m. map_of addresses (member_address m) \<noteq> None \<and>
               map_of addresses (member_address m) \<noteq> Some (mp_id m)) members of
        Some m \<Rightarrow> bad_request (''Node id of '' @ apostrophe @ member_address m @ apostrophe @ '' changes: '' @
             to_string (the (map_of addresses (member_address m))) @ ''->'' @ to_string (mp_id m))
      | None \<Rightarrow>
      (case List.find (\<lambda>i. i \<notin> set learnerSet) (cc_inSyncLearners (rq_configuration q)) of
        Some i \<Rightarrow> bad_request (''In-sync learner id '' @ apostrophe @ to_string i @ apostrophe @ '' is not in learner list.'')
      | None \<Rightarrow> (\<lparr>ph_mCode = 200, ph_mMessage = ''Success''\<rparr>, [q])))))"

definition reconfigure_apply :: "nat \<Rightarrow> reconfigure_request \<Rightarrow> ctrl_state \<Rightarrow> ctrl_state" where
  "reconfigure_apply commandId q s =
     setClusterConfiguration (rq_version q) (syncFromProto (rq_configuration q)) commandId s"

text \<open>
  After an event is applied the consensus module and the forwarding clients hear of the new
  configuration.
\<close>

datatype reconfigure_signal =
    ReconfigureSignal nat nat cluster_info
  | ForwardReconfigureSignal cluster_info

definition reconfigure_onApplied ::
  "host_env \<Rightarrow> reconfigure_request \<Rightarrow> app_info \<Rightarrow> (app_info \<times> reconfigure_signal list) res" where
  "reconfigure_onApplied he q a =
     (let info = syncFromProto (rq_configuration q) in
      if rq_version q \<le> ai_mClusterVersion a then Inr (a, [])
      else bindR (deduceSelfNodeId he info) (\<lambda>(found, newSelfId, _).
        if \<not> found then Inr (a, [])
        else bindR (setClusterInfo (rq_version q) newSelfId info a) (\<lambda>a.
          Inr (a, [ReconfigureSignal (rq_version q) newSelfId info, ForwardReconfigureSignal info]))))"

section \<open>What an accepted change of members keeps\<close>

lemma node_address_of_member [simp]: "node_address (node_of_member m) = member_address m"
  by (simp add: node_address_def member_address_def node_of_member_def)

lemma fold_addresses_None:
  "map_of (fold (\<lambda>(i, n). om_upd (node_address n) i) ns m) x = None \<longleftrightarrow>
     map_of m x = None \<and> (\<forall>(i, n) \<in> set ns. node_address n \<noteq> x)"
  by (induction ns arbitrary: m) (auto split: if_splits)

lemma fold_addresses_Some:
  "map_of (fold (\<lambda>(i, n). om_upd (node_address n) i) ns m) x = Some j \<Longrightarrow>
     map_of m x = Some j \<or> (\<exists>n. (j, n) \<in> set ns \<and> node_address n = x)"
  by (induction ns arbitrary: m) (fastforce split: if_splits)+

lemma addresses_of_None: "map_of (addresses_of c) x = None \<longleftrightarrow> (\<forall>(i, n) \<in> set (ci_mNodes c). node_address n \<noteq> x)"
  by (simp add: addresses_of_def fold_addresses_None)

lemma addresses_of_Some: "map_of (addresses_of c) x = Some j \<Longrightarrow> \<exists>n. (j, n) \<in> set (ci_mNodes c) \<and> node_address n = x"
  using fold_addresses_Some[of "ci_mNodes c" "[]" x j] by (simp add: addresses_of_def)

lemma find_None_all: "List.find P xs = None \<longleftrightarrow> (\<forall>x \<in> set xs. \<not> P x)"
  by (auto simp: find_None_iff)

lemma reconfigure_process_finds:
  assumes "reconfigure_process a s q = (h, evs)" "ph_mCode h = 200"
  defines "latest \<equiv> latestConfiguration a s" and "ms \<equiv> cc_members (rq_configuration q)"
  shows "evs = [q] \<and> rq_version q = max (cs_mClusterVersion s) (ai_mClusterVersion a) + 1 \<and>
    List.find (\<lambda>m. map_of (addresses_of latest) (member_address m) = None \<and> mp_role m = IR_Voter) ms = None \<and>
    List.find (\<lambda>(i, n). node_address n \<notin> set (map member_address ms) \<and>
      (map_of (getAllInitialRoles latest) i = None \<or> map_of (getAllInitialRoles latest) i = Some IR_Voter))
      (ci_mNodes latest) = None \<and>
    List.find (\<lambda>m. map_of (addresses_of latest) (member_address m) \<noteq> None \<and>
      map_of (addresses_of latest) (member_address m) \<noteq> Some (mp_id m)) ms = None \<and>
    List.find (\<lambda>i. i \<notin> set (map mp_id (filter (\<lambda>m. mp_role m = IR_Learner) ms)))
      (cc_inSyncLearners (rq_configuration q)) = None"
  using assms(1,2) unfolding reconfigure_process_def Let_def bad_request_def latest_def[symmetric] ms_def[symmetric]
  by (clarsimp split: if_splits option.splits prod.splits)

lemma reconfigure_process_ok:
  assumes "reconfigure_process a s q = (h, evs)" "ph_mCode h = 200"
  defines "latest \<equiv> latestConfiguration a s" and "ms \<equiv> cc_members (rq_configuration q)"
  shows "\<And>m. m \<in> set ms \<Longrightarrow> map_of (addresses_of latest) (member_address m) \<noteq> None \<Longrightarrow>
        map_of (addresses_of latest) (member_address m) = Some (mp_id m)"
    "\<And>m. m \<in> set ms \<Longrightarrow> mp_role m = IR_Voter \<Longrightarrow> map_of (addresses_of latest) (member_address m) = Some (mp_id m)"
    "\<And>i n. (i, n) \<in> set (ci_mNodes latest) \<Longrightarrow> map_of (getAllInitialRoles latest) i = Some IR_Voter \<Longrightarrow>
        \<exists>m \<in> set ms. node_address n = member_address m"
    "\<And>i. i \<in> set (cc_inSyncLearners (rq_configuration q)) \<Longrightarrow> \<exists>m \<in> set ms. mp_role m = IR_Learner \<and> mp_id m = i"
proof -
  note f = reconfigure_process_finds[OF assms(1,2), folded latest_def ms_def, unfolded find_None_all]
  show 1: "map_of (addresses_of latest) (member_address m) = Some (mp_id m)"
    if "m \<in> set ms" "map_of (addresses_of latest) (member_address m) \<noteq> None" for m
    using f that by blast
  show "map_of (addresses_of latest) (member_address m) = Some (mp_id m)"
    if "m \<in> set ms" "mp_role m = IR_Voter" for m
    using f that 1 by blast
  show "\<exists>m \<in> set ms. node_address n = member_address m"
    if "(i, n) \<in> set (ci_mNodes latest)" "map_of (getAllInitialRoles latest) i = Some IR_Voter" for i n
  proof -
    have "node_address n \<in> set (map member_address ms)" using f that by fastforce
    then show ?thesis by auto
  qed
  show "\<exists>m \<in> set ms. mp_role m = IR_Learner \<and> mp_id m = i"
    if "i \<in> set (cc_inSyncLearners (rq_configuration q))" for i
  proof -
    have "i \<in> set (map mp_id (filter (\<lambda>m. mp_role m = IR_Learner) ms))" using f that by blast
    then show ?thesis by auto
  qed
qed

text \<open>The nodes of the configuration a message with distinct ids describes.\<close>

lemma syncFromProto_nodes:
  "map_of (ci_mNodes (syncFromProto p)) =
     map_of (rev (map (\<lambda>m. (mp_id m, node_of_member m)) (cc_members p)))"
proof -
  have "map_of (fold (\<lambda>(k, v). om_upd k v) xs m) = map_of m ++ map_of (rev xs)"
    for xs m :: "(nat \<times> cluster_node) list"
    by (induction xs arbitrary: m) (auto simp: map_add_def fun_eq_iff split: option.splits)
  then show ?thesis by (simp add: syncFromProto_def sync_folds)
qed

lemma syncFromProto_member:
  assumes "distinct (map mp_id (cc_members p))" "m \<in> set (cc_members p)"
  shows "map_of (ci_mNodes (syncFromProto p)) (mp_id m) = Some (node_of_member m)"
  unfolding syncFromProto_nodes using assms
  by (intro map_of_is_SomeI) (auto simp: rev_map[symmetric] comp_def)

lemma syncFromProto_node:
  "map_of (ci_mNodes (syncFromProto p)) i = Some n \<Longrightarrow> \<exists>m \<in> set (cc_members p). mp_id m = i \<and> n = node_of_member m"
  unfolding syncFromProto_nodes by (auto dest!: map_of_SomeD)


definition sample_app :: app_info where
  "sample_app = \<lparr>ai_initialized = True, ai_mSubsystemId = 1, ai_mGroupVersion = 0, ai_mStressTestEnabled = False,
     ai_mAppVersion = ''v2'', ai_mAllClusterInfo = sample_clusters, ai_mClusterVersion = 0, ai_mMyClusterId = 0,
     ai_mMyNodeId = 1\<rparr>"

definition sample_member :: "nat \<Rightarrow> string \<Rightarrow> initial_raft_role \<Rightarrow> member_proto" where
  "sample_member i h r = \<lparr>mp_id = i, mp_address = h, mp_port = 0, mp_role = r\<rparr>"

definition sample_change :: "member_proto list \<Rightarrow> reconfigure_request" where
  "sample_change ms = \<lparr>rq_version = 1, rq_configuration = \<lparr>cc_clusterId = 0, cc_members = ms,
     cc_oldMemberIds = [], cc_newMemberIds = [], cc_inSyncLearners = []\<rparr>\<rparr>"



section \<open>The control state through a snapshot\<close>

lemma strict_insort_insert [simp]: "sorted_wrt (<) xs \<Longrightarrow> sorted_wrt (<) (insort_insert (x::nat) xs)"
  by (simp add: strict_sorted_iff sorted_insort_insert distinct_insort_insert)

lemma strict_fold_insort_insert [simp]: "sorted_wrt (<) xs \<Longrightarrow> sorted_wrt (<) (fold insort_insert ys (xs :: nat list))"
  by (induction ys arbitrary: xs) auto

lemma fold_insort_insert_Nil [simp]: "fold insort_insert ys [] = [] \<longleftrightarrow> (ys :: nat list) = []"
proof -
  have "set (fold insort_insert ys xs) = set ys \<union> set xs" for xs :: "nat list"
    by (induction ys arbitrary: xs) (auto simp: set_insort_insert)
  from this[of "[]"] show ?thesis by (metis set_empty sup_bot_right)
qed

definition route_ok :: "nat \<times> route \<Rightarrow> bool" where
  "route_ok p \<longleftrightarrow> r_mType (snd p) = fst p \<and> sorted_wrt (<) (r_mGroups (snd p))"

lemma Route_round_trip: "sorted_wrt (<) (r_mGroups r) \<Longrightarrow> Route_of (Route_buildProto r) = r"
  using fold_insort_insert[of "[]" "r_mGroups r"] by (simp add: Route_of_def Route_buildProto_def)

lemma routes_round_trip:
  assumes "om_ok m" "list_all route_ok m"
  shows "rm_parseFromProto (rm_buildProto m) [] = m"
proof -
  have "fold (\<lambda>p. om_upd (rt_type p) (Route_of p)) (map (Route_buildProto \<circ> snd) xs) b = fold (\<lambda>(k, v). om_upd k v) xs b"
    if "list_all route_ok xs" for xs b
    using that
    by (induction xs arbitrary: b) (auto simp: route_ok_def Route_round_trip, simp add: Route_buildProto_def)
  then show ?thesis
    using assms fold_om_upd[of "[]" m] by (simp add: rm_parseFromProto_def rm_buildProto_def)
qed

lemma route_ok_Route_of [simp]: "route_ok (rt_type p, Route_of p)"
  by (simp add: route_ok_def Route_of_def)

lemma list_all_om_upd: "P (k, v) \<Longrightarrow> list_all P m \<Longrightarrow> list_all P (om_upd k v m)"
  by (induction m) auto

lemma om_ok_fold_upd: "om_ok m \<Longrightarrow> om_ok (fold (\<lambda>(k, v). om_upd k v) xs m)"
  by (induction xs arbitrary: m) auto

lemma syncFromProto_sets [simp]:
  "ci_mOldJointMembers (syncFromProto p) = fold insort_insert (cc_oldMemberIds p) []"
  "ci_mNewJointMembers (syncFromProto p) = fold insort_insert (cc_newMemberIds p) []"
  "ci_mInsyncLearners (syncFromProto p) = fold insort_insert (cc_inSyncLearners p) []"
  "ci_mClusterId (syncFromProto p) = cc_clusterId p mod 2 ^ 32"
  "om_ok (ci_mNodes (syncFromProto p))"
  by (simp_all add: syncFromProto_def sync_folds om_ok_fold_upd)

lemma syncFromProto_fixed:
  assumes "cc_oldMemberIds p = [] \<longleftrightarrow> cc_newMemberIds p = []"
  shows "syncFromProto (syncToProto (syncFromProto p)) = syncFromProto p"
proof -
  let ?c = "syncFromProto p"
  have node: "\<exists>m. i = mp_id m \<and> n = node_of_member m" if "(i, n) \<in> set (ci_mNodes ?c)" for i n
  proof -
    have "map_of (ci_mNodes ?c) i = Some n"
      using that om_ok_distinct[OF syncFromProto_sets(5)] by simp
    then show ?thesis using syncFromProto_node by blast
  qed
  have "cluster_info_ok ?c"
    using node by (fastforce simp: cluster_info_ok_def node_of_member_def kDefaultRaftPort_def)
  moreover have "om_map wire_node (ci_mNodes ?c) = ci_mNodes ?c"
    unfolding om_map_def using node by (intro map_idI) (fastforce simp: wire_node_def node_of_member_def default_node_def)
  moreover have "hasJointMembers ?c \<or> ci_mOldJointMembers ?c = [] \<and> ci_mNewJointMembers ?c = []"
    using assms by (auto simp: hasJointMembers_def)
  ultimately show ?thesis
    by (auto simp: syncFromProto_syncToProto_full)
qed

definition ctrl_ok :: "nat \<Rightarrow> ctrl_state \<Rightarrow> bool" where
  "ctrl_ok groupId s \<longleftrightarrow> om_ok (cs_mRouteMap s) \<and> list_all route_ok (cs_mRouteMap s) \<and>
     (cs_mEpoch s > 0 \<longrightarrow> cs_mClusterId s = groupId) \<and>
     syncFromProto (syncToProto (cs_mClusterConfiguration s)) = cs_mClusterConfiguration s"

lemma cs_applyRoute_ok:
  "ctrl_ok g s \<Longrightarrow> om_ok (cs_mRouteMap (cs_applyRoute p s)) \<and> list_all route_ok (cs_mRouteMap (cs_applyRoute p s))"
  by (auto simp: ctrl_ok_def cs_applyRoute_def rm_applyRoute_def list_all_om_upd)
     (auto simp: om_erase_def list_all_iff)

lemma split_impact_ok:
  assumes "split_impact groupId commandId im (s, b) = Inr (t, c)" "ctrl_ok groupId s" "b \<longrightarrow> cs_mClusterId s = groupId"
  shows "ctrl_ok groupId t \<and> (c \<longrightarrow> cs_mClusterId t = groupId)"
  using assms cs_applyRoute_ok[OF assms(2), of "im_route im"] unfolding split_impact_def
  by (auto simp: ctrl_ok_def cs_applyRoute_def Let_def split: if_splits)

lemma split_apply_ok:
  assumes "split_apply groupId commandId q s = Inr t" "ctrl_ok groupId s"
  shows "ctrl_ok groupId t"
proof -
  obtain u b where f: "foldR (split_impact groupId commandId) (sq_impacts q) (s\<lparr>cs_mRouteMap := []\<rparr>, False) = Inr (u, b)"
    and t: "t = (if b then u\<lparr>cs_mEpoch := sq_epoch q, cs_mPlanId := sq_planId q\<rparr> else u)"
    using assms(1) unfolding split_apply_def by (elim resE) auto
  have "ctrl_ok groupId (fst (u, b)) \<and> (snd (u, b) \<longrightarrow> cs_mClusterId (fst (u, b)) = groupId)"
    by (rule foldR_invariant[OF f, where P = "\<lambda>(v, c). ctrl_ok groupId v \<and> (c \<longrightarrow> cs_mClusterId v = groupId)",
          unfolded case_prod_beta])
       (use assms(2) split_impact_ok in \<open>auto simp: ctrl_ok_def\<close>)
  with t show ?thesis by (auto simp: ctrl_ok_def)
qed

lemma verified_joint:
  assumes "reconfigure_verifyCommand g q = kVerifiedSuccess"
  shows "cc_oldMemberIds (rq_configuration q) = [] \<longleftrightarrow> cc_newMemberIds (rq_configuration q) = []"
  using assms by (auto simp: reconfigure_verifyCommand_def verifyJoint_def kVerifiedSuccess_def Let_def split: if_splits)

text \<open>The control states an application goes through: the events of verified commands.\<close>

inductive ctrl_run :: "nat \<Rightarrow> ctrl_state \<Rightarrow> bool" for groupId where
  ctrl_start: "ctrl_run groupId (new_ctrl_state u v)"
| ctrl_split: "ctrl_run groupId s \<Longrightarrow> split_verifyCommand q = kVerifiedSuccess \<Longrightarrow>
    split_apply groupId commandId q s = Inr t \<Longrightarrow> ctrl_run groupId t"
| ctrl_reconfigure: "ctrl_run groupId s \<Longrightarrow> reconfigure_verifyCommand groupId q = kVerifiedSuccess \<Longrightarrow>
    ctrl_run groupId (reconfigure_apply commandId q s)"

lemma ctrl_run_ok: "ctrl_run groupId s \<Longrightarrow> ctrl_ok groupId s"
proof (induction rule: ctrl_run.induct)
  case (ctrl_start u v)
  show ?case by (simp add: ctrl_ok_def new_ctrl_state_def empty_cluster_info_def) code_simp
next
  case (ctrl_split s q commandId t)
  then show ?case using split_apply_ok by blast
next
  case (ctrl_reconfigure s q commandId)
  then show ?case
    using syncFromProto_fixed[OF verified_joint[OF ctrl_reconfigure.hyps(2)]]
    by (simp add: ctrl_ok_def reconfigure_apply_def setClusterConfiguration_def)
qed

text \<open>
  C34. The control state survives a snapshot: once a cluster was split, encoding the state any
  run of verified control commands leads to, and decoding it into a new state of the same
  cluster, gives back the routes, epoch, plan, start index and configuration. The message's
  serialisation is only assumed to be undone by its parser and not to be empty.
\<close>

theorem control_state_survives_snapshot:
  assumes "ctrl_run groupId s" and "hasSplitState s"
    and "par (ser (cs_buildProto s)) = cs_buildProto s" and "ser (cs_buildProto s) \<noteq> []"
  shows "cs_decodeFromString par groupId (cs_encodeToString ser s) (new_ctrl_state u v) = s"
  using ctrl_run_ok[OF assms(1)] assms(2-)
  by (simp add: ctrl_ok_def hasSplitState_def cs_decodeFromString_def cs_encodeToString_def Let_def
      cs_buildProto_def new_ctrl_state_def routes_round_trip)

definition sample_split :: split_request where
  "sample_split = \<lparr>sq_epoch = 3, sq_planId = ''p'', sq_impacts =
     [\<lparr>im_route = \<lparr>rt_type = 1, rt_groups = [5, 2], rt_groupTotal = 8\<rparr>, im_clusterId = 4, im_newCluster = True\<rparr>,
      \<lparr>im_route = \<lparr>rt_type = 1, rt_groups = [6], rt_groupTotal = 8\<rparr>, im_clusterId = 0, im_newCluster = False\<rparr>]\<rparr>"

definition sample_ctrl :: ctrl_state where
  "sample_ctrl = \<lparr>cs_mRouteMap = [(1, \<lparr>r_mGroups = [2, 5], r_mGroupTotal = 8, r_mType = 1\<rparr>)], cs_mEpoch = 3,
     cs_mPlanId = ''p'', cs_mClusterId = 4, cs_mStartIndex = 11, cs_mClusterVersion = 0,
     cs_mClusterConfiguration = empty_cluster_info, cs_mClusterReconfigureIndex = 0\<rparr>"

lemma sample_ctrl_run: "split_apply 4 10 sample_split (new_ctrl_state 0 0) = Inr sample_ctrl"
  by code_simp

theorem control_state_survives_snapshot_witness:
  "cs_decodeFromString (\<lambda>x. cs_buildProto sample_ctrl) 4 (cs_encodeToString (\<lambda>p. ''x'') sample_ctrl)
     (new_ctrl_state 9 9) = sample_ctrl"
proof -
  have "split_verifyCommand sample_split = kVerifiedSuccess" "hasSplitState sample_ctrl" by code_simp+
  then show ?thesis
    using control_state_survives_snapshot[OF ctrl_split[OF ctrl_start _ sample_ctrl_run],
        of "\<lambda>x. cs_buildProto sample_ctrl" "\<lambda>p. ''x''" 9 9] by simp
qed

text \<open>
  C36. A split that does not concern the cluster is not without effect: no epoch, plan or start
  index changes, the event logs that there is no impact, and yet all routes of the cluster are
  gone, so that a cluster that was split before serves no group any more.
\<close>

theorem foreign_split_clears_routes:
  assumes "\<forall>im \<in> set (sq_impacts q). im_clusterId im \<noteq> groupId"
  shows "\<exists>t. split_apply groupId commandId q s = Inr t \<and> t = s\<lparr>cs_mRouteMap := []\<rparr> \<and>
    (\<forall>type g. \<not> rm_hasGroup type g (cs_mRouteMap t))"
proof -
  have "foldR (split_impact groupId commandId) ims (u, False) = Inr (u, False)"
    if "\<forall>im \<in> set ims. im_clusterId im \<noteq> groupId" for ims u
    using that by (induction ims) (auto simp: split_impact_def)
  with assms show ?thesis
    by (simp add: split_apply_def rm_hasGroup_def)
qed

theorem foreign_split_clears_routes_witness:
  "rm_hasGroup 1 5 (cs_mRouteMap sample_ctrl) \<and>
   (\<exists>t. split_apply 4 12 (sample_split\<lparr>sq_epoch := 9, sq_impacts := tl (sq_impacts sample_split)\<rparr>) sample_ctrl = Inr t \<and>
      \<not> rm_hasGroup 1 5 (cs_mRouteMap t))"
proof -
  have "rm_hasGroup 1 5 (cs_mRouteMap sample_ctrl)" by code_simp
  then show ?thesis
    using foreign_split_clears_routes[of "sample_split\<lparr>sq_epoch := 9, sq_impacts := tl (sq_impacts sample_split)\<rparr>" 4 12 sample_ctrl]
    by (auto simp: sample_split_def)
qed

end
