(* ===== verification/Command_Event.thy ===== *)
theory Command_Event
  imports Control Crypto
begin

text \<open>
  Commands and events (\<^verbatim>\<open>infra/es\<close>): their metadata, the entries of the log that carry them, the
  encoders and decoders, for the commands of the demo application (\<^verbatim>\<open>app_demo\<close>) and the control
  commands (\<^verbatim>\<open>app_util/control\<close>).
\<close>

section \<open>Metadata\<close>

text \<open>\<^verbatim>\<open>Type\<close> is a signed 8-bit integer, the fields of the messages are unsigned 64-bit ones.\<close>

definition u64_of_type :: "int \<Rightarrow> nat" where
  "u64_of_type t = to_uint64 t"

definition type_of_u64 :: "nat \<Rightarrow> int" where
  "type_of_u64 n = (int n + 128) mod 256 - 128"

lemma type_round_trip: "-128 \<le> t \<Longrightarrow> t < 128 \<Longrightarrow> type_of_u64 (u64_of_type t) = t"
proof -
  assume t: "-128 \<le> t" "t < 128"
  have "int (u64_of_type t) = t mod 2 ^ 64" by (simp add: u64_of_type_def to_uint64_def)
  then have "(int (u64_of_type t) + 128) mod 256 = (t mod 2 ^ 64 + 128) mod 256" by simp
  also have "\<dots> = (t mod 2 ^ 64 mod 256 + 128) mod 256" by (simp add: mod_add_left_eq)
  also have "t mod 2 ^ 64 mod 256 = t mod 256" by (simp add: mod_mod_cancel)
  also have "(t mod 256 + 128) mod 256 = t + 128" using t by (simp add: mod_add_left_eq)
  finally show ?thesis by (simp add: type_of_u64_def)
qed

record meta_data =
  md_mId :: nat
  md_mType :: int
  md_mCreatedTimeInNanos :: nat
  md_mProcessTimeInNanos :: nat
  md_mLeaderReadyTimeInNanos :: nat
  md_mFinishTimeInNanos :: nat
  md_mCreatorId :: nat
  md_mGroupId :: nat
  md_mGroupVersion :: nat
  md_mTrackingContext :: string

record command_meta_data = meta_data +
  cm_mRequestHandle :: "nat option"

record event_meta_data = meta_data +
  em_mCommandId :: nat

record command_entry =
  ce_type :: nat
  ce_id :: nat
  ce_createdTimeInNanos :: nat
  ce_entry :: string
  ce_creatorId :: nat
  ce_groupId :: nat
  ce_groupVersion :: nat
  ce_trackingContext :: string

record event_entry =
  ee_type :: nat
  ee_id :: nat
  ee_commandId :: nat
  ee_createdTimeInNanos :: nat
  ee_entry :: string
  ee_creatorId :: nat
  ee_groupId :: nat
  ee_groupVersion :: nat
  ee_trackingContext :: string

record raft_payload =
  rp_command :: command_entry
  rp_events :: "event_entry list"

definition CommandMetaData_of :: "command_entry \<Rightarrow> command_meta_data" where
  "CommandMetaData_of e = \<lparr>md_mId = ce_id e, md_mType = type_of_u64 (ce_type e),
     md_mCreatedTimeInNanos = ce_createdTimeInNanos e, md_mProcessTimeInNanos = 0,
     md_mLeaderReadyTimeInNanos = 0, md_mFinishTimeInNanos = 0, md_mCreatorId = ce_creatorId e,
     md_mGroupId = ce_groupId e, md_mGroupVersion = ce_groupVersion e,
     md_mTrackingContext = ce_trackingContext e, cm_mRequestHandle = None\<rparr>"

definition EventMetaData_of :: "event_entry \<Rightarrow> event_meta_data" where
  "EventMetaData_of e = \<lparr>md_mId = ee_id e, md_mType = type_of_u64 (ee_type e),
     md_mCreatedTimeInNanos = ee_createdTimeInNanos e, md_mProcessTimeInNanos = 0,
     md_mLeaderReadyTimeInNanos = 0, md_mFinishTimeInNanos = 0, md_mCreatorId = ee_creatorId e,
     md_mGroupId = ee_groupId e, md_mGroupVersion = ee_groupVersion e,
     md_mTrackingContext = ee_trackingContext e, em_mCommandId = ee_commandId e\<rparr>"

definition populateCommandEntry :: "command_meta_data \<Rightarrow> command_entry \<Rightarrow> command_entry" where
  "populateCommandEntry m e = e\<lparr>ce_type := u64_of_type (md_mType m), ce_id := md_mId m,
     ce_createdTimeInNanos := md_mCreatedTimeInNanos m, ce_creatorId := md_mCreatorId m,
     ce_groupId := md_mGroupId m, ce_groupVersion := md_mGroupVersion m,
     ce_trackingContext := md_mTrackingContext m\<rparr>"

definition populateEventEntry :: "event_meta_data \<Rightarrow> event_entry \<Rightarrow> event_entry" where
  "populateEventEntry m e = e\<lparr>ee_type := u64_of_type (md_mType m), ee_id := md_mId m,
     ee_commandId := em_mCommandId m, ee_createdTimeInNanos := md_mCreatedTimeInNanos m,
     ee_creatorId := md_mCreatorId m, ee_groupId := md_mGroupId m,
     ee_groupVersion := md_mGroupVersion m, ee_trackingContext := md_mTrackingContext m\<rparr>"

section \<open>Commands and events\<close>

datatype command_body =
    IncreaseCommand nat
  | SplitCommand split_request
  | ReconfigureCommand reconfigure_request

datatype event_body =
    ProcessedEvent nat
  | SplitEvent split_request
  | ReconfigureEvent reconfigure_request

record command =
  c_mMetaData :: command_meta_data
  c_body :: command_body

record event =
  e_mMetaData :: event_meta_data
  e_body :: event_body

definition INCREASE_COMMAND :: int where "INCREASE_COMMAND = 0"
definition SPILT_COMMAND :: int where "SPILT_COMMAND = 101"
definition RECONFIGURE_COMMAND :: int where "RECONFIGURE_COMMAND = 103"
definition PROCESSED_EVENT :: int where "PROCESSED_EVENT = 6"
definition SPILT_EVENT :: int where "SPILT_EVENT = 101"
definition RECONFIGURE_EVENT :: int where "RECONFIGURE_EVENT = 103"
definition CTRL_TYPES :: int where "CTRL_TYPES = 100"

definition isCtrlCommand :: "int \<Rightarrow> bool" where "isCtrlCommand t \<longleftrightarrow> t > CTRL_TYPES"
definition isCtrlEvent :: "int \<Rightarrow> bool" where "isCtrlEvent t \<longleftrightarrow> t > CTRL_TYPES"

fun command_type :: "command_body \<Rightarrow> int" where
  "command_type (IncreaseCommand _) = INCREASE_COMMAND"
| "command_type (SplitCommand _) = SPILT_COMMAND"
| "command_type (ReconfigureCommand _) = RECONFIGURE_COMMAND"

fun event_type :: "event_body \<Rightarrow> int" where
  "event_type (ProcessedEvent _) = PROCESSED_EVENT"
| "event_type (SplitEvent _) = SPILT_EVENT"
| "event_type (ReconfigureEvent _) = RECONFIGURE_EVENT"

text \<open>
  The constructors set the type and the creation time; \<open>u\<close> stands for what the memory held in the
  fields without an initialiser.
\<close>

definition Command :: "nat \<Rightarrow> command_body \<Rightarrow> nat \<Rightarrow> command" where
  "Command u b created = \<lparr>c_mMetaData = \<lparr>md_mId = u, md_mType = command_type b, md_mCreatedTimeInNanos = created,
     md_mProcessTimeInNanos = 0, md_mLeaderReadyTimeInNanos = 0, md_mFinishTimeInNanos = 0, md_mCreatorId = u,
     md_mGroupId = u, md_mGroupVersion = u, md_mTrackingContext = [], cm_mRequestHandle = None\<rparr>, c_body = b\<rparr>"

definition Event :: "nat \<Rightarrow> event_body \<Rightarrow> nat \<Rightarrow> event" where
  "Event u b created = \<lparr>e_mMetaData = \<lparr>md_mId = u, md_mType = event_type b, md_mCreatedTimeInNanos = created,
     md_mProcessTimeInNanos = 0, md_mLeaderReadyTimeInNanos = 0, md_mFinishTimeInNanos = 0, md_mCreatorId = u,
     md_mGroupId = u, md_mGroupVersion = u, md_mTrackingContext = [], em_mCommandId = u\<rparr>, e_body = b\<rparr>"

definition Command_setPartialMetaData :: "command_meta_data \<Rightarrow> command \<Rightarrow> command" where
  "Command_setPartialMetaData m c = c\<lparr>c_mMetaData := (c_mMetaData c)\<lparr>md_mId := md_mId m, md_mCreatorId := md_mCreatorId m,
     md_mGroupId := md_mGroupId m, md_mGroupVersion := md_mGroupVersion m, md_mTrackingContext := md_mTrackingContext m\<rparr>\<rparr>"

definition Event_setPartialMetaData :: "event_meta_data \<Rightarrow> event \<Rightarrow> event" where
  "Event_setPartialMetaData m e = e\<lparr>e_mMetaData := (e_mMetaData e)\<lparr>md_mId := md_mId m, em_mCommandId := em_mCommandId m,
     md_mCreatorId := md_mCreatorId m, md_mGroupId := md_mGroupId m, md_mGroupVersion := md_mGroupVersion m,
     md_mTrackingContext := md_mTrackingContext m\<rparr>\<rparr>"

definition getId :: "command \<Rightarrow> nat" where "getId c = md_mId (c_mMetaData c)"
definition setId :: "nat \<Rightarrow> command \<Rightarrow> command" where
  "setId i c = c\<lparr>c_mMetaData := (c_mMetaData c)\<lparr>md_mId := i\<rparr>\<rparr>"

text \<open>The tag of the log entry and the verification of a command, by the class of the command.\<close>

fun specialTag :: "command_body \<Rightarrow> string option" where
  "specialTag (IncreaseCommand _) = None"
| "specialTag (SplitCommand q) = Some (sq_planId q)"
| "specialTag (ReconfigureCommand q) = Some (to_string (rq_version q))"

definition verifyCommand :: "command \<Rightarrow> string" where
  "verifyCommand c = (case c_body c of
      IncreaseCommand _ \<Rightarrow> kVerifiedSuccess
    | SplitCommand q \<Rightarrow> split_verifyCommand q
    | ReconfigureCommand q \<Rightarrow> reconfigure_verifyCommand (md_mGroupId (c_mMetaData c)) q)"

section \<open>Encoding and decoding\<close>

text \<open>
  The serialisation of the messages is generated code: a value of \<open>proto\<close> gives, for each message,
  its text and what the parser reads from a text. The parser of the payload reports failure, the
  others leave the message as it is when they fail, which the code ignores.
\<close>

record proto =
  pb_increase :: "nat \<Rightarrow> string"
  pb_parseIncrease :: "string \<Rightarrow> nat"
  pb_split :: "split_request \<Rightarrow> string"
  pb_parseSplit :: "string \<Rightarrow> split_request"
  pb_reconfigure :: "reconfigure_request \<Rightarrow> string"
  pb_parseReconfigure :: "string \<Rightarrow> reconfigure_request"
  pb_payload :: "raft_payload \<Rightarrow> string"
  pb_parsePayload :: "string \<Rightarrow> raft_payload option"

definition command_encodeToString :: "proto \<Rightarrow> command_body \<Rightarrow> string" where
  "command_encodeToString pb b = (case b of IncreaseCommand v \<Rightarrow> pb_increase pb v
     | SplitCommand q \<Rightarrow> pb_split pb q | ReconfigureCommand q \<Rightarrow> pb_reconfigure pb q)"

definition event_encodeToString :: "proto \<Rightarrow> event_body \<Rightarrow> string" where
  "event_encodeToString pb b = (case b of ProcessedEvent v \<Rightarrow> pb_increase pb v
     | SplitEvent q \<Rightarrow> pb_split pb q | ReconfigureEvent q \<Rightarrow> pb_reconfigure pb q)"

definition encodeCommand :: "proto \<Rightarrow> command \<Rightarrow> command_entry \<Rightarrow> command_entry" where
  "encodeCommand pb c e = (populateCommandEntry (c_mMetaData c) e)\<lparr>ce_entry := command_encodeToString pb (c_body c)\<rparr>"

definition encodeEvent :: "proto \<Rightarrow> event \<Rightarrow> event_entry \<Rightarrow> event_entry" where
  "encodeEvent pb v e = (populateEventEntry (e_mMetaData v) e)\<lparr>ee_entry := event_encodeToString pb (e_body v)\<rparr>"

text \<open>The decoders of the demo application and of the control commands; \<^const>\<open>None\<close> is a null pointer.\<close>

definition CommandDecoderImpl :: "proto \<Rightarrow> nat \<Rightarrow> command_meta_data \<Rightarrow> string \<Rightarrow> command option" where
  "CommandDecoderImpl pb u m s =
     (if md_mType m = INCREASE_COMMAND
      then Some (Command_setPartialMetaData m
             (Command u (IncreaseCommand (pb_parseIncrease pb s)) (md_mCreatedTimeInNanos m)))
      else None)"

definition EventDecoderImpl :: "proto \<Rightarrow> nat \<Rightarrow> event_meta_data \<Rightarrow> string \<Rightarrow> event option" where
  "EventDecoderImpl pb u m s =
     (if md_mType m = PROCESSED_EVENT
      then Some (Event_setPartialMetaData m
             (Event u (ProcessedEvent (pb_parseIncrease pb s)) (md_mCreatedTimeInNanos m)))
      else None)"

definition CtrlDecoder_decodeCommand :: "proto \<Rightarrow> nat \<Rightarrow> command_meta_data \<Rightarrow> string \<Rightarrow> command option" where
  "CtrlDecoder_decodeCommand pb u m s =
     (if md_mType m = SPILT_COMMAND
      then Some (Command_setPartialMetaData m
             (Command u (SplitCommand (pb_parseSplit pb s)) (md_mCreatedTimeInNanos m)))
      else if md_mType m = RECONFIGURE_COMMAND
      then Some (Command_setPartialMetaData m
             (Command u (ReconfigureCommand (pb_parseReconfigure pb s)) (md_mCreatedTimeInNanos m)))
      else None)"

definition CtrlDecoder_decodeEvent :: "proto \<Rightarrow> nat \<Rightarrow> event_meta_data \<Rightarrow> string \<Rightarrow> event option" where
  "CtrlDecoder_decodeEvent pb u m s =
     (if md_mType m = SPILT_EVENT
      then Some (Event_setPartialMetaData m
             (Event u (SplitEvent (pb_parseSplit pb s)) (md_mCreatedTimeInNanos m)))
      else if md_mType m = RECONFIGURE_EVENT
      then Some (Event_setPartialMetaData m
             (Event u (ReconfigureEvent (pb_parseReconfigure pb s)) (md_mCreatedTimeInNanos m)))
      else None)"

definition decodeCommandFromString :: "proto \<Rightarrow> nat \<Rightarrow> command_meta_data \<Rightarrow> string \<Rightarrow> command option" where
  "decodeCommandFromString pb u m s =
     (if isCtrlCommand (md_mType m) then CtrlDecoder_decodeCommand pb u m s else CommandDecoderImpl pb u m s)"

definition decodeEventFromString :: "proto \<Rightarrow> nat \<Rightarrow> event_meta_data \<Rightarrow> string \<Rightarrow> event option" where
  "decodeEventFromString pb u m s =
     (if isCtrlEvent (md_mType m) then CtrlDecoder_decodeEvent pb u m s else EventDecoderImpl pb u m s)"

definition decodeCommand :: "proto \<Rightarrow> nat \<Rightarrow> command_entry \<Rightarrow> command option" where
  "decodeCommand pb u e = decodeCommandFromString pb u (CommandMetaData_of e) (ce_entry e)"

definition decodeEvent :: "proto \<Rightarrow> nat \<Rightarrow> event_entry \<Rightarrow> event option" where
  "decodeEvent pb u e = decodeEventFromString pb u (EventMetaData_of e) (ee_entry e)"

section \<open>Round trip\<close>

text \<open>What the runtime documents: parsing a serialised message gives the message.\<close>

definition proto_ok :: "proto \<Rightarrow> bool" where
  "proto_ok pb \<longleftrightarrow> (\<forall>v. pb_parseIncrease pb (pb_increase pb v) = v) \<and>
     (\<forall>q. pb_parseSplit pb (pb_split pb q) = q) \<and>
     (\<forall>q. pb_parseReconfigure pb (pb_reconfigure pb q) = q) \<and>
     (\<forall>p. pb_parsePayload pb (pb_payload pb p) = Some p)"

text \<open>The type in the metadata is the one of the class, as the constructors set it.\<close>

definition command_ok :: "command \<Rightarrow> bool" where
  "command_ok c \<longleftrightarrow> md_mType (c_mMetaData c) = command_type (c_body c)"

definition event_ok :: "event \<Rightarrow> bool" where
  "event_ok e \<longleftrightarrow> md_mType (e_mMetaData e) = event_type (e_body e)"

text \<open>What a log entry does not carry: the times of the local processing and the request handle.\<close>

definition wire_command :: "command \<Rightarrow> command" where
  "wire_command c = c\<lparr>c_mMetaData := (c_mMetaData c)\<lparr>md_mProcessTimeInNanos := 0, md_mLeaderReadyTimeInNanos := 0,
     md_mFinishTimeInNanos := 0, cm_mRequestHandle := None\<rparr>\<rparr>"

definition wire_event :: "event \<Rightarrow> event" where
  "wire_event e = e\<lparr>e_mMetaData := (e_mMetaData e)\<lparr>md_mProcessTimeInNanos := 0, md_mLeaderReadyTimeInNanos := 0,
     md_mFinishTimeInNanos := 0\<rparr>\<rparr>"

lemmas type_defs = INCREASE_COMMAND_def SPILT_COMMAND_def RECONFIGURE_COMMAND_def PROCESSED_EVENT_def
  SPILT_EVENT_def RECONFIGURE_EVENT_def CTRL_TYPES_def isCtrlCommand_def isCtrlEvent_def

lemma command_type_range: "type_of_u64 (u64_of_type (command_type b)) = command_type b"
  by (rule type_round_trip; cases b) (simp_all add: type_defs)

lemma event_type_range: "type_of_u64 (u64_of_type (event_type b)) = event_type b"
  by (rule type_round_trip; cases b) (simp_all add: type_defs)

lemma decode_encode_command:
  assumes "proto_ok pb" "command_ok c"
  shows "decodeCommand pb u (encodeCommand pb c e) = Some (wire_command c)"
proof -
  obtain m b where c: "c = \<lparr>c_mMetaData = m, c_body = b\<rparr>" by (cases c) auto
  have m: "md_mType m = command_type b" using assms(2) by (simp add: c command_ok_def)
  have meta: "CommandMetaData_of (encodeCommand pb c e) = m\<lparr>md_mProcessTimeInNanos := 0,
      md_mLeaderReadyTimeInNanos := 0, md_mFinishTimeInNanos := 0, cm_mRequestHandle := None\<rparr>"
    using m by (cases m) (simp add: c CommandMetaData_of_def encodeCommand_def populateCommandEntry_def command_type_range)
  have body: "ce_entry (encodeCommand pb c e) = command_encodeToString pb b" by (simp add: c encodeCommand_def)
  show ?thesis
    unfolding decodeCommand_def meta body using assms(1) m
    by (cases b; cases m)
       (simp_all add: c decodeCommandFromString_def CtrlDecoder_decodeCommand_def CommandDecoderImpl_def type_defs
         Command_setPartialMetaData_def Command_def wire_command_def command_encodeToString_def proto_ok_def)
qed

lemma decode_encode_event:
  assumes "proto_ok pb" "event_ok v"
  shows "decodeEvent pb u (encodeEvent pb v e) = Some (wire_event v)"
proof -
  obtain m b where v: "v = \<lparr>e_mMetaData = m, e_body = b\<rparr>" by (cases v) auto
  have m: "md_mType m = event_type b" using assms(2) by (simp add: v event_ok_def)
  have meta: "EventMetaData_of (encodeEvent pb v e) = m\<lparr>md_mProcessTimeInNanos := 0,
      md_mLeaderReadyTimeInNanos := 0, md_mFinishTimeInNanos := 0\<rparr>"
    using m by (cases m) (simp add: v EventMetaData_of_def encodeEvent_def populateEventEntry_def event_type_range)
  have body: "ee_entry (encodeEvent pb v e) = event_encodeToString pb b" by (simp add: v encodeEvent_def)
  show ?thesis
    unfolding decodeEvent_def meta body using assms(1) m
    by (cases b; cases m)
       (simp_all add: v decodeEventFromString_def CtrlDecoder_decodeEvent_def EventDecoderImpl_def type_defs
         Event_setPartialMetaData_def Event_def wire_event_def event_encodeToString_def proto_ok_def)
qed

end
