(* ===== verification/Mpsc_Queue.thy ===== *)
theory Mpsc_Queue
  imports Raft_Prelude
begin

text \<open>
  The queue between the threads, \<^verbatim>\<open>infra/mpscqueue/MpscDoubleBufferQueue\<close>: two lists, one the
  producers push to and one the consumer pops from, exchanged when the consumer's is empty.
  The contract its users rely on is the locale \<open>fifo_queue\<close>.
\<close>

section \<open>The double buffer\<close>

record 'a mpsc =
  q_mProducerQueue :: "'a list"
  q_mConsumerQueue :: "'a list"
  q_mQueueSize :: nat
  q_mShouldExit :: bool

definition mq_new :: "'a mpsc" where
  "mq_new = \<lparr>q_mProducerQueue = [], q_mConsumerQueue = [], q_mQueueSize = 0, q_mShouldExit = False\<rparr>"

text \<open>\<^const>\<open>None\<close> is the \<^verbatim>\<open>QueueStoppedException\<close>.\<close>

definition mq_enqueue :: "'a \<Rightarrow> 'a mpsc \<Rightarrow> 'a mpsc option" where
  "mq_enqueue t q =
     (if q_mShouldExit q then None
      else Some (q\<lparr>q_mProducerQueue := q_mProducerQueue q @ [t], q_mQueueSize := q_mQueueSize q + 1\<rparr>))"

text \<open>
  A call that finds both lists empty waits on the condition variable: \<open>Blocked\<close>. It goes on when
  an item or the end of the queue arrives, and then does what a new call would do.
\<close>

datatype 'a dequeued = Item 'a | Blocked | QueueStopped

definition mq_pop :: "'a mpsc \<Rightarrow> 'a dequeued \<times> 'a mpsc" where
  "mq_pop q = (case q_mConsumerQueue q of
      t # ts \<Rightarrow> (Item t, q\<lparr>q_mConsumerQueue := ts, q_mQueueSize := sub64 (q_mQueueSize q) 1\<rparr>)
    | [] \<Rightarrow> (Blocked, q))"

definition mq_dequeue :: "'a mpsc \<Rightarrow> 'a dequeued \<times> 'a mpsc" where
  "mq_dequeue q =
     (if q_mConsumerQueue q = []
      then if q_mProducerQueue q = []
           then (if q_mShouldExit q then (QueueStopped, q) else (Blocked, q))
           else mq_pop (q\<lparr>q_mProducerQueue := q_mConsumerQueue q, q_mConsumerQueue := q_mProducerQueue q\<rparr>)
      else mq_pop q)"

definition mq_size :: "'a mpsc \<Rightarrow> nat" where
  "mq_size q = length (q_mConsumerQueue q)"

definition mq_estimateTotalSize :: "'a mpsc \<Rightarrow> nat" where
  "mq_estimateTotalSize q = length (q_mConsumerQueue q) + length (q_mProducerQueue q)"

definition mq_empty :: "'a mpsc \<Rightarrow> bool" where
  "mq_empty q \<longleftrightarrow> q_mQueueSize q = 0"

definition mq_shutdown :: "'a mpsc \<Rightarrow> 'a mpsc" where
  "mq_shutdown q = q\<lparr>q_mShouldExit := True\<rparr>"

section \<open>The contract\<close>

text \<open>
  What the users see is one list of items and whether the queue was shut down. \<open>sz\<close> counts the
  items that can be taken without waiting for the producers' lock, \<open>emp\<close> is exact.
\<close>

locale fifo_queue =
  fixes enq :: "'a \<Rightarrow> 'q \<Rightarrow> 'q option"
    and deq :: "'q \<Rightarrow> 'a dequeued \<times> 'q"
    and sz :: "'q \<Rightarrow> nat"
    and emp :: "'q \<Rightarrow> bool"
    and stop :: "'q \<Rightarrow> 'q"
    and items :: "'q \<Rightarrow> 'a list"
    and stopped :: "'q \<Rightarrow> bool"
    and ok :: "'q \<Rightarrow> bool"
  assumes enq_law: "ok q \<Longrightarrow> \<not> stopped q \<Longrightarrow>
      \<exists>q'. enq x q = Some q' \<and> ok q' \<and> items q' = items q @ [x] \<and> \<not> stopped q'"
    and enq_stopped: "enq x q = None \<longleftrightarrow> stopped q"
    and deq_item: "ok q \<Longrightarrow> items q = x # xs \<Longrightarrow> \<exists>q'. deq q = (Item x, q') \<and> ok q' \<and> items q' = xs \<and> stopped q' = stopped q"
    and deq_none: "ok q \<Longrightarrow> items q = [] \<Longrightarrow> deq q = (if stopped q then QueueStopped else Blocked, q)"
    and size_law: "ok q \<Longrightarrow> sz q \<le> length (items q)"
    and empty_law: "ok q \<Longrightarrow> emp q \<longleftrightarrow> items q = []"
    and stop_law: "ok q \<Longrightarrow> ok (stop q) \<and> items (stop q) = items q \<and> stopped (stop q)"
begin

lemma enq_Some: "ok q \<Longrightarrow> enq x q = Some q' \<Longrightarrow> ok q' \<and> items q' = items q @ [x] \<and> \<not> stopped q'"
  using enq_law[of q x] enq_stopped[of x q] by fastforce

lemma deq_Item: "ok q \<Longrightarrow> deq q = (Item x, q') \<Longrightarrow> ok q' \<and> items q = x # items q' \<and> stopped q' = stopped q"
proof (cases "items q")
  case Nil
  moreover assume "ok q" "deq q = (Item x, q')"
  ultimately show ?thesis using deq_none[of q] by (auto split: if_splits)
next
  case (Cons y ys)
  moreover assume "ok q" "deq q = (Item x, q')"
  ultimately show ?thesis using deq_item[of q y ys] by auto
qed

text \<open>Taking several items in a row, as the loop that empties the consumer's list does.\<close>

fun drain :: "nat \<Rightarrow> 'q \<Rightarrow> 'a list \<times> 'q" where
  "drain 0 q = ([], q)"
| "drain (Suc n) q = (case deq q of (Item x, q') \<Rightarrow> (case drain n q' of (xs, q'') \<Rightarrow> (x # xs, q'')) | (_, q') \<Rightarrow> ([], q'))"

lemma drain_law:
  assumes "ok q" "n \<le> length (items q)"
  shows "\<exists>q'. drain n q = (take n (items q), q') \<and> ok q' \<and> items q' = drop n (items q) \<and> stopped q' = stopped q"
  using assms
proof (induction n arbitrary: q)
  case (Suc n)
  then obtain x xs where x: "items q = x # xs" by (cases "items q") auto
  from deq_item[OF Suc.prems(1) x] obtain q' where q': "deq q = (Item x, q')" "ok q'" "items q' = xs" "stopped q' = stopped q"
    by blast
  from Suc.IH[OF q'(2)] Suc.prems(2) x q' show ?case by auto
qed simp

end

definition mq_items :: "'a mpsc \<Rightarrow> 'a list" where
  "mq_items q = q_mConsumerQueue q @ q_mProducerQueue q"

definition mq_ok :: "'a mpsc \<Rightarrow> bool" where
  "mq_ok q \<longleftrightarrow> q_mQueueSize q = length (mq_items q)"

lemmas mq_defs = mq_enqueue_def mq_dequeue_def mq_pop_def mq_size_def mq_empty_def mq_shutdown_def mq_items_def mq_ok_def

interpretation mq: fifo_queue mq_enqueue mq_dequeue mq_size mq_empty mq_shutdown mq_items q_mShouldExit mq_ok
  by unfold_locales (auto simp: mq_defs split: list.splits if_splits)

lemma mq_new_ok: "mq_ok mq_new \<and> mq_items mq_new = [] \<and> \<not> q_mShouldExit mq_new"
  by (simp add: mq_new_def mq_ok_def mq_items_def)

section \<open>First in, first out\<close>

text \<open>Any interleaving of producers, consumer and shutdown, with what went in and what came out.\<close>

inductive mq_run :: "'a mpsc \<Rightarrow> 'a list \<Rightarrow> 'a list \<Rightarrow> 'a mpsc \<Rightarrow> bool" where
  mr_start: "mq_run q [] [] q"
| mr_enqueue: "mq_run q xs ys r \<Longrightarrow> mq_enqueue x r = Some r' \<Longrightarrow> mq_run q (xs @ [x]) ys r'"
| mr_dequeue: "mq_run q xs ys r \<Longrightarrow> mq_dequeue r = (Item y, r') \<Longrightarrow> mq_run q xs (ys @ [y]) r'"
| mr_wait: "mq_run q xs ys r \<Longrightarrow> mq_dequeue r = (d, r') \<Longrightarrow> d = Blocked \<or> d = QueueStopped \<Longrightarrow> mq_run q xs ys r'"
| mr_shutdown: "mq_run q xs ys r \<Longrightarrow> mq_run q xs ys (mq_shutdown r)"

lemma mq_wait_same: "mq_ok r \<Longrightarrow> mq_dequeue r = (d, r') \<Longrightarrow> d = Blocked \<or> d = QueueStopped \<Longrightarrow> r' = r \<and> mq_items r = []"
  using mq.deq_item[of r] mq.deq_none[of r] by (cases "mq_items r") fastforce+

lemma mq_run_items:
  assumes "mq_run q xs ys r" "mq_ok q" "mq_items q = []"
  shows "mq_ok r \<and> xs = ys @ mq_items r"
  using assms
proof (induction rule: mq_run.induct)
  case (mr_enqueue q xs ys r x r')
  then show ?case using mq.enq_Some[of r x r'] by simp
next
  case (mr_dequeue q xs ys r y r')
  then show ?case using mq.deq_Item[of r y r'] by simp
next
  case (mr_wait q xs ys r d r')
  then show ?case using mq_wait_same[of r d r'] by simp
next
  case (mr_shutdown q xs ys r)
  then show ?case using mq.stop_law[of r] by simp
qed simp



end
