(* ===== verification/Raft_Log_Store.thy ===== *)
theory Raft_Log_Store
  imports Command_Event Mpsc_Queue "HOL-Library.Monad_Syntax"
begin

text \<open>
  The writing side of the event store: \<^verbatim>\<open>raft/RaftLogStore\<close>, which turns commands and events into
  log entries and hands them to the consensus module in batches, and
  \<^verbatim>\<open>store/RaftCommandEventStore\<close>, which the command loop calls.
\<close>

section \<open>What the threads see of the consensus module\<close>

text \<open>
  The getters of \<^verbatim>\<open>RaftInterface\<close> read single variables that the main loop changes meanwhile. A
  history gives, for every call in order, the values at that moment; \<open>rv_running\<close> is the flag of
  the calling thread's own loop.
\<close>

record raft_view =
  rv_term :: nat
  rv_role :: raft_role
  rv_lastLogIndex :: nat
  rv_commitIndex :: nat
  rv_entry :: "nat \<Rightarrow> log_entry option"
  rv_leaderHint :: "nat option"
  rv_running :: bool

type_synonym history = "nat \<Rightarrow> raft_view"

definition terms_grow :: "history \<Rightarrow> bool" where
  "terms_grow h \<longleftrightarrow> (\<forall>n. rv_term (h n) \<le> rv_term (h (Suc n)))"

lemma terms_grow_le: "terms_grow h \<Longrightarrow> m \<le> n \<Longrightarrow> rv_term (h m) \<le> rv_term (h n)"
  unfolding terms_grow_def by (rule lift_Suc_mono_le[of "\<lambda>n. rv_term (h n)"]) auto

text \<open>
  The loop that reads the term, something else, and the term again until both terms agree. The
  result is the position of the first of the three reads.
\<close>

partial_function (option) stable_term :: "history \<Rightarrow> nat \<Rightarrow> nat option" where
  "stable_term h n = (if rv_term (h n) = rv_term (h (n + 2)) then Some n else stable_term h (n + 3))"

declare stable_term.simps [code]

lemma stable_term_Some:
  "stable_term h n = Some m \<Longrightarrow> n \<le> m \<and> rv_term (h m) = rv_term (h (m + 2))"
proof (induction rule: stable_term.raw_induct[rotated 1, consumes 1])
  case (1 f h n m)
  show ?case
  proof (cases "rv_term (h n) = rv_term (h (n + 2))")
    case True
    then show ?thesis using 1(2) by simp
  next
    case False
    then have "f h (n + 3) = Some m" using 1(2) by simp
    from 1(1)[OF this] show ?thesis by auto
  qed
qed

lemma stable_term_consistent:
  assumes "terms_grow h" "stable_term h n = Some m"
  shows "n \<le> m \<and> rv_term (h (m + 1)) = rv_term (h m)"
  using stable_term_Some[OF assms(2)] terms_grow_le[OF assms(1), of m "m + 1"] terms_grow_le[OF assms(1), of "m + 1" "m + 2"]
  by auto

lemma stable_term_returns:
  assumes "terms_grow h" "\<And>i. rv_term (h i) \<le> B"
  shows "\<exists>m. stable_term h n = Some m"
proof (induction "B - rv_term (h n)" arbitrary: n rule: less_induct)
  case less
  show ?case
  proof (cases "rv_term (h n) = rv_term (h (n + 2))")
    case True
    then show ?thesis by (subst stable_term.simps) simp
  next
    case False
    then have "rv_term (h n) < rv_term (h (n + 2))" using terms_grow_le[OF assms(1), of n "n + 2"] by simp
    moreover have "rv_term (h (n + 2)) \<le> rv_term (h (n + 3))" using terms_grow_le[OF assms(1)] by simp
    ultimately have "B - rv_term (h (n + 3)) < B - rv_term (h n)" using assms(2)[of "n + 3"] by simp
    from less[OF this] show ?thesis using False by (subst stable_term.simps) simp
  qed
qed

section \<open>RaftLogStore\<close>

type_synonym persist_entry = "command \<times> event list \<times> client_request"

text \<open>\<open>ls_sent\<close> collects the calls of \<^verbatim>\<open>enqueueClientRequests\<close>.\<close>

record log_store =
  ls_mLogStoreTerm :: nat
  ls_mLogStoreRole :: raft_role
  ls_mPersistQueue :: "persist_entry mpsc"
  ls_mLastSentTimeInNano :: nat
  ls_mBatch :: "client_request list"
  ls_sent :: "client_request list list"

definition kMaxDelayInMs :: nat where "kMaxDelayInMs = 5"
definition kMaxBatchSize :: nat where "kMaxBatchSize = 100"
definition kMaxPayLoadSizeInBytes :: nat where "kMaxPayLoadSizeInBytes = 5000000"

definition RaftLogStore :: log_store where
  "RaftLogStore = \<lparr>ls_mLogStoreTerm = 0, ls_mLogStoreRole = Follower, ls_mPersistQueue = mq_new,
     ls_mLastSentTimeInNano = 0, ls_mBatch = [], ls_sent = []\<rparr>"

text \<open>Returns the position after the last read; \<^const>\<open>None\<close> is a call that never returns.\<close>

definition refresh :: "history \<Rightarrow> nat \<Rightarrow> log_store \<Rightarrow> (nat \<times> log_store) option" where
  "refresh h n s = Option.bind (stable_term h n) (\<lambda>m.
     Some (m + 3,
       if ls_mLogStoreTerm s = rv_term (h m) \<and> ls_mLogStoreRole s = Leader \<and> rv_role (h (m + 1)) \<noteq> Leader
       then s
       else s\<lparr>ls_mLogStoreTerm := rv_term (h m), ls_mLogStoreRole := rv_role (h (m + 1))\<rparr>))"

text \<open>
  The environment of the writer: the messages, the cipher, the keys and the size of a serialised
  log entry.
\<close>

record writer_env =
  we_proto :: proto
  we_ssl :: openssl
  we_crypto :: crypto_util
  we_byteSize :: "log_entry \<Rightarrow> nat"

definition new_entry :: "writer_env \<Rightarrow> command \<Rightarrow> nat \<Rightarrow> log_store \<Rightarrow> log_entry" where
  "new_entry env command index s = \<lparr>le_term = ls_mLogStoreTerm s, le_index = index, le_noop = False,
     le_checksum = 0, le_payload = [], le_version = getLatestSecKeyVersion (we_crypto env),
     le_specialTag = map_option (\<lambda>t. (u64_of_type (md_mType (c_mMetaData command)), t)) (specialTag (c_body command))\<rparr>"

text \<open>\<^const>\<open>None\<close> is the exception of a queue that was shut down.\<close>

definition ls_persistAsync ::
  "writer_env \<Rightarrow> command \<Rightarrow> event list \<Rightarrow> nat \<Rightarrow> nat option \<Rightarrow> log_store \<Rightarrow> log_store option" where
  "ls_persistAsync env command events index requestHandle s =
     map_option (\<lambda>q. s\<lparr>ls_mPersistQueue := q\<rparr>)
       (mq_enqueue (command, events, \<lparr>cr_mEntry = new_entry env command index s, cr_mRequestHandle = requestHandle\<rparr>)
          (ls_mPersistQueue s))"

definition empty_command_entry :: command_entry where
  "empty_command_entry = \<lparr>ce_type = 0, ce_id = 0, ce_createdTimeInNanos = 0, ce_entry = [], ce_creatorId = 0,
     ce_groupId = 0, ce_groupVersion = 0, ce_trackingContext = []\<rparr>"

definition empty_event_entry :: event_entry where
  "empty_event_entry = \<lparr>ee_type = 0, ee_id = 0, ee_commandId = 0, ee_createdTimeInNanos = 0, ee_entry = [],
     ee_creatorId = 0, ee_groupId = 0, ee_groupVersion = 0, ee_trackingContext = []\<rparr>"

text \<open>The work \<^verbatim>\<open>dequeue\<close> does on an item: payload, encryption in place, size check.\<close>

definition prepare_entry :: "writer_env \<Rightarrow> persist_entry \<Rightarrow> client_request res" where
  "prepare_entry env = (\<lambda>(command, events, clientRequest).
     let pb = we_proto env;
         payload = \<lparr>rp_command = encodeCommand pb command empty_command_entry,
                    rp_events = map (\<lambda>e. encodeEvent pb e empty_event_entry) events\<rparr>;
         entry = (cr_mEntry clientRequest)\<lparr>le_payload := pb_payload pb payload\<rparr> in
     bindR (encrypt (we_ssl env) (le_payload entry) (le_version entry) (we_crypto env)) (\<lambda>(cipher, r).
     ensure (r = 0)
      (let entry = entry\<lparr>le_payload := cipher\<rparr> in
       ensure (we_byteSize env entry \<le> kMaxPayLoadSizeInBytes)
        (Inr (clientRequest\<lparr>cr_mEntry := entry\<rparr>)))))"

text \<open>
  A blocked call takes nothing; a stopped queue ends the thread with an exception.
\<close>

definition ls_dequeue :: "writer_env \<Rightarrow> log_store \<Rightarrow> log_store res" where
  "ls_dequeue env s = (case mq_dequeue (ls_mPersistQueue s) of
      (Item it, q) \<Rightarrow> bindR (prepare_entry env it) (\<lambda>r.
         Inr (s\<lparr>ls_mPersistQueue := q, ls_mBatch := ls_mBatch s @ [r]\<rparr>))
    | (Blocked, q) \<Rightarrow> Inr s
    | (QueueStopped, q) \<Rightarrow> Inl RuntimeError)"

definition maySendBatch :: "nat \<Rightarrow> log_store \<Rightarrow> log_store" where
  "maySendBatch nowInNano s =
     (if ls_mBatch s = [] then s
      else if length (ls_mBatch s) < kMaxBatchSize \<and>
              sub64 nowInNano (ls_mLastSentTimeInNano s) < kMaxDelayInMs * 1000000 then s
      else s\<lparr>ls_sent := ls_sent s @ [ls_mBatch s], ls_mBatch := [], ls_mLastSentTimeInNano := nowInNano\<rparr>)"

fun dequeue_times :: "writer_env \<Rightarrow> nat \<Rightarrow> log_store \<Rightarrow> log_store res" where
  "dequeue_times env 0 s = Inr s"
| "dequeue_times env (Suc leftSize) s = bindR (ls_dequeue env s) (dequeue_times env leftSize)"

definition persistLoop_body :: "writer_env \<Rightarrow> nat \<Rightarrow> log_store \<Rightarrow> log_store res" where
  "persistLoop_body env nowInNano s =
     bindR (if mq_size (ls_mPersistQueue s) \<noteq> 0 then dequeue_times env (mq_size (ls_mPersistQueue s)) s
            else if \<not> mq_empty (ls_mPersistQueue s) then ls_dequeue env s
            else Inr s)
       (\<lambda>s. Inr (maySendBatch nowInNano s))"

subsection \<open>Order\<close>

text \<open>
  One step of the writer: the command thread persists, the batch thread makes one round. The list
  holds everything persisted so far.
\<close>

inductive ls_run :: "writer_env \<Rightarrow> persist_entry list \<Rightarrow> log_store \<Rightarrow> bool" for env where
  ls_start: "ls_run env [] RaftLogStore"
| ls_refresh: "ls_run env ps s \<Longrightarrow> refresh h n s = Some (n', t) \<Longrightarrow> ls_run env ps t"
| ls_persist: "ls_run env ps s \<Longrightarrow> ls_persistAsync env c es index handle s = Some t \<Longrightarrow>
    ls_run env (ps @ [(c, es, \<lparr>cr_mEntry = new_entry env c index s, cr_mRequestHandle = handle\<rparr>)]) t"
| ls_loop: "ls_run env ps s \<Longrightarrow> persistLoop_body env now s = Inr t \<Longrightarrow> ls_run env ps t"
| ls_stop: "ls_run env ps s \<Longrightarrow> ls_run env ps (s\<lparr>ls_mPersistQueue := mq_shutdown (ls_mPersistQueue s)\<rparr>)"

definition ls_order :: "writer_env \<Rightarrow> persist_entry list \<Rightarrow> log_store \<Rightarrow> bool" where
  "ls_order env ps s \<longleftrightarrow> mq_ok (ls_mPersistQueue s) \<and>
     (\<exists>sent. ps = sent @ mq_items (ls_mPersistQueue s) \<and>
        map (prepare_entry env) sent = map Inr (concat (ls_sent s) @ ls_mBatch s))"

lemma ls_dequeue_order:
  assumes "ls_order env ps s" "ls_dequeue env s = Inr t"
  shows "ls_order env ps t"
proof (cases "mq_items (ls_mPersistQueue s)")
  case Nil
  then show ?thesis
    using assms mq.deq_none[of "ls_mPersistQueue s"] unfolding ls_order_def ls_dequeue_def by (auto split: if_splits)
next
  case (Cons it its)
  have ok: "mq_ok (ls_mPersistQueue s)" using assms(1) by (simp add: ls_order_def)
  obtain q where q: "mq_dequeue (ls_mPersistQueue s) = (Item it, q)" "mq_ok q" "mq_items q = its"
    using mq.deq_item[OF ok Cons] by blast
  obtain r where r: "prepare_entry env it = Inr r"
    and t: "t = s\<lparr>ls_mPersistQueue := q, ls_mBatch := ls_mBatch s @ [r]\<rparr>"
    using assms(2) q(1) by (auto simp: ls_dequeue_def)
  obtain sent where "ps = sent @ it # its" "map (prepare_entry env) sent = map Inr (concat (ls_sent s) @ ls_mBatch s)"
    using assms(1) Cons by (auto simp: ls_order_def)
  then have "ps = (sent @ [it]) @ mq_items q"
    "map (prepare_entry env) (sent @ [it]) = map Inr (concat (ls_sent s) @ ls_mBatch s @ [r])"
    using q(3) r by simp_all
  then show ?thesis using q(2) unfolding ls_order_def t by (intro conjI exI[of _ "sent @ [it]"]) simp_all
qed

lemma dequeue_times_order: "ls_order env ps s \<Longrightarrow> dequeue_times env n s = Inr t \<Longrightarrow> ls_order env ps t"
  by (induction n arbitrary: s) (auto intro: ls_dequeue_order)

lemma maySendBatch_order: "ls_order env ps s \<Longrightarrow> ls_order env ps (maySendBatch now s)"
  by (auto simp: ls_order_def maySendBatch_def)

lemma persistLoop_order:
  assumes "ls_order env ps s" "persistLoop_body env now s = Inr t"
  shows "ls_order env ps t"
  using assms unfolding persistLoop_body_def
  by (elim resE) (auto intro: maySendBatch_order dequeue_times_order ls_dequeue_order)

lemma refresh_same:
  "refresh h n s = Some (n', t) \<Longrightarrow> ls_mPersistQueue t = ls_mPersistQueue s \<and> ls_mBatch t = ls_mBatch s \<and> ls_sent t = ls_sent s"
  by (auto simp: refresh_def bind_eq_Some_conv split: if_splits)

lemma ls_run_order: "ls_run env ps s \<Longrightarrow> ls_order env ps s"
proof (induction rule: ls_run.induct)
  case ls_start
  show ?case by (simp add: ls_order_def RaftLogStore_def mq_new_ok)
next
  case (ls_refresh ps s h n n' t)
  then show ?case using refresh_same[OF ls_refresh.hyps(2)] by (simp add: ls_order_def)
next
  case (ls_persist ps s c es index handle t)
  obtain q where q: "mq_enqueue (c, es, \<lparr>cr_mEntry = new_entry env c index s, cr_mRequestHandle = handle\<rparr>) (ls_mPersistQueue s) = Some q"
    "t = s\<lparr>ls_mPersistQueue := q\<rparr>"
    using ls_persist.hyps(2) by (auto simp: ls_persistAsync_def)
  show ?case
    using ls_persist.IH mq.enq_Some[OF _ q(1)] unfolding ls_order_def q(2) by auto
next
  case (ls_loop ps s now t)
  then show ?case using persistLoop_order by blast
next
  case (ls_stop ps s)
  then show ?case using mq.stop_law[of "ls_mPersistQueue s"] by (simp add: ls_order_def)
qed

end
