(* ===== verification/Raft_Event_Store.thy ===== *)
theory Raft_Event_Store
  imports Raft_Log_Store
begin

text \<open>
  Answering the clients (\<^verbatim>\<open>raft/RaftReplyLoop\<close>): a task per command waits until its log entry is
  committed or superseded and then replies through the handle of the request; and the event store
  the command loop sees (\<^verbatim>\<open>store/RaftCommandEventStore\<close>), which feeds both the log and the reply
  loop.
\<close>

section \<open>RaftReplyLoop\<close>

record task =
  tk_index :: nat
  tk_term :: nat
  tk_handle :: "nat option"
  tk_events :: "event list"
  tk_code :: nat
  tk_message :: string
  tk_flag :: nat

record reply =
  rp_handle :: "nat option"
  rp_task :: task
  rp_committed :: bool
  rp_leaderHint :: "nat option"

text \<open>
  The queue holds shared pointers: every task has an id, the number of tasks pushed before it.
  \<open>rl_busy\<close> is the local variable of the pop thread, \<open>rl_held\<close> the task each reply thread is
  working on, \<open>rl_replies\<close> collects the finished tasks with what was sent to the client, if there is
  a handle to send it to.
\<close>

record reply_loop =
  rl_mTaskQueue :: "(nat \<times> task) list"
  rl_mPendingReplyQueueSize :: nat
  rl_pushed :: nat
  rl_busy :: bool
  rl_held :: "nat \<Rightarrow> nat option"
  rl_replies :: "(nat \<times> reply) list"

definition RaftReplyLoop :: reply_loop where
  "RaftReplyLoop = \<lparr>rl_mTaskQueue = [], rl_mPendingReplyQueueSize = 0, rl_pushed = 0, rl_busy = False,
     rl_held = (\<lambda>_. None), rl_replies = []\<rparr>"

definition mConcurrency :: nat where "mConcurrency = 2"

definition pushTask ::
  "nat \<Rightarrow> nat \<Rightarrow> nat option \<Rightarrow> event list \<Rightarrow> nat \<Rightarrow> string \<Rightarrow> reply_loop \<Rightarrow> reply_loop" where
  "pushTask index term handle events code message s =
     s\<lparr>rl_mTaskQueue := rl_mTaskQueue s @ [(rl_pushed s, \<lparr>tk_index = index, tk_term = term, tk_handle = handle,
         tk_events = events, tk_code = code, tk_message = message, tk_flag = 0\<rparr>)],
       rl_mPendingReplyQueueSize := rl_mPendingReplyQueueSize s + 1, rl_pushed := rl_pushed s + 1\<rparr>"

text \<open>The pop thread looks under the read lock and pops under the write lock.\<close>

definition pop_look :: "reply_loop \<Rightarrow> reply_loop" where
  "pop_look s = s\<lparr>rl_busy := (case rl_mTaskQueue s of [] \<Rightarrow> False | (i, t) # _ \<Rightarrow> tk_flag t = 2)\<rparr>"

definition pop_front :: "reply_loop \<Rightarrow> reply_loop" where
  "pop_front s =
     (if rl_busy s then s\<lparr>rl_mTaskQueue := tl (rl_mTaskQueue s),
        rl_mPendingReplyQueueSize := sub64 (rl_mPendingReplyQueueSize s) 1, rl_busy := False\<rparr>
      else s)"

text \<open>A reply thread takes the first task whose flag it can swap from 0 to 1.\<close>

definition set_task :: "nat \<Rightarrow> (task \<Rightarrow> task) \<Rightarrow> (nat \<times> task) list \<Rightarrow> (nat \<times> task) list" where
  "set_task i f ts = map (\<lambda>(j, t). (j, if j = i then f t else t)) ts"

definition claim :: "nat \<Rightarrow> reply_loop \<Rightarrow> reply_loop" where
  "claim thread s = (case List.find (\<lambda>(i, t). tk_flag t = 0) (rl_mTaskQueue s) of
      None \<Rightarrow> s
    | Some (i, t) \<Rightarrow> s\<lparr>rl_mTaskQueue := set_task i (\<lambda>t. t\<lparr>tk_flag := 1\<rparr>) (rl_mTaskQueue s),
        rl_held := (rl_held s)(thread := Some i)\<rparr>)"

text \<open>
  The wait. A result carries the position after the last read; the assertions that the term does
  not fall below the task's and that a committed entry can be read are faults.
\<close>

partial_function (option) waitTillCommittedOrQuit ::
  "history \<Rightarrow> nat \<Rightarrow> nat \<Rightarrow> nat \<Rightarrow> (nat \<times> bool res) option" where
  "waitTillCommittedOrQuit h n index term =
     (if \<not> rv_running (h n) then Some (n + 1, Inr False)
      else Option.bind (stable_term h (n + 1)) (\<lambda>m.
        if rv_term (h m) < term then Some (m + 3, Inl AssertFailed)
        else if rv_lastLogIndex (h (m + 1)) < index \<and> rv_term (h m) > term then Some (m + 3, Inr False)
        else if rv_commitIndex (h (m + 3)) < index then waitTillCommittedOrQuit h (m + 4) index term
        else Some (m + 5, case rv_entry (h (m + 4)) index of None \<Rightarrow> Inl AssertFailed
                          | Some e \<Rightarrow> Inr (le_term e = term))))"

declare waitTillCommittedOrQuit.simps [code]

definition replyTask :: "history \<Rightarrow> nat \<Rightarrow> task \<Rightarrow> (nat \<times> (task \<times> reply) res) option" where
  "replyTask h n t = Option.bind (waitTillCommittedOrQuit h n (tk_index t) (tk_term t)) (\<lambda>(m, r).
     Some (if tk_handle t = None then m else m + 1, bindR r (\<lambda>isCommitted.
       let t = (if isCommitted then t else t\<lparr>tk_code := 301, tk_message := ''NotLeaderAnyMore''\<rparr>) in
       Inr (t\<lparr>tk_flag := 2\<rparr>, \<lparr>rp_handle = tk_handle t, rp_task = t, rp_committed = isCommitted,
              rp_leaderHint = (if tk_handle t = None then None else rv_leaderHint (h m))\<rparr>))))"

text \<open>
  A thread that finished its task stores the task and the reply. Between the claim and this step
  the other threads run.
\<close>

definition finish :: "nat \<Rightarrow> task \<Rightarrow> reply \<Rightarrow> reply_loop \<Rightarrow> reply_loop" where
  "finish thread t r s = (case rl_held s thread of None \<Rightarrow> s
     | Some i \<Rightarrow> s\<lparr>rl_mTaskQueue := set_task i (\<lambda>_. t) (rl_mTaskQueue s),
         rl_held := (rl_held s)(thread := None), rl_replies := rl_replies s @ [(i, r)]\<rparr>)"

inductive rl_step :: "history \<Rightarrow> reply_loop \<Rightarrow> reply_loop \<Rightarrow> bool" for h where
  rl_push: "rl_step h s (pushTask index term handle events code message s)"
| rl_look: "rl_step h s (pop_look s)"
| rl_pop: "rl_step h s (pop_front s)"
| rl_claim: "thread < mConcurrency \<Longrightarrow> rl_held s thread = None \<Longrightarrow> rl_step h s (claim thread s)"
| rl_finish: "thread < mConcurrency \<Longrightarrow> rl_held s thread = Some i \<Longrightarrow> map_of (rl_mTaskQueue s) i = Some t \<Longrightarrow>
    replyTask h n t = Some (m, Inr (t', r)) \<Longrightarrow> rl_step h s (finish thread t' r s)"

subsection \<open>Waiting\<close>

lemma wait_True:
  assumes "waitTillCommittedOrQuit h n index term = Some (m, Inr True)"
  shows "\<exists>k e. n \<le> k \<and> k + 1 < m \<and> index \<le> rv_commitIndex (h k) \<and>
    rv_entry (h (k + 1)) index = Some e \<and> le_term e = term"
proof -
  have "r = Inr True \<longrightarrow> (\<exists>k e. n \<le> k \<and> k + 1 < m \<and> index \<le> rv_commitIndex (h k) \<and>
    rv_entry (h (k + 1)) index = Some e \<and> le_term e = term)"
    if "waitTillCommittedOrQuit h n index term = Some (m, r)" for r
    using that
  proof (induction h n index "term" "(m, r)" rule: waitTillCommittedOrQuit.raw_induct[rotated 1, consumes 1])
    case (1 f h n index "term")
    show ?case
    proof (cases "rv_running (h n)")
      case True
      then obtain k where k: "stable_term h (n + 1) = Some k"
        and b: "(if rv_term (h k) < term then Some (k + 3, Inl AssertFailed)
          else if rv_lastLogIndex (h (k + 1)) < index \<and> rv_term (h k) > term then Some (k + 3, Inr False)
          else if rv_commitIndex (h (k + 3)) < index then f h (k + 4) index term
          else Some (k + 5, case rv_entry (h (k + 4)) index of None \<Rightarrow> Inl AssertFailed
                          | Some e \<Rightarrow> Inr (le_term e = term))) = Some (m, r)"
        using 1(2) by (auto simp: bind_eq_Some_conv)
      have nk: "n + 1 \<le> k" using stable_term_Some[OF k] by simp
      show ?thesis
      proof (cases "\<not> rv_term (h k) < term \<and> \<not> (rv_lastLogIndex (h (k + 1)) < index \<and> rv_term (h k) > term) \<and>
          rv_commitIndex (h (k + 3)) < index")
        case True
        then have "f h (k + 4) index term = Some (m, r)" using b by auto
        from 1(1)[OF this] nk show ?thesis by (metis add_leD1 le_add1 le_trans)
      next
        case False
        show ?thesis
        proof
          assume r: "r = Inr True"
          then have c: "index \<le> rv_commitIndex (h (k + 3))" "m = k + 5"
            "(case rv_entry (h (k + 4)) index of None \<Rightarrow> Inl AssertFailed | Some e \<Rightarrow> Inr (le_term e = term)) = Inr True"
            using b False by (auto split: if_splits)
          then obtain e where e: "rv_entry (h (k + 4)) index = Some e" "le_term e = term"
            by (auto split: option.splits)
          have k4: "k + 3 + 1 = k + 4" by simp
          show "\<exists>k e. n \<le> k \<and> k + 1 < m \<and> index \<le> rv_commitIndex (h k) \<and>
              rv_entry (h (k + 1)) index = Some e \<and> le_term e = term"
            by (rule exI[of _ "k + 3"], rule exI[of _ e], unfold k4) (use c e nk in auto)
        qed
      qed
    qed (use 1(2) in auto)
  qed
  with assms show ?thesis by blast
qed

subsection \<open>Every task is answered once\<close>

lemma set_task_keys [simp]: "map fst (set_task i f q) = map fst q"
  by (auto simp: set_task_def)

lemma set_task_length [simp]: "length (set_task i f q) = length q"
  by (simp add: set_task_def)

lemma map_of_set_task: "map_of (set_task i f q) j = (if j = i then map_option f (map_of q j) else map_of q j)"
  by (induction q) (auto simp: set_task_def)

text \<open>
  The ids in the queue are the last ones pushed. The flag of a task says who owns it: nobody
  yet, exactly one thread, or nobody any more because it is answered.
\<close>

definition rl_ids :: "reply_loop \<Rightarrow> bool" where
  "rl_ids s \<longleftrightarrow> map fst (rl_mTaskQueue s) = [rl_pushed s - length (rl_mTaskQueue s)..<rl_pushed s] \<and>
     length (rl_mTaskQueue s) \<le> rl_pushed s \<and> rl_mPendingReplyQueueSize s = length (rl_mTaskQueue s)"

definition flag_ok :: "nat set \<Rightarrow> nat set \<Rightarrow> nat \<Rightarrow> task \<Rightarrow> bool" where
  "flag_ok answered held i t \<longleftrightarrow>
     tk_flag t = 0 \<and> i \<notin> answered \<and> i \<notin> held \<or> tk_flag t = 1 \<and> i \<notin> answered \<or> tk_flag t = 2 \<and> i \<in> answered \<and> i \<notin> held"

definition rl_owned :: "reply_loop \<Rightarrow> bool" where
  "rl_owned s \<longleftrightarrow>
     (\<forall>i t. map_of (rl_mTaskQueue s) i = Some t \<longrightarrow> flag_ok (fst ` set (rl_replies s)) (ran (rl_held s)) i t) \<and>
     ran (rl_held s) \<subseteq> dom (map_of (rl_mTaskQueue s)) \<and> inj_on (rl_held s) (dom (rl_held s))"

definition rl_done :: "reply_loop \<Rightarrow> bool" where
  "rl_done s \<longleftrightarrow> distinct (map fst (rl_replies s)) \<and> fst ` set (rl_replies s) \<subseteq> {..<rl_pushed s} \<and>
     (\<forall>i < rl_pushed s - length (rl_mTaskQueue s). i \<in> fst ` set (rl_replies s)) \<and>
     (rl_busy s \<longrightarrow> (\<exists>i t ts. rl_mTaskQueue s = (i, t) # ts \<and> tk_flag t = 2))"

definition rl_ok :: "reply_loop \<Rightarrow> bool" where
  "rl_ok s \<longleftrightarrow> rl_ids s \<and> rl_owned s \<and> rl_done s"

lemmas rl_ok_defs = rl_ok_def rl_ids_def rl_owned_def rl_done_def

lemma queue_keys: "rl_ids s \<Longrightarrow> fst ` set (rl_mTaskQueue s) = {rl_pushed s - length (rl_mTaskQueue s)..<rl_pushed s}"
  unfolding rl_ids_def by (metis atLeastLessThan_upt list.set_map)

lemma queue_keys_distinct: "rl_ids s \<Longrightarrow> distinct (map fst (rl_mTaskQueue s))"
  by (simp add: rl_ids_def)

lemma queue_lookup: "rl_ids s \<Longrightarrow> map_of (rl_mTaskQueue s) i = None \<longleftrightarrow> \<not> (rl_pushed s - length (rl_mTaskQueue s) \<le> i \<and> i < rl_pushed s)"
  using queue_keys[of s] by (auto simp: map_of_eq_None_iff)

lemma owned_flag:
  "rl_owned s \<Longrightarrow> map_of (rl_mTaskQueue s) i = Some t \<Longrightarrow> flag_ok (fst ` set (rl_replies s)) (ran (rl_held s)) i t"
  by (simp add: rl_owned_def)

lemma pushTask_ok:
  assumes "rl_ok s"
  shows "rl_ok (pushTask index term handle events code message s)"
proof -
  have ids: "rl_ids s" and own: "rl_owned s" and don: "rl_done s" using assms by (auto simp: rl_ok_def)
  let ?t = "pushTask index term handle events code message s"
  have new: "map_of (rl_mTaskQueue s) (rl_pushed s) = None" using queue_lookup[OF ids] by simp
  have "rl_ids ?t" using ids by (simp add: rl_ids_def pushTask_def Suc_diff_le)
  moreover have "rl_owned ?t"
  proof -
    have look: "map_of (rl_mTaskQueue ?t) i = Some t \<longleftrightarrow> map_of (rl_mTaskQueue s) i = Some t \<or>
        i = rl_pushed s \<and> t = \<lparr>tk_index = index, tk_term = term, tk_handle = handle, tk_events = events,
          tk_code = code, tk_message = message, tk_flag = 0\<rparr>" for i t
      using new by (auto simp: pushTask_def map_add_def split: option.splits)
    have fresh: "rl_pushed s \<notin> fst ` set (rl_replies s)" "rl_pushed s \<notin> ran (rl_held s)"
      using don own new by (auto simp: rl_done_def rl_owned_def)
    have same: "rl_held ?t = rl_held s" "rl_replies ?t = rl_replies s" by (simp_all add: pushTask_def)
    have "dom (map_of (rl_mTaskQueue s)) \<subseteq> dom (map_of (rl_mTaskQueue ?t))" using look by blast
    then have dm: "ran (rl_held s) \<subseteq> dom (map_of (rl_mTaskQueue ?t))" using own unfolding rl_owned_def by blast
    show ?thesis
      unfolding rl_owned_def same look by (intro conjI dm) (use own fresh in \<open>auto simp: rl_owned_def flag_ok_def\<close>)
  qed
  moreover have "rl_done ?t"
    using don ids by (auto simp: rl_done_def rl_ids_def pushTask_def less_Suc_eq)
  ultimately show ?thesis by (simp add: rl_ok_def)
qed

lemma pop_look_ok: "rl_ok s \<Longrightarrow> rl_ok (pop_look s)"
  by (auto simp: rl_ok_defs pop_look_def split: list.splits)

lemma pop_front_ok:
  assumes "rl_ok s"
  shows "rl_ok (pop_front s)"
proof (cases "rl_busy s")
  case True
  have ids: "rl_ids s" and own: "rl_owned s" and don: "rl_done s" using assms by (auto simp: rl_ok_def)
  obtain i t ts where q: "rl_mTaskQueue s = (i, t) # ts" "tk_flag t = 2" using don True by (auto simp: rl_done_def)
  have i: "i = rl_pushed s - Suc (length ts)" "map fst ts = [rl_pushed s - length ts..<rl_pushed s]" "Suc (length ts) \<le> rl_pushed s"
    "rl_mPendingReplyQueueSize s = Suc (length ts)"
    using ids q by (auto simp: rl_ids_def upt_conv_Cons Suc_diff_Suc)
  have "map_of (rl_mTaskQueue s) i = Some t" by (simp add: q)
  then have "flag_ok (fst ` set (rl_replies s)) (ran (rl_held s)) i t" using own by (simp add: rl_owned_def)
  then have replied: "i \<in> fst ` set (rl_replies s)" "i \<notin> ran (rl_held s)" using q(2) by (auto simp: flag_ok_def)
  have ni: "map_of ts i = None" using queue_keys_distinct[OF ids] q(1) by (simp add: map_of_eq_None_iff)
  have t: "rl_mTaskQueue (pop_front s) = ts" "rl_held (pop_front s) = rl_held s" "rl_replies (pop_front s) = rl_replies s"
    "rl_pushed (pop_front s) = rl_pushed s" "\<not> rl_busy (pop_front s)"
    "rl_mPendingReplyQueueSize (pop_front s) = length ts"
    using True q i(4) by (simp_all add: pop_front_def)
  have "rl_ids (pop_front s)" using i by (simp add: rl_ids_def t)
  moreover have "rl_owned (pop_front s)"
  proof -
    have "map_of (rl_mTaskQueue s) j = Some u" if "map_of ts j = Some u" for j u
      using that ni by (auto simp: q(1))
    moreover have "ran (rl_held s) \<subseteq> dom (map_of ts)"
      using own replied(2) by (auto simp: rl_owned_def q(1) split: if_splits)
    ultimately show ?thesis using own unfolding rl_owned_def t by blast
  qed
  moreover have "rl_done (pop_front s)"
  proof -
    have "k \<in> fst ` set (rl_replies s)" if "k < rl_pushed s - length ts" for k
    proof (cases "k = i")
      case False
      then have "k < rl_pushed s - length (rl_mTaskQueue s)" using that i(1,3) by (simp add: q(1))
      then show ?thesis using don by (simp add: rl_done_def)
    qed (use replied in simp)
    then show ?thesis using don by (simp add: rl_done_def t)
  qed
  ultimately show ?thesis by (simp add: rl_ok_def)
qed (use assms in \<open>simp add: pop_front_def\<close>)

lemma claim_ok:
  assumes "rl_ok s" "rl_held s thread = None"
  shows "rl_ok (claim thread s)"
proof (cases "List.find (\<lambda>(i, t). tk_flag t = 0) (rl_mTaskQueue s)")
  case (Some p)
  obtain i t where p: "p = (i, t)" by fastforce
  have ids: "rl_ids s" and own: "rl_owned s" and don: "rl_done s" using assms by (auto simp: rl_ok_def)
  have "(i, t) \<in> set (rl_mTaskQueue s)" and f: "tk_flag t = 0"
    using Some by (auto simp: p find_Some_iff dest: nth_mem)
  then have m: "map_of (rl_mTaskQueue s) i = Some t" using queue_keys_distinct[OF ids] by simp
  then have fresh: "i \<notin> fst ` set (rl_replies s)" "i \<notin> ran (rl_held s)"
    using owned_flag[OF own m] f by (auto simp: flag_ok_def)
  let ?u = "claim thread s"
  have u: "rl_mTaskQueue ?u = set_task i (\<lambda>t. t\<lparr>tk_flag := 1\<rparr>) (rl_mTaskQueue s)" "rl_replies ?u = rl_replies s"
    "rl_held ?u = (rl_held s)(thread := Some i)" "rl_pushed ?u = rl_pushed s" "rl_busy ?u = rl_busy s"
    "rl_mPendingReplyQueueSize ?u = rl_mPendingReplyQueueSize s"
    using Some by (simp_all add: claim_def p)
  have ran: "ran ((rl_held s)(thread := Some i)) = insert i (ran (rl_held s))"
    using assms(2) by simp
  have "rl_ids ?u" using ids by (simp add: rl_ids_def u)
  moreover have "rl_owned ?u"
  proof -
    have "inj_on ((rl_held s)(thread := Some i)) (dom ((rl_held s)(thread := Some i)))"
      using own fresh(2) by (auto simp: rl_owned_def inj_on_def ran_def)
    then show ?thesis
      using own fresh m unfolding rl_owned_def u ran map_of_set_task
      by (auto simp: flag_ok_def split: if_splits)
  qed
  moreover have "rl_done ?u"
  proof -
    have "\<exists>j t' ts. set_task i (\<lambda>t. t\<lparr>tk_flag := 1\<rparr>) (rl_mTaskQueue s) = (j, t') # ts \<and> tk_flag t' = 2" if b: "rl_busy s"
    proof -
      obtain j t' ts where q: "rl_mTaskQueue s = (j, t') # ts" "tk_flag t' = 2" using don b by (auto simp: rl_done_def)
      have "j \<noteq> i" using q m f by auto
      then show ?thesis using q by (simp add: set_task_def)
    qed
    then show ?thesis using don by (simp add: rl_done_def u)
  qed
  ultimately show ?thesis by (simp add: rl_ok_def)
qed (use assms in \<open>simp add: claim_def\<close>)

lemma ran_release:
  assumes "inj_on m (dom m)" "m k = Some v"
  shows "ran (m(k := None)) = ran m - {v}"
proof (intro set_eqI iffI)
  fix j
  assume "j \<in> ran (m(k := None))"
  then obtain l where l: "l \<noteq> k" "m l = Some j" by (auto simp: ran_def split: if_splits)
  have "j \<noteq> v" using inj_onD[OF assms(1), of l k] l assms(2) by (auto simp: domI)
  then show "j \<in> ran m - {v}" using l(2) by (auto simp: ran_def)
next
  fix j
  assume "j \<in> ran m - {v}"
  then obtain l where l: "m l = Some j" "j \<noteq> v" by (auto simp: ran_def)
  then have "l \<noteq> k" using assms(2) by auto
  with l(1) show "j \<in> ran (m(k := None))" by (intro ranI[of "m(k := None)" l]) simp
qed

lemma finish_ok:
  assumes "rl_ok s" "rl_held s thread = Some i" "tk_flag t' = 2"
  shows "rl_ok (finish thread t' r s)"
proof -
  have ids: "rl_ids s" and own: "rl_owned s" and don: "rl_done s" using assms by (auto simp: rl_ok_def)
  have held: "i \<in> ran (rl_held s)" using assms(2) by (auto simp: ran_def)
  then obtain t where m: "map_of (rl_mTaskQueue s) i = Some t" using own by (auto simp: rl_owned_def)
  then have fresh: "i \<notin> fst ` set (rl_replies s)" "tk_flag t = 1"
    using owned_flag[OF own m] held by (auto simp: flag_ok_def)
  have lt: "i < rl_pushed s" using queue_lookup[OF ids, of i] m by simp
  let ?u = "finish thread t' r s"
  have u: "rl_mTaskQueue ?u = set_task i (\<lambda>_. t') (rl_mTaskQueue s)" "rl_replies ?u = rl_replies s @ [(i, r)]"
    "rl_held ?u = (rl_held s)(thread := None)" "rl_pushed ?u = rl_pushed s" "rl_busy ?u = rl_busy s"
    "rl_mPendingReplyQueueSize ?u = rl_mPendingReplyQueueSize s"
    using assms(2) by (simp_all add: finish_def)
  have inj: "inj_on (rl_held s) (dom (rl_held s))" using own by (simp add: rl_owned_def)
  have ran: "ran ((rl_held s)(thread := None)) = ran (rl_held s) - {i}" by (rule ran_release[OF inj assms(2)])
  have "rl_ids ?u" using ids by (simp add: rl_ids_def u)
  moreover have "rl_owned ?u"
  proof -
    have "inj_on ((rl_held s)(thread := None)) (dom ((rl_held s)(thread := None)))"
      using inj by (auto simp: inj_on_def)
    moreover have "flag_ok (fst ` set (rl_replies s @ [(i, r)])) (ran (rl_held s) - {i}) j x"
      if "(if j = i then map_option (\<lambda>_. t') (map_of (rl_mTaskQueue s) j) else map_of (rl_mTaskQueue s) j) = Some x" for j x
    proof (cases "j = i")
      case True
      then show ?thesis using that m assms(3) by (simp add: flag_ok_def)
    next
      case False
      then show ?thesis using that owned_flag[OF own, of j x] by (auto simp: flag_ok_def)
    qed
    moreover have "ran (rl_held s) - {i} \<subseteq> dom (map_of (set_task i (\<lambda>_. t') (rl_mTaskQueue s)))"
      using own by (auto simp: rl_owned_def map_of_set_task dom_def)
    ultimately show ?thesis
      unfolding rl_owned_def u ran by (simp add: map_of_set_task)
  qed
  moreover have "rl_done ?u"
  proof -
    have "\<exists>j x ts. set_task i (\<lambda>_. t') (rl_mTaskQueue s) = (j, x) # ts \<and> tk_flag x = 2" if "rl_busy s"
      using don that assms(3) by (auto simp: rl_done_def set_task_def)
    then show ?thesis using don fresh(1) lt by (auto simp: rl_done_def u)
  qed
  ultimately show ?thesis by (simp add: rl_ok_def)
qed

lemma replyTask_Inr:
  assumes "replyTask h n t = Some (m, Inr (t', r))"
  shows "tk_flag t' = 2 \<and> rp_handle r = tk_handle t \<and>
    (if rp_committed r
     then rp_task r = t \<and> (\<exists>k e. tk_index t \<le> rv_commitIndex (h k) \<and> rv_entry (h (k + 1)) (tk_index t) = Some e \<and>
            le_term e = tk_term t)
     else rp_task r = t\<lparr>tk_code := 301, tk_message := ''NotLeaderAnyMore''\<rparr>)"
proof -
  obtain k b where w: "waitTillCommittedOrQuit h n (tk_index t) (tk_term t) = Some (k, Inr b)"
    using assms unfolding replyTask_def by (auto simp: bind_eq_Some_conv)
  with assms show ?thesis
    using wait_True[of h n "tk_index t" "tk_term t" k]
    by (auto simp: replyTask_def Let_def) blast
qed

definition reply_true :: "history \<Rightarrow> reply \<Rightarrow> bool" where
  "reply_true h r \<longleftrightarrow> (if rp_committed r
     then \<exists>k e. tk_index (rp_task r) \<le> rv_commitIndex (h k) \<and>
            rv_entry (h (k + 1)) (tk_index (rp_task r)) = Some e \<and> le_term e = tk_term (rp_task r)
     else tk_code (rp_task r) = 301)"

lemma rl_step_ok:
  assumes "rl_step h s t" "rl_ok s" "\<forall>(i, r) \<in> set (rl_replies s). reply_true h r"
  shows "rl_ok t \<and> (\<forall>(i, r) \<in> set (rl_replies t). reply_true h r)"
  using assms
proof (induction rule: rl_step.induct)
  case (rl_push s index "term" handle events code message)
  then show ?case using pushTask_ok by (simp add: pushTask_def)
next
  case (rl_look s)
  then show ?case using pop_look_ok by (simp add: pop_look_def)
next
  case (rl_pop s)
  then show ?case using pop_front_ok by (simp add: pop_front_def)
next
  case (rl_claim thread s)
  have "rl_replies (claim thread s) = rl_replies s" by (auto simp: claim_def split: option.splits)
  then show ?case using rl_claim claim_ok by simp
next
  case (rl_finish thread s i u n m t' r)
  note f = replyTask_Inr[OF rl_finish.hyps(4)]
  have "reply_true h r" using f by (auto simp: reply_true_def split: if_splits)
  moreover have "rl_replies (finish thread t' r s) = rl_replies s @ [(i, r)]"
    using rl_finish.hyps(2) by (simp add: finish_def)
  ultimately show ?case
    using rl_finish.prems f finish_ok[OF rl_finish.prems(1) rl_finish.hyps(2)] by auto
qed

lemma rl_reachable_ok:
  "(rl_step h)\<^sup>*\<^sup>* RaftReplyLoop s \<Longrightarrow> rl_ok s \<and> (\<forall>(i, r) \<in> set (rl_replies s). reply_true h r)"
proof (induction rule: rtranclp_induct)
  case base
  show ?case by (simp add: RaftReplyLoop_def rl_ok_defs)
next
  case (step y z)
  then show ?case using rl_step_ok by blast
qed

section \<open>RaftCommandEventStore\<close>

datatype transition = SameLeader | SameFollower | LeaderToFollower | FollowerToLeader
  | OldLeaderToNewLeader | OldFollowerToNewFollower

record event_store =
  es_mRaftLogStore :: log_store
  es_mRaftReplyLoop :: reply_loop
  es_mLastCheckedTerm :: nat
  es_mLastCheckedRole :: raft_role

definition RaftCommandEventStore :: event_store where
  "RaftCommandEventStore = \<lparr>es_mRaftLogStore = RaftLogStore, es_mRaftReplyLoop = RaftReplyLoop,
     es_mLastCheckedTerm = ls_mLogStoreTerm RaftLogStore, es_mLastCheckedRole = ls_mLogStoreRole RaftLogStore\<rparr>"

fun number_events :: "nat \<Rightarrow> nat \<Rightarrow> event list \<Rightarrow> event list" where
  "number_events commandId nextEventId [] = []"
| "number_events commandId nextEventId (e # es) =
     e\<lparr>e_mMetaData := (e_mMetaData e)\<lparr>md_mId := nextEventId, em_mCommandId := commandId\<rparr>\<rparr>
       # number_events commandId (nextEventId + 1) es"

definition es_persistAsync ::
  "writer_env \<Rightarrow> command \<Rightarrow> event list \<Rightarrow> nat \<Rightarrow> string \<Rightarrow> event_store \<Rightarrow> event_store option" where
  "es_persistAsync env command events code message s =
     (let commandId = getId command; handle = cm_mRequestHandle (c_mMetaData command);
          events = number_events commandId 0 events;
          s = s\<lparr>es_mRaftReplyLoop := pushTask commandId (es_mLastCheckedTerm s) handle events code message
                  (es_mRaftReplyLoop s)\<rparr> in
      if events = [] then Some s
      else map_option (\<lambda>l. s\<lparr>es_mRaftLogStore := l\<rparr>)
             (ls_persistAsync env command events commandId None (es_mRaftLogStore s)))"

text \<open>\<^const>\<open>None\<close> is a call that never returns, \<^const>\<open>Inl\<close> a failed assertion.\<close>

definition detectTransition :: "history \<Rightarrow> nat \<Rightarrow> event_store \<Rightarrow> (nat \<times> (transition \<times> event_store) res) option" where
  "detectTransition h n s = Option.bind (refresh h n (es_mRaftLogStore s)) (\<lambda>(m, l).
     let currentTerm = ls_mLogStoreTerm l; currentRole = ls_mLogStoreRole l;
         s' = s\<lparr>es_mRaftLogStore := l, es_mLastCheckedTerm := currentTerm, es_mLastCheckedRole := currentRole\<rparr> in
     Some (m,
       if es_mLastCheckedTerm s \<noteq> currentTerm
       then ensure (es_mLastCheckedTerm s < currentTerm)
             (Inr (if es_mLastCheckedRole s = Leader
                   then (if currentRole = Leader then OldLeaderToNewLeader else LeaderToFollower)
                   else (if currentRole = Leader then FollowerToLeader else OldFollowerToNewFollower), s'))
       else if es_mLastCheckedRole s = Leader
       then ensure (currentRole = Leader) (Inr (SameLeader, s'))
       else Inr (if currentRole = Leader then FollowerToLeader else SameFollower, s')))"

text \<open>
  The life of an event store: the command loop detects transitions and persists, the threads of
  the log store and of the reply loop run in between, and others read the consensus module.
\<close>

inductive es_run :: "writer_env \<Rightarrow> history \<Rightarrow> nat \<Rightarrow> event_store \<Rightarrow> bool" for env h where
  es_start: "es_run env h n RaftCommandEventStore"
| es_detect: "es_run env h n s \<Longrightarrow> detectTransition h n s = Some (m, Inr (tr, t)) \<Longrightarrow> es_run env h m t"
| es_persist: "es_run env h n s \<Longrightarrow> es_persistAsync env c events code message s = Some t \<Longrightarrow> es_run env h n t"
| es_batch: "es_run env h n s \<Longrightarrow> persistLoop_body env now (es_mRaftLogStore s) = Inr l \<Longrightarrow>
    es_run env h n (s\<lparr>es_mRaftLogStore := l\<rparr>)"
| es_reply: "es_run env h n s \<Longrightarrow> rl_step h (es_mRaftReplyLoop s) r \<Longrightarrow> es_run env h n (s\<lparr>es_mRaftReplyLoop := r\<rparr>)"
| es_later: "es_run env h n s \<Longrightarrow> n \<le> m \<Longrightarrow> es_run env h m s"

definition es_ok :: "history \<Rightarrow> nat \<Rightarrow> event_store \<Rightarrow> bool" where
  "es_ok h n s \<longleftrightarrow> es_mLastCheckedTerm s = ls_mLogStoreTerm (es_mRaftLogStore s) \<and>
     es_mLastCheckedRole s = ls_mLogStoreRole (es_mRaftLogStore s) \<and> es_mLastCheckedTerm s \<le> rv_term (h n)"

lemma ls_dequeue_pair:
  "ls_dequeue env l = Inr l' \<Longrightarrow> ls_mLogStoreTerm l' = ls_mLogStoreTerm l \<and> ls_mLogStoreRole l' = ls_mLogStoreRole l"
  by (auto simp: ls_dequeue_def split: prod.splits dequeued.splits)

lemma dequeue_times_pair:
  "dequeue_times env k l = Inr l' \<Longrightarrow> ls_mLogStoreTerm l' = ls_mLogStoreTerm l \<and> ls_mLogStoreRole l' = ls_mLogStoreRole l"
  by (induction k arbitrary: l) (auto dest: ls_dequeue_pair)

lemma persistLoop_pair:
  assumes "persistLoop_body env now l = Inr l'"
  shows "ls_mLogStoreTerm l' = ls_mLogStoreTerm l \<and> ls_mLogStoreRole l' = ls_mLogStoreRole l"
  using assms unfolding persistLoop_body_def maySendBatch_def
  by (elim resE) (auto dest!: ls_dequeue_pair dequeue_times_pair)

lemma refresh_step:
  assumes "terms_grow h" "refresh h n l = Some (m, l')" "ls_mLogStoreTerm l \<le> rv_term (h n)"
  shows "ls_mLogStoreTerm l \<le> ls_mLogStoreTerm l' \<and> ls_mLogStoreTerm l' \<le> rv_term (h m) \<and>
    (ls_mLogStoreTerm l' = ls_mLogStoreTerm l \<and> ls_mLogStoreRole l = Leader \<longrightarrow> ls_mLogStoreRole l' = Leader)"
proof -
  obtain k where k: "stable_term h n = Some k" "m = k + 3"
    and l': "l' = (if ls_mLogStoreTerm l = rv_term (h k) \<and> ls_mLogStoreRole l = Leader \<and> rv_role (h (k + 1)) \<noteq> Leader
       then l else l\<lparr>ls_mLogStoreTerm := rv_term (h k), ls_mLogStoreRole := rv_role (h (k + 1))\<rparr>)"
    using assms(2) by (auto simp: refresh_def bind_eq_Some_conv)
  have "rv_term (h n) \<le> rv_term (h k)" "rv_term (h k) \<le> rv_term (h m)"
    using stable_term_Some[OF k(1)] k(2) terms_grow_le[OF assms(1)] by simp_all
  then show ?thesis using assms(3) l' by auto
qed

lemma es_persist_pair:
  "es_persistAsync env c events code message s = Some t \<Longrightarrow>
     es_mLastCheckedTerm t = es_mLastCheckedTerm s \<and> es_mLastCheckedRole t = es_mLastCheckedRole s \<and>
     ls_mLogStoreTerm (es_mRaftLogStore t) = ls_mLogStoreTerm (es_mRaftLogStore s) \<and>
     ls_mLogStoreRole (es_mRaftLogStore t) = ls_mLogStoreRole (es_mRaftLogStore s)"
  by (auto simp: es_persistAsync_def ls_persistAsync_def Let_def split: if_splits)

lemma es_run_ok:
  assumes "es_run env h n s" "terms_grow h"
  shows "es_ok h n s"
  using assms(1)
proof (induction rule: es_run.induct)
  case (es_start n)
  show ?case by (simp add: es_ok_def RaftCommandEventStore_def RaftLogStore_def)
next
  case (es_detect n s m tr t)
  obtain l where r: "refresh h n (es_mRaftLogStore s) = Some (m, l)" and t: "es_mRaftLogStore t = l"
    "es_mLastCheckedTerm t = ls_mLogStoreTerm l" "es_mLastCheckedRole t = ls_mLogStoreRole l"
    using es_detect.hyps(2) by (auto simp: detectTransition_def bind_eq_Some_conv Let_def ensure_def split: if_splits)
  show ?case using refresh_step[OF assms(2) r] es_detect.IH t by (simp add: es_ok_def)
next
  case (es_persist n s c events code message t)
  then show ?case using es_persist_pair[OF es_persist.hyps(2)] by (simp add: es_ok_def)
next
  case (es_batch n s now l)
  then show ?case using persistLoop_pair[OF es_batch.hyps(2)] by (simp add: es_ok_def)
next
  case (es_reply n s r)
  then show ?case by (simp add: es_ok_def)
next
  case (es_later n s m)
  then show ?case using terms_grow_le[OF assms(2) es_later.hyps(2)] by (simp add: es_ok_def)
qed

end
