(* ===== verification/Readonly_Event_Store.thy ===== *)
theory Readonly_Event_Store
  imports Raft_Event_Store SegmentLog_Rep Raft_Core_Inv "HOL-Library.Sublist"
begin

text \<open>
  The reading side of the event store, \<^verbatim>\<open>store/ReadonlyRaftCommandEventStore\<close>: committed entries
  are loaded, decrypted and decoded into bundles of a command and its events, by the apply thread
  itself or by a load thread and several decryption threads, and handed out one by one.
\<close>

section \<open>Bundles\<close>

type_synonym command_events = "command option \<times> event option list"

text \<open>The first component is the entry after the in-place decryption.\<close>

definition decryptEntry :: "writer_env \<Rightarrow> nat \<Rightarrow> log_entry \<Rightarrow> (log_entry \<times> command_events list) res" where
  "decryptEntry env u entry =
     (if le_noop entry then Inr (entry, [])
      else bindR
        (if cu_mEnabled (we_crypto env)
         then bindR (decrypt (we_ssl env) (le_payload entry)
                (if le_version entry = kInvalidSecKeyVersion then kOldestSecKeyVersion else le_version entry)
                (we_crypto env)) (\<lambda>(plain, r).
              ensure (r = 0) (Inr (entry\<lparr>le_payload := plain\<rparr>)))
         else Inr entry)
        (\<lambda>entry. case pb_parsePayload (we_proto env) (le_payload entry) of
            None \<Rightarrow> Inl AssertFailed
          | Some payload \<Rightarrow>
              Inr (entry, if rp_events payload = [] then []
                else [(decodeCommand (we_proto env) u (rp_command payload),
                       map (decodeEvent (we_proto env) u) (rp_events payload))])))"

fun decryptEntries :: "writer_env \<Rightarrow> nat \<Rightarrow> log_entry list \<Rightarrow> (log_entry list \<times> command_events list) res" where
  "decryptEntries env u [] = Inr ([], [])"
| "decryptEntries env u (e # es) =
     bindR (decryptEntry env u e) (\<lambda>(e, bs).
     bindR (decryptEntries env u es) (\<lambda>(es, bs'). Inr (e # es, bs @ bs')))"

text \<open>The bundles of an entry, empty where decoding would abort.\<close>

definition bundles_of :: "writer_env \<Rightarrow> nat \<Rightarrow> log_entry \<Rightarrow> command_events list" where
  "bundles_of env u e = (case decryptEntry env u e of Inl _ \<Rightarrow> [] | Inr (_, bs) \<Rightarrow> bs)"

lemma decryptEntries_bundles:
  "decryptEntries env u es = Inr (es', bs) \<Longrightarrow> bs = concat (map (bundles_of env u) es)"
proof (induction es arbitrary: es' bs)
  case (Cons e es)
  then obtain e' b es'' bs'' where "decryptEntry env u e = Inr (e', b)" "decryptEntries env u es = Inr (es'', bs'')"
    "bs = b @ bs''"
    by (auto elim!: resE)
  with Cons.IH[of es'' bs''] show ?case by (simp add: bundles_of_def)
qed simp

section \<open>The source of the entries\<close>

text \<open>
  What the reader calls of \<^verbatim>\<open>RaftInterface\<close>, and what it relies on: the entries it is given are the
  ones of the log from the index it asked for, as many as the returned number says.
\<close>

record 'r source_ops =
  so_getCommitIndex :: "'r \<Rightarrow> nat"
  so_getEntries :: "nat \<Rightarrow> nat \<Rightarrow> 'r \<Rightarrow> ('r \<times> nat \<times> log_entry list) res"

locale entry_source =
  fixes src :: "'r source_ops"
    and first :: "'r \<Rightarrow> nat"
    and entries :: "'r \<Rightarrow> log_entry list"
    and ok :: "'r \<Rightarrow> bool"
  assumes commit_law: "ok r \<Longrightarrow> so_getCommitIndex src r < first r + length (entries r)"
    and entries_law: "ok r \<Longrightarrow> first r \<le> i \<Longrightarrow> so_getEntries src i n r = Inr (r', k, es) \<Longrightarrow>
      k = length es \<and> k \<le> n \<and> es = take k (drop (i - first r) (entries r))"
begin

text \<open>\<open>shows_log C r\<close>: the committed part of \<open>r\<close> is the part of the sequence \<open>C\<close> it reaches.\<close>

definition shows_log :: "(nat \<Rightarrow> log_entry) \<Rightarrow> 'r \<Rightarrow> bool" where
  "shows_log C r \<longleftrightarrow> ok r \<and> (\<forall>i. first r \<le> i \<and> i \<le> so_getCommitIndex src r \<longrightarrow> entries r ! (i - first r) = C i)"

lemma loaded_part:
  assumes "shows_log C r" "first r \<le> i + 1" "i < so_getCommitIndex src r"
    and "so_getEntries src (i + 1) (so_getCommitIndex src r - i) r = Inr (r', k, es)"
  shows "k = length es \<and> i + k \<le> so_getCommitIndex src r \<and> es = map C [i + 1..<i + 1 + k]"
proof -
  have ok: "ok r" using assms(1) by (simp add: shows_log_def)
  have e: "length es = k" "k \<le> so_getCommitIndex src r - i"
    and eq: "es = take k (drop (i + 1 - first r) (entries r))"
    using entries_law[OF ok assms(2,4)] by blast+
  have "es ! j = C (i + 1 + j)" if "j < k" for j
  proof -
    have "es ! j = take k (drop (i + 1 - first r) (entries r)) ! j" by (rule arg_cong[OF eq])
    also have "\<dots> = entries r ! (i + 1 - first r + j)"
      using that commit_law[OF ok] assms(3) by simp
    also have "i + 1 - first r + j = i + 1 + j - first r" using assms(2) by simp
    also have "entries r ! (i + 1 + j - first r) = C (i + 1 + j)"
      using assms(1,2) that e(2) unfolding shows_log_def by simp
    finally show ?thesis .
  qed
  then have "es = map C [i + 1..<i + 1 + k]" using e(1) by (intro nth_equalityI) (simp_all del: upt_Suc)
  then show ?thesis using e assms(3) by (simp del: upt_Suc)
qed

end

section \<open>The reader\<close>

record load_task =
  lt_entries :: "log_entry list"
  lt_bundles :: "command_events list"
  lt_flag :: nat

record readonly_store =
  ro_mAsyncLoad :: bool
  ro_mLoadedIndex :: nat
  ro_mAppliedIndex :: nat
  ro_mApplyingIndex :: nat
  ro_mCachedBundles :: "command_events list"
  ro_mTaskQueue :: "load_task list"
  ro_mSpinTimes :: nat

definition kSpinLimit :: nat where "kSpinLimit = 50"
definition kMaxQueueSize :: nat where "kMaxQueueSize = 30"

definition ReadonlyRaftCommandEventStore :: "bool \<Rightarrow> readonly_store" where
  "ReadonlyRaftCommandEventStore asyncLoad = \<lparr>ro_mAsyncLoad = asyncLoad, ro_mLoadedIndex = 0, ro_mAppliedIndex = 0,
     ro_mApplyingIndex = 0, ro_mCachedBundles = [], ro_mTaskQueue = [], ro_mSpinTimes = 0\<rparr>"

definition teardown :: "readonly_store \<Rightarrow> readonly_store" where
  "teardown s = s\<lparr>ro_mLoadedIndex := 0, ro_mAppliedIndex := 0, ro_mApplyingIndex := 0, ro_mCachedBundles := [],
     ro_mTaskQueue := []\<rparr>"

definition setCurrentOffset :: "nat \<Rightarrow> readonly_store \<Rightarrow> readonly_store res" where
  "setCurrentOffset currentOffset s =
     ensure (ro_mAppliedIndex s = 0 \<and> ro_mLoadedIndex s = 0)
      (Inr (s\<lparr>ro_mAppliedIndex := currentOffset, ro_mLoadedIndex := currentOffset\<rparr>))"

definition loadBundles ::
  "writer_env \<Rightarrow> nat \<Rightarrow> 'r source_ops \<Rightarrow> nat \<Rightarrow> nat \<Rightarrow> 'r \<Rightarrow> ('r \<times> nat \<times> command_events list) res" where
  "loadBundles env u src startIndex sz r =
     bindR (so_getEntries src startIndex sz r) (\<lambda>(r, k, es).
     bindR (decryptEntries env u es) (\<lambda>(_, bs). Inr (r, k, bs)))"

definition loadCommandEventsList ::
  "writer_env \<Rightarrow> nat \<Rightarrow> 'r source_ops \<Rightarrow> nat \<Rightarrow> nat \<Rightarrow> 'r \<Rightarrow> ('r \<times> nat \<times> command_events list) res" where
  "loadCommandEventsList env u src commandId sz r =
     (let commitIndex = so_getCommitIndex src r in
      if commandId = 0 \<or> commandId > commitIndex then Inr (r, 0, [])
      else loadBundles env u src commandId
        (if (commandId + sz - 1) mod 2 ^ 64 > commitIndex then commitIndex - commandId + 1 else sz) r)"

definition trySyncLoadBundles ::
  "writer_env \<Rightarrow> nat \<Rightarrow> 'r source_ops \<Rightarrow> 'r \<Rightarrow> readonly_store \<Rightarrow> ('r \<times> readonly_store) res" where
  "trySyncLoadBundles env u src r s =
     ensure (ro_mCachedBundles s = [])
      (let commitIndex = so_getCommitIndex src r; spin = ro_mSpinTimes s + 1 in
       if ro_mLoadedIndex s \<ge> commitIndex
       then Inr (r, s\<lparr>ro_mSpinTimes := (if spin \<ge> kSpinLimit then 0 else spin)\<rparr>)
       else bindR (loadBundles env u src (ro_mLoadedIndex s + 1) (commitIndex - ro_mLoadedIndex s) r) (\<lambda>(r, k, bs).
         Inr (r, s\<lparr>ro_mSpinTimes := 0, ro_mLoadedIndex := ro_mLoadedIndex s + k, ro_mCachedBundles := bs\<rparr>)))"

definition tryAsyncLoadBundles :: "readonly_store \<Rightarrow> readonly_store res" where
  "tryAsyncLoadBundles s =
     ensure (ro_mCachedBundles s = [])
      (Inr (case ro_mTaskQueue s of [] \<Rightarrow> s
         | t # ts \<Rightarrow> if lt_flag t \<noteq> 2 then s
                    else s\<lparr>ro_mTaskQueue := ts, ro_mCachedBundles := lt_bundles t\<rparr>))"

definition tryLoadBundles ::
  "writer_env \<Rightarrow> nat \<Rightarrow> 'r source_ops \<Rightarrow> 'r \<Rightarrow> readonly_store \<Rightarrow> ('r \<times> readonly_store) res" where
  "tryLoadBundles env u src r s =
     (if ro_mAsyncLoad s then bindR (tryAsyncLoadBundles s) (\<lambda>s. Inr (r, s))
      else trySyncLoadBundles env u src r s)"

text \<open>A bundle whose command could not be decoded is a null pointer, which is dereferenced.\<close>

definition loadNextCommandEvents ::
  "writer_env \<Rightarrow> nat \<Rightarrow> 'r source_ops \<Rightarrow> 'r \<Rightarrow> readonly_store \<Rightarrow> ('r \<times> command_events option \<times> readonly_store) res" where
  "loadNextCommandEvents env u src r s =
     (let s = s\<lparr>ro_mAppliedIndex := max (ro_mAppliedIndex s) (ro_mApplyingIndex s)\<rparr> in
      bindR (if ro_mCachedBundles s = [] then tryLoadBundles env u src r s else Inr (r, s)) (\<lambda>(r, s).
      case ro_mCachedBundles s of [] \<Rightarrow> Inr (r, None, s)
      | b # bs \<Rightarrow> (case fst b of None \<Rightarrow> Inl OutOfBounds
          | Some c \<Rightarrow> Inr (r, Some b, s\<lparr>ro_mCachedBundles := bs, ro_mApplyingIndex := getId c\<rparr>))))"

text \<open>One event at a time, for the publisher.\<close>

definition loadNextEvent ::
  "writer_env \<Rightarrow> nat \<Rightarrow> 'r source_ops \<Rightarrow> 'r \<Rightarrow> readonly_store \<Rightarrow> ('r \<times> event option option \<times> readonly_store) res" where
  "loadNextEvent env u src r s =
     bindR (if ro_mCachedBundles s = [] then tryLoadBundles env u src r s else Inr (r, s)) (\<lambda>(r, s).
     case ro_mCachedBundles s of [] \<Rightarrow> Inr (r, None, s)
     | (c, es) # bs \<Rightarrow> (case es of [] \<Rightarrow> Inl AssertFailed
         | e # es \<Rightarrow> Inr (r, Some e, s\<lparr>ro_mCachedBundles := (if es = [] then bs else (c, es) # bs)\<rparr>)))"

text \<open>One round of the load thread, and the two halves of a round of a decryption thread.\<close>

definition loadEntries_body :: "'r source_ops \<Rightarrow> 'r \<Rightarrow> readonly_store \<Rightarrow> ('r \<times> readonly_store) res" where
  "loadEntries_body src r s =
     (let commitIndex = so_getCommitIndex src r in
      if length (ro_mTaskQueue s) \<ge> kMaxQueueSize \<or> ro_mLoadedIndex s \<ge> commitIndex then Inr (r, s)
      else bindR (so_getEntries src (ro_mLoadedIndex s + 1) (commitIndex - ro_mLoadedIndex s) r) (\<lambda>(r, k, es).
        Inr (r, s\<lparr>ro_mLoadedIndex := ro_mLoadedIndex s + k,
               ro_mTaskQueue := ro_mTaskQueue s @ [\<lparr>lt_entries = es, lt_bundles = [], lt_flag = 0\<rparr>]\<rparr>)))"

fun claim_first :: "load_task list \<Rightarrow> load_task list" where
  "claim_first [] = []"
| "claim_first (t # ts) = (if lt_flag t = 0 then t\<lparr>lt_flag := 1\<rparr> # ts else t # claim_first ts)"

definition decryptTask :: "writer_env \<Rightarrow> nat \<Rightarrow> load_task \<Rightarrow> load_task res" where
  "decryptTask env u t = bindR (decryptEntries env u (lt_entries t)) (\<lambda>(es, bs).
     Inr (t\<lparr>lt_entries := es, lt_bundles := lt_bundles t @ bs, lt_flag := 2\<rparr>))"

text \<open>
  A run of the reader from an offset. The state of the consensus module may be another one at
  every call; all of them show parts of one committed sequence. The fourth argument collects the
  bundles handed out.
\<close>

inductive reads ::
  "writer_env \<Rightarrow> nat \<Rightarrow> 'r source_ops \<Rightarrow> ('r \<Rightarrow> bool) \<Rightarrow> ('r \<Rightarrow> nat) \<Rightarrow> readonly_store \<Rightarrow> command_events list \<Rightarrow> readonly_store \<Rightarrow> bool"
  for env u src visible first s0 where
  rd_start: "reads env u src visible first s0 [] s0"
| rd_load: "reads env u src visible first s0 out s \<Longrightarrow> ro_mAsyncLoad s \<Longrightarrow> visible r \<Longrightarrow> first r \<le> ro_mLoadedIndex s + 1 \<Longrightarrow>
    loadEntries_body src r s = Inr (r', t) \<Longrightarrow> reads env u src visible first s0 out t"
| rd_claim: "reads env u src visible first s0 out s \<Longrightarrow>
    reads env u src visible first s0 out (s\<lparr>ro_mTaskQueue := claim_first (ro_mTaskQueue s)\<rparr>)"
| rd_decrypt: "reads env u src visible first s0 out s \<Longrightarrow> i < length (ro_mTaskQueue s) \<Longrightarrow> lt_flag (ro_mTaskQueue s ! i) = 1 \<Longrightarrow>
    decryptTask env u (ro_mTaskQueue s ! i) = Inr k \<Longrightarrow>
    reads env u src visible first s0 out (s\<lparr>ro_mTaskQueue := (ro_mTaskQueue s)[i := k]\<rparr>)"
| rd_next: "reads env u src visible first s0 out s \<Longrightarrow> visible r \<Longrightarrow> first r \<le> ro_mLoadedIndex s + 1 \<Longrightarrow>
    loadNextCommandEvents env u src r s = Inr (r', b, t) \<Longrightarrow>
    reads env u src visible first s0 (out @ (case b of None \<Rightarrow> [] | Some b \<Rightarrow> [b])) t"

section \<open>In order and exactly once\<close>

text \<open>
  What is still to be handed out: the cached bundles, then those of the tasks, decrypted or not.
\<close>

definition task_bundles :: "writer_env \<Rightarrow> nat \<Rightarrow> load_task \<Rightarrow> command_events list" where
  "task_bundles env u t = (if lt_flag t = 2 then lt_bundles t else concat (map (bundles_of env u) (lt_entries t)))"

definition pending :: "writer_env \<Rightarrow> nat \<Rightarrow> readonly_store \<Rightarrow> command_events list" where
  "pending env u s = ro_mCachedBundles s @ concat (map (task_bundles env u) (ro_mTaskQueue s))"

definition committed_bundles :: "writer_env \<Rightarrow> nat \<Rightarrow> (nat \<Rightarrow> log_entry) \<Rightarrow> nat \<Rightarrow> nat \<Rightarrow> command_events list" where
  "committed_bundles env u C i j = concat (map (bundles_of env u \<circ> C) [i + 1..<j + 1])"

definition reader_ok ::
  "writer_env \<Rightarrow> nat \<Rightarrow> (nat \<Rightarrow> log_entry) \<Rightarrow> nat \<Rightarrow> command_events list \<Rightarrow> readonly_store \<Rightarrow> bool" where
  "reader_ok env u C start out s \<longleftrightarrow> start \<le> ro_mLoadedIndex s \<and>
     out @ pending env u s = committed_bundles env u C start (ro_mLoadedIndex s) \<and>
     (\<forall>t \<in> set (ro_mTaskQueue s). lt_flag t \<noteq> 2 \<longrightarrow> lt_bundles t = []) \<and>
     (\<not> ro_mAsyncLoad s \<longrightarrow> ro_mTaskQueue s = [])"

lemma committed_bundles_extend:
  "i \<le> j \<Longrightarrow> committed_bundles env u C i (j + k) =
     committed_bundles env u C i j @ concat (map (bundles_of env u) (map C [j + 1..<j + 1 + k]))"
proof -
  assume "i \<le> j"
  then have "[i + 1..<j + k + 1] = [i + 1..<j + 1] @ [j + 1..<j + 1 + k]"
    using upt_add_eq_append[of "i + 1" "j + 1" k] by (simp add: add.commute add.left_commute del: upt_Suc)
  then show ?thesis by (simp add: committed_bundles_def del: upt_Suc)
qed

lemma claim_first_bundles: "map (task_bundles env u) (claim_first ts) = map (task_bundles env u) ts"
  by (induction ts) (auto simp: task_bundles_def)

lemma claim_first_empty:
  "\<forall>t \<in> set ts. lt_flag t \<noteq> 2 \<longrightarrow> lt_bundles t = [] \<Longrightarrow> \<forall>t \<in> set (claim_first ts). lt_flag t \<noteq> 2 \<longrightarrow> lt_bundles t = []"
  by (induction ts) auto

lemma claim_first_Nil [simp]: "claim_first ts = [] \<longleftrightarrow> ts = []"
  by (cases ts) auto

lemma claim_reader_ok:
  assumes "reader_ok env u C start out s"
  shows "reader_ok env u C start out (s\<lparr>ro_mTaskQueue := claim_first (ro_mTaskQueue s)\<rparr>)"
proof -
  have "\<forall>t \<in> set (claim_first (ro_mTaskQueue s)). lt_flag t \<noteq> 2 \<longrightarrow> lt_bundles t = []"
    using assms by (intro claim_first_empty) (simp add: reader_ok_def)
  then show ?thesis using assms by (simp add: reader_ok_def pending_def claim_first_bundles)
qed

lemma decrypt_reader_ok:
  assumes "reader_ok env u C start out s" "i < length (ro_mTaskQueue s)" "lt_flag (ro_mTaskQueue s ! i) = 1"
    and "decryptTask env u (ro_mTaskQueue s ! i) = Inr k"
  shows "reader_ok env u C start out (s\<lparr>ro_mTaskQueue := (ro_mTaskQueue s)[i := k]\<rparr>)"
proof -
  let ?t = "ro_mTaskQueue s ! i"
  have "?t \<in> set (ro_mTaskQueue s)" using assms(2) by simp
  then have e: "lt_bundles ?t = []" using assms(1,3) by (auto simp: reader_ok_def)
  obtain es bs where d: "decryptEntries env u (lt_entries ?t) = Inr (es, bs)"
    and k: "k = ?t\<lparr>lt_entries := es, lt_bundles := lt_bundles ?t @ bs, lt_flag := 2\<rparr>"
    using assms(4) by (auto simp: decryptTask_def)
  have "task_bundles env u k = task_bundles env u ?t"
    using decryptEntries_bundles[OF d] assms(3) by (simp add: k e task_bundles_def)
  then have "map (task_bundles env u) ((ro_mTaskQueue s)[i := k]) = map (task_bundles env u) (ro_mTaskQueue s)"
    using assms(2) by (simp add: map_update list_update_same_conv)
  moreover have "\<forall>t \<in> set ((ro_mTaskQueue s)[i := k]). lt_flag t \<noteq> 2 \<longrightarrow> lt_bundles t = []"
    using assms(1) set_update_subset_insert[of "ro_mTaskQueue s" i k] by (auto simp: reader_ok_def k)
  ultimately show ?thesis using assms(1) by (simp add: reader_ok_def pending_def)
qed

lemma async_reader_ok:
  assumes "reader_ok env u C start out s" "tryAsyncLoadBundles s = Inr t"
  shows "reader_ok env u C start out t"
  using assms unfolding tryAsyncLoadBundles_def
  by (auto simp: reader_ok_def pending_def task_bundles_def split: list.splits if_splits)

text \<open>Handing out the first cached bundle.\<close>

lemma next_reader_ok:
  assumes "reader_ok env u C start out s" "ro_mCachedBundles s = b # bs"
  shows "reader_ok env u C start (out @ [b]) (s\<lparr>ro_mCachedBundles := bs, ro_mApplyingIndex := i\<rparr>)"
  using assms by (simp add: reader_ok_def pending_def)

context entry_source
begin

lemma load_reader_ok:
  assumes "reader_ok env u C start out s" "shows_log C r" "first r \<le> ro_mLoadedIndex s + 1" "ro_mAsyncLoad s"
    and "loadEntries_body src r s = Inr (r', t)"
  shows "reader_ok env u C start out t"
proof (cases "length (ro_mTaskQueue s) \<ge> kMaxQueueSize \<or> ro_mLoadedIndex s \<ge> so_getCommitIndex src r")
  case True
  then show ?thesis using assms(1,5) by (simp add: loadEntries_body_def Let_def)
next
  case False
  then obtain k es where g: "so_getEntries src (ro_mLoadedIndex s + 1) (so_getCommitIndex src r - ro_mLoadedIndex s) r = Inr (r', k, es)"
    and t: "t = s\<lparr>ro_mLoadedIndex := ro_mLoadedIndex s + k,
      ro_mTaskQueue := ro_mTaskQueue s @ [\<lparr>lt_entries = es, lt_bundles = [], lt_flag = 0\<rparr>]\<rparr>"
    using assms(5) by (auto simp: loadEntries_body_def Let_def)
  have "ro_mLoadedIndex s < so_getCommitIndex src r" using False by simp
  from loaded_part[OF assms(2,3) this g]
  have es: "map C [ro_mLoadedIndex s + 1..<ro_mLoadedIndex s + 1 + k] = es" by metis
  have "committed_bundles env u C start (ro_mLoadedIndex s + k) =
      committed_bundles env u C start (ro_mLoadedIndex s) @ concat (map (bundles_of env u) es)"
    using committed_bundles_extend[of start "ro_mLoadedIndex s" env u C k] assms(1)
    unfolding es by (simp add: reader_ok_def)
  then show ?thesis
    using assms(1,4) by (auto simp: reader_ok_def t pending_def task_bundles_def)
qed

lemma sync_reader_ok:
  assumes "reader_ok env u C start out s" "shows_log C r" "first r \<le> ro_mLoadedIndex s + 1" "\<not> ro_mAsyncLoad s"
    and "trySyncLoadBundles env u src r s = Inr (r', t)"
  shows "reader_ok env u C start out t"
proof (cases "ro_mLoadedIndex s \<ge> so_getCommitIndex src r")
  case True
  then show ?thesis using assms(1,5) by (auto simp: trySyncLoadBundles_def Let_def reader_ok_def pending_def)
next
  case False
  then obtain k es es' bs where c: "ro_mCachedBundles s = []"
    and g: "so_getEntries src (ro_mLoadedIndex s + 1) (so_getCommitIndex src r - ro_mLoadedIndex s) r = Inr (r', k, es)"
    and d: "decryptEntries env u es = Inr (es', bs)"
    and t: "t = s\<lparr>ro_mSpinTimes := 0, ro_mLoadedIndex := ro_mLoadedIndex s + k, ro_mCachedBundles := bs\<rparr>"
    using assms(5) by (auto simp: trySyncLoadBundles_def loadBundles_def Let_def)
  have "ro_mLoadedIndex s < so_getCommitIndex src r" using False by simp
  from loaded_part[OF assms(2,3) this g]
  have es: "map C [ro_mLoadedIndex s + 1..<ro_mLoadedIndex s + 1 + k] = es" by metis
  have "committed_bundles env u C start (ro_mLoadedIndex s + k) =
      committed_bundles env u C start (ro_mLoadedIndex s) @ bs"
    using committed_bundles_extend[of start "ro_mLoadedIndex s" env u C k] assms(1) decryptEntries_bundles[OF d]
    unfolding es by (simp add: reader_ok_def)
  then show ?thesis
    using assms(1,4) c by (auto simp: reader_ok_def t pending_def)
qed

lemma loadNext_reader_ok:
  assumes "reader_ok env u C start out s" "shows_log C r" "first r \<le> ro_mLoadedIndex s + 1"
    and "loadNextCommandEvents env u src r s = Inr (r', b, t)"
  shows "reader_ok env u C start (out @ (case b of None \<Rightarrow> [] | Some b \<Rightarrow> [b])) t"
proof -
  let ?s = "s\<lparr>ro_mAppliedIndex := max (ro_mAppliedIndex s) (ro_mApplyingIndex s)\<rparr>"
  have s: "reader_ok env u C start out ?s" using assms(1) by (simp add: reader_ok_def pending_def)
  obtain p where p: "(if ro_mCachedBundles ?s = [] then tryLoadBundles env u src r ?s else Inr (r, ?s)) = Inr p"
    and n: "(case p of (r, s) \<Rightarrow> (case ro_mCachedBundles s of [] \<Rightarrow> Inr (r, None, s)
      | b # bs \<Rightarrow> (case fst b of None \<Rightarrow> Inl OutOfBounds
          | Some c \<Rightarrow> Inr (r, Some b, s\<lparr>ro_mCachedBundles := bs, ro_mApplyingIndex := getId c\<rparr>)))) = Inr (r', b, t)"
    using assms(4) unfolding loadNextCommandEvents_def Let_def by (elim bindR_resE)
  obtain q v where pv: "p = (q, v)" by fastforce
  have v: "reader_ok env u C start out v"
    using p s sync_reader_ok[OF s assms(2)] async_reader_ok[OF s] assms(3)
    by (auto simp: pv tryLoadBundles_def split: if_splits)
  show ?thesis
  proof (cases "ro_mCachedBundles v")
    case Nil
    then show ?thesis using n v by (auto simp: pv)
  next
    case (Cons c cs)
    then show ?thesis using n next_reader_ok[OF v Cons] by (auto simp: pv split: option.splits)
  qed
qed

lemma reads_ok:
  assumes "reads env u src (shows_log C) first s0 out s" "reader_ok env u C start [] s0"
  shows "reader_ok env u C start out s"
  using assms
proof (induction rule: reads.induct)
  case (rd_load out s r r' t)
  then show ?case using load_reader_ok by blast
next
  case (rd_claim out s)
  then show ?case using claim_reader_ok by blast
next
  case (rd_decrypt out s i k)
  then show ?case using decrypt_reader_ok by blast
next
  case (rd_next out s r r' b t)
  then show ?case using loadNext_reader_ok by blast
qed simp

end

section \<open>The consensus module as the source\<close>

definition raft_source :: "'l log_ops \<Rightarrow> 'l raft_core source_ops" where
  "raft_source ops = \<lparr>so_getCommitIndex = mCommitIndex,
     so_getEntries = (\<lambda>i n s. bindR (getEntries ops i n s) (\<lambda>(l, k, es). Inr (s\<lparr>mLog := l\<rparr>, k, es)))\<rparr>"

lemma raft_source_commit [simp]: "so_getCommitIndex (raft_source ops) = mCommitIndex"
  by (simp add: raft_source_def)

definition source_ok :: "storage_env \<Rightarrow> segment_log raft_core \<Rightarrow> bool" where
  "source_ok se s \<longleftrightarrow> sl_inv se (mLog s) \<and> mCommitIndex s \<le> al_last (sl_abs se (mLog s))"

lemma raft_entries:
  assumes "sl_inv se (mLog s)" "al_first (sl_abs se (mLog s)) \<le> i"
    and "so_getEntries (raft_source (seg_ops se)) i n s = Inr (s', k, es)"
  shows "k = length es \<and> k \<le> n \<and> es = take k (drop (i - al_first (sl_abs se (mLog s))) (al_entries (sl_abs se (mLog s))))"
proof -
  obtain l where "lo_getEntries (seg_ops se) i (mMaxLenInBytes s) n (mLog s) = Inr (l, k, es)"
    using assms(3) by (auto simp: raft_source_def getEntries_def)
  from seg.getEntries_law[OF assms(1,2) this] show ?thesis .
qed

interpretation raft_src: entry_source "raft_source (seg_ops se)" "\<lambda>s. al_first (sl_abs se (mLog s))"
  "\<lambda>s. al_entries (sl_abs se (mLog s))" "source_ok se" for se
proof
  show "so_getCommitIndex (raft_source (seg_ops se)) s < al_first (sl_abs se (mLog s)) + length (al_entries (sl_abs se (mLog s)))"
    if "source_ok se s" for s
    using that seg.abs_wf[of se "mLog s"] by (auto simp: source_ok_def raft_source_def al_last_def alog_wf_def)
qed (use raft_entries source_ok_def in blast)

text \<open>Whatever moment of a node is read, its committed entries are part of one sequence.\<close>

definition shows_committed :: "storage_env \<Rightarrow> (nat \<Rightarrow> log_entry) \<Rightarrow> segment_log raft_core \<Rightarrow> bool" where
  "shows_committed se C s \<longleftrightarrow> source_ok se s \<and>
     (\<forall>i. al_first (sl_abs se (mLog s)) \<le> i \<and> i \<le> mCommitIndex s \<longrightarrow> al_at (sl_abs se (mLog s)) i = C i)"

lemma shows_committed_eq: "raft_src.shows_log se C = shows_committed se C"
  by (rule ext) (simp add: raft_src.shows_log_def shows_committed_def al_at_def)

lemma reads_committed:
  assumes "setCurrentOffset start (ReadonlyRaftCommandEventStore async) = Inr s0"
    and "reads env u (raft_source (seg_ops se)) (shows_committed se C) (\<lambda>s. al_first (sl_abs se (mLog s))) s0 out s"
  shows "reader_ok env u C start out s"
proof -
  have "reader_ok env u C start [] s0"
    using assms(1) by (auto simp: setCurrentOffset_def ReadonlyRaftCommandEventStore_def reader_ok_def pending_def
        committed_bundles_def)
  with raft_src.reads_ok[of env u se C s0 out s start] assms(2) show ?thesis
    by (simp add: shows_committed_eq)
qed

section \<open>What the writer wrote\<close>

lemma decrypt_prepared:
  assumes "openssl_ok (we_ssl env)" "crypto_ok (we_crypto env)" "proto_ok (we_proto env)"
    and "prepare_entry env (c, es, q) = Inr q'" "le_version (cr_mEntry q) = getLatestSecKeyVersion (we_crypto env)"
    and "\<not> le_noop (cr_mEntry q)" "command_ok c" "list_all event_ok es" "es \<noteq> []"
  shows "bundles_of env u (cr_mEntry q') = [(Some (wire_command c), map (Some \<circ> wire_event) es)]"
proof -
  let ?pb = "we_proto env" and ?v = "getLatestSecKeyVersion (we_crypto env)"
  let ?p = "\<lparr>rp_command = encodeCommand ?pb c empty_command_entry,
     rp_events = map (\<lambda>e. encodeEvent ?pb e empty_event_entry) es\<rparr>"
  obtain cipher where e: "encrypt (we_ssl env) (pb_payload ?pb ?p) ?v (we_crypto env) = Inr (cipher, 0)"
    and q': "cr_mEntry q' = (cr_mEntry q)\<lparr>le_payload := cipher\<rparr>"
    using assms(4,5) by (auto simp: prepare_entry_def Let_def)
  obtain cipher' where d: "encrypt (we_ssl env) (pb_payload ?pb ?p) ?v (we_crypto env) = Inr (cipher', 0)"
    "decrypt (we_ssl env) cipher' ?v (we_crypto env) = Inr (pb_payload ?pb ?p, 0)"
    using encrypt_decrypt[OF assms(1,2), of ?v "pb_payload ?pb ?p"] by auto
  have plain: "decrypt (we_ssl env) cipher ?v (we_crypto env) = Inr (pb_payload ?pb ?p, 0)" using e d by simp
  have ver: "cu_mEnabled (we_crypto env) \<Longrightarrow> ?v \<noteq> kInvalidSecKeyVersion"
    using assms(2) by (auto simp: crypto_ok_def keys_ok_def getLatestSecKeyVersion_def kOldestSecKeyVersion_def kInvalidSecKeyVersion_def)
  have same: "\<not> cu_mEnabled (we_crypto env) \<Longrightarrow> cipher = pb_payload ?pb ?p" using e by (simp add: encrypt_def)
  have parse: "pb_parsePayload ?pb (pb_payload ?pb ?p) = Some ?p" using assms(3) by (simp add: proto_ok_def)
  have evs: "map (decodeEvent ?pb u) (map (\<lambda>e. encodeEvent ?pb e empty_event_entry) es) = map (Some \<circ> wire_event) es"
    using assms(8) decode_encode_event[OF assms(3)] by (simp add: list_all_iff)
  show ?thesis
    using assms(5,6,9) plain ver same parse evs decode_encode_command[OF assms(3,7)]
    by (cases "cu_mEnabled (we_crypto env)") (simp_all add: bundles_of_def decryptEntry_def q')
qed

section \<open>Waiting for the leader to be ready\<close>

text \<open>
  A new leader processes commands only when everything before its own empty entry is applied. The
  loop reads the consensus module and the two indices of the store, loaded and applied, which other
  threads move: \<open>la\<close> gives their values at every read. \<open>leader_scan\<close> is the loop over the entries
  after the applied ones; it returns the position after its last read.
\<close>

function leader_scan :: "history \<Rightarrow> nat \<Rightarrow> nat \<Rightarrow> nat \<Rightarrow> nat \<Rightarrow> (nat \<times> bool) res" where
  "leader_scan h n index lastIndex expectedTerm =
     (if index > lastIndex then Inr (n, False)
      else case rv_entry (h n) index of None \<Rightarrow> Inl AssertFailed
        | Some e \<Rightarrow>
            if \<not> le_noop e then Inr (n + 1, False)
            else if index = lastIndex \<and> le_term e = expectedTerm then Inr (n + 1, True)
            else leader_scan h (n + 1) (index + 1) lastIndex expectedTerm)"
  by pat_completeness auto
termination
  by (relation "measure (\<lambda>(h, n, i, l, t). l + 1 - i)") auto

declare leader_scan.simps [simp del]

partial_function (option) waitTillLeaderIsReadyOrStepDown ::
  "history \<Rightarrow> (nat \<Rightarrow> nat \<times> nat) \<Rightarrow> nat \<Rightarrow> nat \<Rightarrow> nat res option" where
  "waitTillLeaderIsReadyOrStepDown h la n expectedTerm =
     (if rv_term (h n) \<noteq> expectedTerm then Some (Inr 0)
      else let lastIndex = rv_lastLogIndex (h (n + 1)); commitIndex = rv_commitIndex (h (n + 2));
               loadedIndex = fst (la (n + 3)); appliedIndex = snd (la (n + 4)) in
        if loadedIndex \<noteq> commitIndex \<or> commitIndex \<noteq> lastIndex
        then waitTillLeaderIsReadyOrStepDown h la (n + 5) expectedTerm
        else case leader_scan h (n + 5) (appliedIndex + 1) lastIndex expectedTerm of
            Inl f \<Rightarrow> Some (Inl f)
          | Inr r \<Rightarrow> if snd r then Some (Inr lastIndex)
                     else waitTillLeaderIsReadyOrStepDown h la (fst r) expectedTerm)"

declare waitTillLeaderIsReadyOrStepDown.simps [code]

text \<open>All entries of the range were read as empty ones, one after the other, the last of the expected term.\<close>

definition noops_read :: "history \<Rightarrow> nat \<Rightarrow> nat \<Rightarrow> nat \<Rightarrow> nat \<Rightarrow> bool" where
  "noops_read h n index lastIndex expectedTerm \<longleftrightarrow> index \<le> lastIndex \<and>
     (\<forall>i. index \<le> i \<and> i \<le> lastIndex \<longrightarrow> (\<exists>e. rv_entry (h (n + (i - index))) i = Some e \<and> le_noop e \<and>
        (i = lastIndex \<longrightarrow> le_term e = expectedTerm)))"

lemma noops_read_Suc:
  assumes "noops_read h (n + 1) (index + 1) lastIndex expectedTerm" "rv_entry (h n) index = Some e" "le_noop e"
  shows "noops_read h n index lastIndex expectedTerm"
  unfolding noops_read_def
proof (intro conjI allI impI)
  show "index \<le> lastIndex" using assms(1) by (simp add: noops_read_def)
  fix i
  assume i: "index \<le> i \<and> i \<le> lastIndex"
  show "\<exists>e. rv_entry (h (n + (i - index))) i = Some e \<and> le_noop e \<and> (i = lastIndex \<longrightarrow> le_term e = expectedTerm)"
  proof (cases "i = index")
    case True
    then show ?thesis using assms by (auto simp: noops_read_def)
  next
    case False
    then have "n + 1 + (i - (index + 1)) = n + (i - index)" "index + 1 \<le> i" using i by linarith+
    then show ?thesis using assms(1) i unfolding noops_read_def by metis
  qed
qed

lemma leader_scan_True:
  "leader_scan h n index lastIndex expectedTerm = Inr (m, True) \<Longrightarrow> noops_read h n index lastIndex expectedTerm"
proof (induction h n index lastIndex expectedTerm rule: leader_scan.induct)
  case (1 h n index lastIndex expectedTerm)
  from "1.prems" obtain e where e: "index \<le> lastIndex" "rv_entry (h n) index = Some e" "le_noop e"
    and r: "index = lastIndex \<and> le_term e = expectedTerm \<or>
      leader_scan h (n + 1) (index + 1) lastIndex expectedTerm = Inr (m, True)"
    by (subst (asm) leader_scan.simps) (auto split: if_splits option.splits)
  show ?case
  proof (cases "index = lastIndex \<and> le_term e = expectedTerm")
    case True
    then show ?thesis using e by (auto simp: noops_read_def)
  next
    case False
    then have "leader_scan h (n + 1) (index + 1) lastIndex expectedTerm = Inr (m, True)" using r by blast
    then have "noops_read h (n + 1) (index + 1) lastIndex expectedTerm"
      using "1.IH"[OF _ e(2) _ False] e(1,3) by simp
    then show ?thesis using noops_read_Suc e(2,3) by blast
  qed
qed

lemma leader_scan_later: "leader_scan h n index lastIndex expectedTerm = Inr (m, b) \<Longrightarrow> n \<le> m"
proof (induction h n index lastIndex expectedTerm rule: leader_scan.induct)
  case (1 h n index lastIndex expectedTerm)
  show ?case
    using "1.prems" "1.IH" by (subst (asm) leader_scan.simps) (fastforce split: if_splits option.splits)
qed

text \<open>What the loop has seen in its last round, which starts at the read \<open>m\<close>.\<close>

definition leader_ready :: "history \<Rightarrow> (nat \<Rightarrow> nat \<times> nat) \<Rightarrow> nat \<Rightarrow> nat \<Rightarrow> nat \<Rightarrow> bool" where
  "leader_ready h la m expectedTerm i \<longleftrightarrow> rv_term (h m) = expectedTerm \<and> rv_lastLogIndex (h (m + 1)) = i \<and>
     rv_commitIndex (h (m + 2)) = i \<and> fst (la (m + 3)) = i \<and>
     noops_read h (m + 5) (snd (la (m + 4)) + 1) i expectedTerm"

lemma wait_ready:
  assumes "waitTillLeaderIsReadyOrStepDown h la n expectedTerm = Some (Inr i)" "i \<noteq> 0"
  shows "\<exists>m \<ge> n. leader_ready h la m expectedTerm i"
proof -
  have "v = Inr i \<longrightarrow> (\<exists>m \<ge> n. leader_ready h la m expectedTerm i)"
    if "waitTillLeaderIsReadyOrStepDown h la n expectedTerm = Some v" for v
    using that
  proof (induction rule: waitTillLeaderIsReadyOrStepDown.raw_induct[rotated 1, consumes 1])
    case (1 f h la n expectedTerm v)
    let ?i = "rv_lastLogIndex (h (n + 1))"
    show ?case
    proof (cases "rv_term (h n) = expectedTerm \<and> fst (la (n + 3)) = rv_commitIndex (h (n + 2)) \<and> rv_commitIndex (h (n + 2)) = ?i")
      case False
      then have "v = Inr 0 \<or> f h la (n + 5) expectedTerm = Some v" using 1(2) by (auto simp: Let_def split: if_splits)
      then show ?thesis using 1(1)[of h la "n + 5" expectedTerm v] assms(2) by (auto intro: add_leD1)
    next
      case True
      show ?thesis
      proof (cases "leader_scan h (n + 5) (snd (la (n + 4)) + 1) ?i expectedTerm")
        case (Inl x)
        then show ?thesis using 1(2) True by (auto simp: Let_def)
      next
        case (Inr r)
        obtain k b where r: "r = (k, b)" by fastforce
        have "n + 5 \<le> k" using leader_scan_later Inr r by blast
        moreover have "b \<Longrightarrow> leader_ready h la n expectedTerm ?i"
          using True leader_scan_True Inr r by (auto simp: leader_ready_def)
        moreover have "if b then v = Inr ?i else f h la k expectedTerm = Some v"
          using 1(2) True Inr r by (auto simp: Let_def split: if_splits)
        ultimately show ?thesis using 1(1)[of h la k expectedTerm v] by (cases b) (auto, meson add_leD1 order_trans)
      qed
    qed
  qed
  with assms(1) show ?thesis by blast
qed

end
