(* ===== verification/Event_Example.thy ===== *)
theory Event_Example
  imports Command_Event Storage_Example "HOL-Library.Monad_Syntax"
begin

text \<open>
  A concrete codec for the messages of commands and events, with the proof that its parsers undo
  its writers (\<^const>\<open>proto_ok\<close>), and sample commands. The witnesses evaluate with it.
\<close>

section \<open>A codec\<close>

definition enc_list :: "('a \<Rightarrow> string) \<Rightarrow> 'a list \<Rightarrow> string" where
  "enc_list f xs = enc_nat (length xs) @ concat (map f xs)"

fun dec_times :: "(string \<Rightarrow> ('a \<times> string) option) \<Rightarrow> nat \<Rightarrow> string \<Rightarrow> ('a list \<times> string) option" where
  "dec_times d 0 s = Some ([], s)"
| "dec_times d (Suc n) s = do { (x, s) \<leftarrow> d s; (xs, s) \<leftarrow> dec_times d n s; Some (x # xs, s) }"

definition dec_list :: "(string \<Rightarrow> ('a \<times> string) option) \<Rightarrow> string \<Rightarrow> ('a list \<times> string) option" where
  "dec_list d s = do { (n, s) \<leftarrow> dec_nat s; dec_times d n s }"

lemma dec_enc_list [simp]:
  assumes "\<And>x r. d (f x @ r) = Some (x, r)"
  shows "dec_list d (enc_list f xs @ r) = Some (xs, r)"
proof -
  have "dec_times d (length ys) (concat (map f ys) @ t) = Some (ys, t)" for ys t
    by (induction ys) (simp_all add: assms)
  then show ?thesis by (simp add: dec_list_def enc_list_def)
qed

definition enc_bool :: "bool \<Rightarrow> string" where
  "enc_bool b = enc_nat (if b then 1 else 0)"

definition dec_bool :: "string \<Rightarrow> (bool \<times> string) option" where
  "dec_bool s = do { (n, s) \<leftarrow> dec_nat s; Some (n = 1, s) }"

lemma dec_enc_bool [simp]: "dec_bool (enc_bool b @ r) = Some (b, r)"
  by (simp add: dec_bool_def enc_bool_def)

definition enc_role :: "initial_raft_role \<Rightarrow> string" where
  "enc_role r = enc_nat (case r of IR_Voter \<Rightarrow> 0 | IR_Learner \<Rightarrow> 1 | IR_PreFollower \<Rightarrow> 2)"

definition dec_role :: "string \<Rightarrow> (initial_raft_role \<times> string) option" where
  "dec_role s = do { (n, s) \<leftarrow> dec_nat s; Some (if n = 0 then IR_Voter else if n = 1 then IR_Learner else IR_PreFollower, s) }"

lemma dec_enc_role [simp]: "dec_role (enc_role x @ r) = Some (x, r)"
  by (cases x) (simp_all add: dec_role_def enc_role_def)

definition enc_impact :: "impact \<Rightarrow> string" where
  "enc_impact i = enc_nat (rt_type (im_route i)) @ enc_list enc_nat (rt_groups (im_route i)) @
     enc_nat (rt_groupTotal (im_route i)) @ enc_nat (im_clusterId i) @ enc_bool (im_newCluster i)"

definition dec_impact :: "string \<Rightarrow> (impact \<times> string) option" where
  "dec_impact s = do { (t, s) \<leftarrow> dec_nat s; (g, s) \<leftarrow> dec_list dec_nat s; (n, s) \<leftarrow> dec_nat s;
     (c, s) \<leftarrow> dec_nat s; (b, s) \<leftarrow> dec_bool s;
     Some (\<lparr>im_route = \<lparr>rt_type = t, rt_groups = g, rt_groupTotal = n\<rparr>, im_clusterId = c, im_newCluster = b\<rparr>, s) }"

lemma dec_enc_impact [simp]: "dec_impact (enc_impact i @ r) = Some (i, r)"
  by (cases i; cases "im_route i") (simp add: dec_impact_def enc_impact_def)

definition enc_split :: "split_request \<Rightarrow> string" where
  "enc_split q = enc_nat (sq_epoch q) @ enc_str (sq_planId q) @ enc_list enc_impact (sq_impacts q)"

definition dec_split :: "string \<Rightarrow> (split_request \<times> string) option" where
  "dec_split s = do { (e, s) \<leftarrow> dec_nat s; (p, s) \<leftarrow> dec_str s; (i, s) \<leftarrow> dec_list dec_impact s;
     Some (\<lparr>sq_epoch = e, sq_planId = p, sq_impacts = i\<rparr>, s) }"

lemma dec_enc_split [simp]: "dec_split (enc_split q @ r) = Some (q, r)"
  by (cases q) (simp add: dec_split_def enc_split_def)

definition enc_member :: "member_proto \<Rightarrow> string" where
  "enc_member m = enc_nat (mp_id m) @ enc_str (mp_address m) @ enc_nat (mp_port m) @ enc_role (mp_role m)"

definition dec_member :: "string \<Rightarrow> (member_proto \<times> string) option" where
  "dec_member s = do { (i, s) \<leftarrow> dec_nat s; (a, s) \<leftarrow> dec_str s; (p, s) \<leftarrow> dec_nat s; (r, s) \<leftarrow> dec_role s;
     Some (\<lparr>mp_id = i, mp_address = a, mp_port = p, mp_role = r\<rparr>, s) }"

lemma dec_enc_member [simp]: "dec_member (enc_member m @ r) = Some (m, r)"
  by (cases m) (simp add: dec_member_def enc_member_def)

definition enc_reconfigure :: "reconfigure_request \<Rightarrow> string" where
  "enc_reconfigure q = enc_nat (rq_version q) @ enc_nat (cc_clusterId (rq_configuration q)) @
     enc_list enc_member (cc_members (rq_configuration q)) @ enc_list enc_nat (cc_oldMemberIds (rq_configuration q)) @
     enc_list enc_nat (cc_newMemberIds (rq_configuration q)) @ enc_list enc_nat (cc_inSyncLearners (rq_configuration q))"

definition dec_reconfigure :: "string \<Rightarrow> (reconfigure_request \<times> string) option" where
  "dec_reconfigure s = do { (v, s) \<leftarrow> dec_nat s; (c, s) \<leftarrow> dec_nat s; (m, s) \<leftarrow> dec_list dec_member s;
     (a, s) \<leftarrow> dec_list dec_nat s; (b, s) \<leftarrow> dec_list dec_nat s; (l, s) \<leftarrow> dec_list dec_nat s;
     Some (\<lparr>rq_version = v, rq_configuration = \<lparr>cc_clusterId = c, cc_members = m, cc_oldMemberIds = a,
       cc_newMemberIds = b, cc_inSyncLearners = l\<rparr>\<rparr>, s) }"

lemma dec_enc_reconfigure [simp]: "dec_reconfigure (enc_reconfigure q @ r) = Some (q, r)"
  by (cases q; cases "rq_configuration q") (simp add: dec_reconfigure_def enc_reconfigure_def)

definition enc_command_entry :: "command_entry \<Rightarrow> string" where
  "enc_command_entry e = enc_nat (ce_type e) @ enc_nat (ce_id e) @ enc_nat (ce_createdTimeInNanos e) @ enc_str (ce_entry e) @
     enc_nat (ce_creatorId e) @ enc_nat (ce_groupId e) @ enc_nat (ce_groupVersion e) @ enc_str (ce_trackingContext e)"

definition dec_command_entry :: "string \<Rightarrow> (command_entry \<times> string) option" where
  "dec_command_entry s = do { (t, s) \<leftarrow> dec_nat s; (i, s) \<leftarrow> dec_nat s; (c, s) \<leftarrow> dec_nat s; (e, s) \<leftarrow> dec_str s;
     (a, s) \<leftarrow> dec_nat s; (g, s) \<leftarrow> dec_nat s; (v, s) \<leftarrow> dec_nat s; (x, s) \<leftarrow> dec_str s;
     Some (\<lparr>ce_type = t, ce_id = i, ce_createdTimeInNanos = c, ce_entry = e, ce_creatorId = a, ce_groupId = g,
       ce_groupVersion = v, ce_trackingContext = x\<rparr>, s) }"

lemma dec_enc_command_entry [simp]: "dec_command_entry (enc_command_entry e @ r) = Some (e, r)"
  by (cases e) (simp add: dec_command_entry_def enc_command_entry_def)

definition enc_event_entry :: "event_entry \<Rightarrow> string" where
  "enc_event_entry e = enc_nat (ee_type e) @ enc_nat (ee_id e) @ enc_nat (ee_commandId e) @ enc_nat (ee_createdTimeInNanos e) @
     enc_str (ee_entry e) @ enc_nat (ee_creatorId e) @ enc_nat (ee_groupId e) @ enc_nat (ee_groupVersion e) @
     enc_str (ee_trackingContext e)"

definition dec_event_entry :: "string \<Rightarrow> (event_entry \<times> string) option" where
  "dec_event_entry s = do { (t, s) \<leftarrow> dec_nat s; (i, s) \<leftarrow> dec_nat s; (k, s) \<leftarrow> dec_nat s; (c, s) \<leftarrow> dec_nat s;
     (e, s) \<leftarrow> dec_str s; (a, s) \<leftarrow> dec_nat s; (g, s) \<leftarrow> dec_nat s; (v, s) \<leftarrow> dec_nat s; (x, s) \<leftarrow> dec_str s;
     Some (\<lparr>ee_type = t, ee_id = i, ee_commandId = k, ee_createdTimeInNanos = c, ee_entry = e, ee_creatorId = a,
       ee_groupId = g, ee_groupVersion = v, ee_trackingContext = x\<rparr>, s) }"

lemma dec_enc_event_entry [simp]: "dec_event_entry (enc_event_entry e @ r) = Some (e, r)"
  by (cases e) (simp add: dec_event_entry_def enc_event_entry_def)

text \<open>A message is parsed from the start of the string; what the parser leaves over is dropped.\<close>

definition whole :: "('a \<times> string) option \<Rightarrow> 'a option" where
  "whole r = map_option fst r"

definition toy_proto :: proto where
  "toy_proto = \<lparr>pb_increase = enc_nat, pb_parseIncrease = (\<lambda>s. case whole (dec_nat s) of None \<Rightarrow> 0 | Some v \<Rightarrow> v),
     pb_split = enc_split, pb_parseSplit = (\<lambda>s. case whole (dec_split s) of
        None \<Rightarrow> \<lparr>sq_epoch = 0, sq_planId = [], sq_impacts = []\<rparr> | Some q \<Rightarrow> q),
     pb_reconfigure = enc_reconfigure, pb_parseReconfigure = (\<lambda>s. case whole (dec_reconfigure s) of
        None \<Rightarrow> \<lparr>rq_version = 0, rq_configuration = \<lparr>cc_clusterId = 0, cc_members = [], cc_oldMemberIds = [],
          cc_newMemberIds = [], cc_inSyncLearners = []\<rparr>\<rparr> | Some q \<Rightarrow> q),
     pb_payload = (\<lambda>p. enc_command_entry (rp_command p) @ enc_list enc_event_entry (rp_events p)),
     pb_parsePayload = (\<lambda>s. whole (do { (c, s) \<leftarrow> dec_command_entry s; (es, s) \<leftarrow> dec_list dec_event_entry s;
        Some (\<lparr>rp_command = c, rp_events = es\<rparr>, s) }))\<rparr>"

lemma toy_proto_ok: "proto_ok toy_proto"
proof -
  have "dec_nat (enc_nat v) = Some (v, [])" "dec_split (enc_split q) = Some (q, [])"
    "dec_reconfigure (enc_reconfigure r) = Some (r, [])"
    "dec_list dec_event_entry (enc_list enc_event_entry es) = Some (es, [])" for v q r es
    using dec_enc_nat[of v "[]"] dec_enc_split[of q "[]"] dec_enc_reconfigure[of r "[]"]
      dec_enc_list[of dec_event_entry enc_event_entry es "[]"] by simp_all
  then show ?thesis by (simp add: proto_ok_def toy_proto_def whole_def)
qed

section \<open>Sample commands\<close>

definition sample_command :: "nat \<Rightarrow> nat \<Rightarrow> command" where
  "sample_command i v = setId i (Command 7 (IncreaseCommand v) 5)"

definition sample_event :: "nat \<Rightarrow> event" where
  "sample_event v = Event 7 (ProcessedEvent v) 6"

end
