(* ===== verification/Event_Properties.thy ===== *)
theory Event_Properties
  imports Readonly_Event_Store Event_Example Raft_Properties
begin

text \<open>
  Properties of the event store: the writer, the replies and the reader, alone and composed over
  the log on disk.
\<close>

section \<open>An environment and a history\<close>

definition sample_writer :: writer_env where
  "sample_writer = \<lparr>we_proto = toy_proto, we_ssl = toy_ssl, we_crypto = toy_crypto, we_byteSize = length \<circ> toy_serialize\<rparr>"

definition sample_view :: "nat \<Rightarrow> raft_view" where
  "sample_view term = \<lparr>rv_term = term, rv_role = Leader, rv_lastLogIndex = 1, rv_commitIndex = 1,
     rv_entry = (\<lambda>i. if i = 1 then Some (demo_entry 2 1 ''a'') else None), rv_leaderHint = Some 1, rv_running = True\<rparr>"

text \<open>The term changes from 1 to 2 after the first read.\<close>

definition sample_history :: history where
  "sample_history n = sample_view (if n = 0 then 1 else 2)"

lemma sample_grows: "terms_grow sample_history"
  by (simp add: terms_grow_def sample_history_def sample_view_def)

lemma sample_bounded: "rv_term (sample_history i) \<le> 2"
  by (simp add: sample_history_def sample_view_def)

section \<open>Writing\<close>

definition sample_persisted :: "persist_entry list" where
  "sample_persisted = [(sample_command 1 3, [sample_event 3],
     \<lparr>cr_mEntry = new_entry sample_writer (sample_command 1 3) 1 RaftLogStore, cr_mRequestHandle = None\<rparr>)]"

lemma sample_written:
  obtains s where "ls_run sample_writer sample_persisted s" "length (concat (ls_sent s)) = 1"
proof -
  have "(case ls_persistAsync sample_writer (sample_command 1 3) [sample_event 3] 1 None RaftLogStore of None \<Rightarrow> Inl AssertFailed
     | Some t \<Rightarrow> bindR (persistLoop_body sample_writer 6000000 t) (\<lambda>u. Inr (length (concat (ls_sent u))))) = Inr 1"
    by code_simp
  then obtain t u where t: "ls_persistAsync sample_writer (sample_command 1 3) [sample_event 3] 1 None RaftLogStore = Some t"
    and u: "persistLoop_body sample_writer 6000000 t = Inr u" "length (concat (ls_sent u)) = 1"
    by (auto split: option.splits)
  have "ls_run sample_writer sample_persisted t"
    using ls_persist[OF ls_start t] by (simp add: sample_persisted_def)
  from ls_loop[OF this u(1)] u(2) that show thesis by blast
qed

text \<open>
  C12. Nothing is lost, repeated or reordered on the way to the consensus module: whatever the
  command thread and the batch thread do in between, the requests handed over so far, followed by
  the batch being filled, are the prepared entries of a prefix of everything that was persisted,
  in order, and the rest is waiting in the queue.
\<close>

theorem log_store_keeps_order:
  assumes "ls_run env ps s"
  shows "\<exists>sent. ps = sent @ mq_items (ls_mPersistQueue s) \<and>
    map (prepare_entry env) sent = map Inr (concat (ls_sent s) @ ls_mBatch s)"
  using ls_run_order[OF assms] by (simp add: ls_order_def)

theorem log_store_keeps_order_witness:
  "\<exists>(s :: log_store) sent. length (concat (ls_sent s)) = 1 \<and> sample_persisted = sent @ mq_items (ls_mPersistQueue s) \<and>
     map (prepare_entry sample_writer) sent = map Inr (concat (ls_sent s) @ ls_mBatch s)"
proof -
  obtain s where "ls_run sample_writer sample_persisted s" "length (concat (ls_sent s)) = 1" by (rule sample_written)
  with log_store_keeps_order[of sample_writer sample_persisted s] show ?thesis by blast
qed

lemma ls_run_entries:
  "ls_run env ps s \<Longrightarrow> (c, es, q) \<in> set ps \<Longrightarrow>
     le_version (cr_mEntry q) = getLatestSecKeyVersion (we_crypto env) \<and> \<not> le_noop (cr_mEntry q)"
  by (induction rule: ls_run.induct) (auto simp: new_entry_def)

definition bundle_of :: "persist_entry \<Rightarrow> command_events" where
  "bundle_of = (\<lambda>(c, es, q). (Some (wire_command c), map (Some \<circ> wire_event) es))"

definition persist_ok :: "persist_entry \<Rightarrow> bool" where
  "persist_ok = (\<lambda>(c, es, q). command_ok c \<and> list_all event_ok es \<and> es \<noteq> [])"

lemma bundles_prepared:
  assumes "openssl_ok (we_ssl env)" "crypto_ok (we_crypto env)" "proto_ok (we_proto env)"
  shows "map (prepare_entry env) sent = map Inr rs \<Longrightarrow> ls_run env (sent @ rest) s \<Longrightarrow> list_all persist_ok sent \<Longrightarrow>
    map (bundles_of env u \<circ> cr_mEntry) rs = map (\<lambda>p. [bundle_of p]) sent"
proof -
  assume a: "map (prepare_entry env) sent = map Inr rs" "ls_run env (sent @ rest) s" "list_all persist_ok sent"
  have len: "length rs = length sent" using a(1) by (metis length_map)
  have "bundles_of env u (cr_mEntry (rs ! i)) = [bundle_of (sent ! i)]" if i: "i < length sent" for i
  proof -
    obtain c es q where p: "sent ! i = (c, es, q)" by (cases "sent ! i") auto
    have mem: "(c, es, q) \<in> set sent" using i p by (metis nth_mem)
    have "prepare_entry env (c, es, q) = Inr (rs ! i)" using arg_cong[OF a(1), of "\<lambda>l. l ! i"] i len p by simp
    moreover have "persist_ok (c, es, q)" using a(3) mem by (auto simp: list_all_iff)
    moreover have "le_version (cr_mEntry q) = getLatestSecKeyVersion (we_crypto env) \<and> \<not> le_noop (cr_mEntry q)"
      using ls_run_entries[OF a(2), of c es q] mem by simp
    ultimately show ?thesis using decrypt_prepared[OF assms] p by (simp add: persist_ok_def bundle_of_def)
  qed
  then show ?thesis using len by (intro nth_equalityI) simp_all
qed

text \<open>
  C11. What is persisted is what is read back. Whenever the writer has handed requests to the
  consensus module, decrypting and decoding their entries gives the commands and events that were
  persisted, in order and in full, except for the fields that an entry does not carry: the
  local processing times and the request handle.
\<close>

theorem persisted_bundles_read_back:
  assumes "openssl_ok (we_ssl env)" and "crypto_ok (we_crypto env)" and "proto_ok (we_proto env)"
    and "ls_run env ps s" and "list_all persist_ok ps"
  shows "concat (map (bundles_of env u \<circ> cr_mEntry) (concat (ls_sent s))) = map bundle_of (take (length (concat (ls_sent s))) ps)"
proof -
  obtain sent where sent: "ps = sent @ mq_items (ls_mPersistQueue s)"
    "map (prepare_entry env) sent = map Inr (concat (ls_sent s) @ ls_mBatch s)"
    using ls_run_order[OF assms(4)] by (auto simp: ls_order_def)
  let ?k = "length (concat (ls_sent s))"
  have len: "?k \<le> length sent" using arg_cong[OF sent(2), of length] by simp
  have "map (prepare_entry env) (take ?k sent) = map Inr (concat (ls_sent s))"
    using arg_cong[OF sent(2), of "take ?k"] by (simp add: take_map)
  moreover have "ls_run env (take ?k sent @ drop ?k sent @ mq_items (ls_mPersistQueue s)) s"
    using assms(4) sent(1) by (simp flip: append_assoc)
  moreover have "list_all persist_ok (take ?k sent)" using assms(5) sent(1) by (auto simp: list_all_iff dest: in_set_takeD)
  ultimately have "map (bundles_of env u \<circ> cr_mEntry) (concat (ls_sent s)) = map (\<lambda>p. [bundle_of p]) (take ?k sent)"
    by (rule bundles_prepared[OF assms(1,2,3)])
  moreover have "concat (map (\<lambda>p. [f p]) xs) = map f xs" for f :: "persist_entry \<Rightarrow> command_events" and xs by (induction xs) auto
  ultimately show ?thesis using len sent(1) by simp
qed

theorem persisted_bundles_read_back_witness:
  "\<exists>s :: log_store. concat (map (bundles_of sample_writer 9 \<circ> cr_mEntry) (concat (ls_sent s))) =
     [(Some (wire_command (sample_command 1 3)), [Some (wire_event (sample_event 3))])]"
proof -
  obtain s where s: "ls_run sample_writer sample_persisted s" "length (concat (ls_sent s)) = 1" by (rule sample_written)
  have ok: "list_all persist_ok sample_persisted" by code_simp
  have env: "openssl_ok (we_ssl sample_writer)" "crypto_ok (we_crypto sample_writer)" "proto_ok (we_proto sample_writer)"
    by (simp_all add: sample_writer_def toy_ssl_ok toy_crypto_ok toy_proto_ok)
  show ?thesis
    using persisted_bundles_read_back[OF env s(1) ok, of 9]
    by (intro exI[of _ s]) (simp add: s(2) sample_persisted_def bundle_of_def)
qed

section \<open>Term and role\<close>

text \<open>
  C15. Refreshing returns as long as the term does not grow for ever, and what the store then holds
  was true of the consensus module at one moment during the call: the term and the role together,
  although they are read one after the other. The one exception is a leader that is seen to step
  down before its term changes, which the store does not report.
\<close>

theorem refresh_returns_consistent_pair:
  assumes "terms_grow h" and "\<And>i. rv_term (h i) \<le> B"
  shows "\<exists>n' t. refresh h n s = Some (n', t) \<and> n < n' \<and>
    (\<exists>k. n \<le> k \<and> k < n' \<and>
       (ls_mLogStoreTerm t = rv_term (h k) \<and> ls_mLogStoreRole t = rv_role (h k) \<or>
        t = s \<and> ls_mLogStoreTerm s = rv_term (h k) \<and> ls_mLogStoreRole s = Leader \<and> rv_role (h k) \<noteq> Leader))"
proof -
  obtain m where m: "stable_term h n = Some m" using stable_term_returns[OF assms] by blast
  have c: "n \<le> m" "rv_term (h (m + 1)) = rv_term (h m)" using stable_term_consistent[OF assms(1) m] by auto
  show ?thesis
    by (rule exI[of _ "m + 3"], rule exI, rule conjI, simp add: refresh_def m, rule conjI, use c(1) in simp,
        rule exI[of _ "m + 1"]) (use c in auto)
qed

theorem refresh_returns_consistent_pair_witness:
  "\<exists>n' t. refresh sample_history 0 RaftLogStore = Some (n', t) \<and> 0 < n' \<and>
     ls_mLogStoreTerm t = 2 \<and> ls_mLogStoreRole t = Leader"
proof -
  obtain n' t k where r: "refresh sample_history 0 RaftLogStore = Some (n', t)" "0 < n'"
    and k: "ls_mLogStoreTerm t = rv_term (sample_history k) \<and> ls_mLogStoreRole t = rv_role (sample_history k) \<or>
      ls_mLogStoreRole RaftLogStore = Leader"
    using refresh_returns_consistent_pair[OF sample_grows sample_bounded, of 0 RaftLogStore] by blast
  have "map_option (ls_mLogStoreTerm \<circ> snd) (refresh sample_history 0 RaftLogStore) = Some 2" by code_simp
  then show ?thesis using r k by (auto simp: RaftLogStore_def sample_history_def sample_view_def split: if_splits)
qed

text \<open>
  C14. Detecting a transition never fails one of its assertions and always returns: terms never
  fall and a leader is never seen to lose its role within its term, at any moment of the life of
  an event store and whatever the consensus module does meanwhile. The answer tells the command
  loop whether the node now leads, and leadership is only kept without a change of term if it was
  held before.
\<close>

theorem transition_detected:
  assumes "es_run env h n s" and "terms_grow h" and "\<And>i. rv_term (h i) \<le> B"
  shows "\<exists>m tr t. detectTransition h n s = Some (m, Inr (tr, t)) \<and>
    es_mLastCheckedTerm s \<le> es_mLastCheckedTerm t \<and>
    (es_mLastCheckedRole t = Leader \<longleftrightarrow> tr \<in> {SameLeader, FollowerToLeader, OldLeaderToNewLeader}) \<and>
    (tr = SameLeader \<longrightarrow> es_mLastCheckedRole s = Leader \<and> es_mLastCheckedTerm t = es_mLastCheckedTerm s)"
proof -
  have ok: "es_ok h n s" using es_run_ok[OF assms(1,2)] .
  obtain k where k: "stable_term h n = Some k" using stable_term_returns[OF assms(2,3)] by blast
  then obtain m l where r: "refresh h n (es_mRaftLogStore s) = Some (m, l)"
    by (simp add: refresh_def)
  note step = refresh_step[OF assms(2) r]
  show ?thesis
    using ok step by (auto simp: detectTransition_def r es_ok_def Let_def)
qed

theorem transition_detected_witness:
  "\<exists>m tr t. detectTransition sample_history 0 RaftCommandEventStore = Some (m, Inr (tr, t)) \<and>
     es_mLastCheckedRole t = Leader \<and> tr \<in> {SameLeader, FollowerToLeader, OldLeaderToNewLeader}"
proof -
  obtain m tr t where d: "detectTransition sample_history 0 RaftCommandEventStore = Some (m, Inr (tr, t))"
    and r: "es_mLastCheckedRole t = Leader \<longleftrightarrow> tr \<in> {SameLeader, FollowerToLeader, OldLeaderToNewLeader}"
    using transition_detected[OF es_start[of sample_writer] sample_grows sample_bounded, of 0] by blast
  have "map_option (map_sum id (es_mLastCheckedRole \<circ> snd) \<circ> snd) (detectTransition sample_history 0 RaftCommandEventStore)
      = Some (Inr Leader)" by code_simp
  then show ?thesis using d r by auto
qed

section \<open>Replies\<close>

definition sample_asked :: reply_loop where
  "sample_asked = claim 0 (pushTask 1 2 (Some 4) [sample_event 3] 200 ''Success'' RaftReplyLoop)"

lemma sample_wait: "waitTillCommittedOrQuit sample_history 1 1 2 = Some (7, Inr True)"
proof -
  have "stable_term sample_history 2 = Some 2" by code_simp
  then show ?thesis
    by (subst waitTillCommittedOrQuit.simps) (simp add: numeral_2_eq_2 [symmetric] sample_history_def sample_view_def demo_entry_def)
qed

lemma sample_answered:
  obtains s r where "(rl_step sample_history)\<^sup>*\<^sup>* RaftReplyLoop s" "rl_replies s = [(0, r)]" "rp_committed r" "rl_mTaskQueue s = []"
proof -
  let ?t = "snd (hd (rl_mTaskQueue sample_asked))"
  have "tk_index ?t = 1" "tk_term ?t = 2"
    by (simp_all add: sample_asked_def claim_def pushTask_def RaftReplyLoop_def set_task_def)
  then obtain m t' r where r: "replyTask sample_history 1 ?t = Some (m, Inr (t', r))" "tk_flag t' = 2" "rp_committed r"
    using sample_wait by (simp add: replyTask_def Let_def)
  have h: "rl_held sample_asked 0 = Some 0" "map_of (rl_mTaskQueue sample_asked) 0 = Some ?t"
    by (simp_all add: sample_asked_def claim_def pushTask_def RaftReplyLoop_def set_task_def)
  let ?u = "finish 0 t' r sample_asked"
  have asked: "(rl_step sample_history)\<^sup>*\<^sup>* RaftReplyLoop sample_asked"
    unfolding sample_asked_def
    by (rule rtranclp.rtrancl_into_rtrancl[OF r_into_rtranclp[of "rl_step sample_history"]], rule rl_push, rule rl_claim)
      (simp_all add: mConcurrency_def pushTask_def RaftReplyLoop_def)
  have "rl_step sample_history sample_asked ?u" by (rule rl_finish[OF _ h r(1)]) (simp add: mConcurrency_def)
  then have run: "(rl_step sample_history)\<^sup>*\<^sup>* RaftReplyLoop (pop_front (pop_look ?u))"
    using asked by (meson rl_look rl_pop rtranclp.rtrancl_into_rtrancl)
  have "rl_replies ?u = [(0, r)]" "rl_mTaskQueue ?u = [(0, t')]"
    using h(1) by (simp_all add: finish_def sample_asked_def claim_def pushTask_def RaftReplyLoop_def set_task_def)
  then have "rl_replies (pop_front (pop_look ?u)) = [(0, r)]" "rl_mTaskQueue (pop_front (pop_look ?u)) = []"
    using r(2) by (simp_all add: pop_front_def pop_look_def)
  with run r(3) that show thesis by blast
qed



section \<open>Reading\<close>

text \<open>
  C10. Every committed bundle is delivered exactly once and in order. The reader starts at an
  offset, loads by itself or through the load thread and the decryption threads, in any
  interleaving, from a node on disk whose committed entries are part of one sequence: what it has
  handed out, followed by what its cache and its tasks still hold, are the bundles of the
  committed entries after the offset, up to the index loaded last.
\<close>

theorem bundles_delivered_in_order:
  assumes "setCurrentOffset start (ReadonlyRaftCommandEventStore async) = Inr s0"
    and "reads env u (raft_source (seg_ops se)) (shows_committed se C) (\<lambda>s. al_first (sl_abs se (mLog s))) s0 out s"
  shows "out @ pending env u s = committed_bundles env u C start (ro_mLoadedIndex s)"
  using reads_committed[OF assms] by (simp add: reader_ok_def)

definition sample_entry :: log_entry where
  "sample_entry = (case prepare_entry sample_writer (hd sample_persisted) of Inr q \<Rightarrow> cr_mEntry q | Inl _ \<Rightarrow> demo_entry 1 1 [])"

definition sample_reader :: readonly_store where
  "sample_reader = (ReadonlyRaftCommandEventStore False)\<lparr>ro_mAppliedIndex := 0, ro_mLoadedIndex := 0\<rparr>"

theorem bundles_delivered_in_order_witness:
  "\<exists>b t. reads sample_writer 9 (raft_source (seg_ops toy_env)) (shows_committed toy_env (\<lambda>i. sample_entry))
       (\<lambda>s. al_first (sl_abs toy_env (mLog s))) sample_reader [b] t \<and> ro_mLoadedIndex t = 1 \<and>
     [b] @ pending sample_writer 9 t = committed_bundles sample_writer 9 (\<lambda>i. sample_entry) 0 1"
proof -
  have "bindR (SegmentLog_open toy_env ''log'' 192 192 None None None []) (\<lambda>l0. bindR (sl_appendEntries toy_env [sample_entry] l0) (\<lambda>(l, b).
      bindR (loadNextCommandEvents sample_writer 9 (raft_source (seg_ops toy_env)) ((demo_node Follower l)\<lparr>mCommitIndex := 1\<rparr>) sample_reader)
        (\<lambda>(r, c, t). Inr (b \<and> c \<noteq> None \<and> ro_mLoadedIndex t = 1)))) = Inr True"
    by code_simp
  then obtain l0 l r b t where d: "SegmentLog_open toy_env ''log'' 192 192 None None None [] = Inr l0"
      "sl_appendEntries toy_env [sample_entry] l0 = Inr (l, True)"
      "loadNextCommandEvents sample_writer 9 (raft_source (seg_ops toy_env)) ((demo_node Follower l)\<lparr>mCommitIndex := 1\<rparr>) sample_reader
        = Inr (r, Some b, t)" "ro_mLoadedIndex t = 1"
    by (elim resE) auto
  have "limits_ok toy_env 192 192" by (simp add: limits_ok_def toy_env_def)
  from durable_fresh[OF toy_env_ok this d(1)] have l0: "sl_inv toy_env l0"
      "sl_abs toy_env l0 = \<lparr>al_first = 1, al_entries = [], al_term = 0, al_vote = 0\<rparr>"
    by (simp_all add: sl_durable_def)
  have l: "sl_inv toy_env l" "sl_abs toy_env l = \<lparr>al_first = 1, al_entries = [sample_entry], al_term = 0, al_vote = 0\<rparr>"
    using sl_appendEntries_ok[OF l0(1) d(2)] l0(2) by (simp_all add: al_append_def)
  have vis: "shows_committed toy_env (\<lambda>i. sample_entry) ((demo_node Follower l)\<lparr>mCommitIndex := 1\<rparr>)"
    using l by (auto simp: shows_committed_def source_ok_def al_last_def al_at_def)
  have run: "reads sample_writer 9 (raft_source (seg_ops toy_env)) (shows_committed toy_env (\<lambda>i. sample_entry))
      (\<lambda>s. al_first (sl_abs toy_env (mLog s))) sample_reader [b] t"
    using rd_next[where visible = "shows_committed toy_env (\<lambda>i. sample_entry)" and
        first = "\<lambda>s. al_first (sl_abs toy_env (mLog s))", OF rd_start vis _ d(3)] l(2) by simp
  have off: "setCurrentOffset 0 (ReadonlyRaftCommandEventStore False) = Inr sample_reader"
    by (simp add: setCurrentOffset_def ReadonlyRaftCommandEventStore_def sample_reader_def)
  show ?thesis using bundles_delivered_in_order[OF off run] run d(4) by (intro exI[of _ b] exI[of _ t]) simp
qed

section \<open>The leader\<close>

definition ready_history :: history where
  "ready_history n = (sample_view 2)\<lparr>rv_entry := (\<lambda>i. if i = 1 then Some ((demo_entry 2 1 [])\<lparr>le_noop := True\<rparr>) else None)\<rparr>"

text \<open>
  C16. A new leader starts to process commands only on the complete state of its predecessors. When
  the wait returns an index, it has seen, in its last round, the node still in the expected term,
  the log loaded and committed up to that index, which is the last one, and after the applied
  entries nothing but empty entries, the last of them from the expected term.
\<close>

theorem leader_waits_until_applied:
  assumes "waitTillLeaderIsReadyOrStepDown h la n expectedTerm = Some (Inr i)" and "i \<noteq> 0"
  shows "\<exists>m. n \<le> m \<and> rv_term (h m) = expectedTerm \<and> rv_lastLogIndex (h (m + 1)) = i \<and>
    rv_commitIndex (h (m + 2)) = i \<and> fst (la (m + 3)) = i \<and> snd (la (m + 4)) < i \<and>
    (\<forall>j. snd (la (m + 4)) < j \<and> j \<le> i \<longrightarrow>
       (\<exists>k e. m < k \<and> rv_entry (h k) j = Some e \<and> le_noop e \<and> (j = i \<longrightarrow> le_term e = expectedTerm)))"
proof -
  obtain m where m: "n \<le> m" "leader_ready h la m expectedTerm i" using wait_ready[OF assms] by blast
  have r: "snd (la (m + 4)) + 1 \<le> i" "\<And>j. snd (la (m + 4)) + 1 \<le> j \<Longrightarrow> j \<le> i \<Longrightarrow>
      \<exists>e. rv_entry (h (m + 5 + (j - (snd (la (m + 4)) + 1)))) j = Some e \<and> le_noop e \<and> (j = i \<longrightarrow> le_term e = expectedTerm)"
    using m(2) unfolding leader_ready_def noops_read_def by blast+
  have "\<exists>k e. m < k \<and> rv_entry (h k) j = Some e \<and> le_noop e \<and> (j = i \<longrightarrow> le_term e = expectedTerm)"
    if "snd (la (m + 4)) < j" "j \<le> i" for j
    using r(2)[of j] that by (intro exI[of _ "m + 5 + (j - (snd (la (m + 4)) + 1))"]) auto
  then show ?thesis using m r(1) by (intro exI[of _ m]) (auto simp: leader_ready_def)
qed

theorem leader_waits_until_applied_witness:
  "waitTillLeaderIsReadyOrStepDown ready_history (\<lambda>_. (1, 0)) 0 2 = Some (Inr 1) \<and>
   (\<exists>m. rv_term (ready_history m) = 2 \<and> rv_commitIndex (ready_history (m + 2)) = 1 \<and>
      (\<exists>k e. m < k \<and> rv_entry (ready_history k) 1 = Some e \<and> le_noop e \<and> le_term e = 2))"
proof -
  have scan: "leader_scan ready_history 5 1 1 2 = Inr (6, True)" by code_simp
  have w: "waitTillLeaderIsReadyOrStepDown ready_history (\<lambda>_. (1, 0)) 0 2 = Some (Inr 1)"
    using scan by (subst waitTillLeaderIsReadyOrStepDown.simps) (simp add: ready_history_def sample_view_def)
  from leader_waits_until_applied[OF w] w show ?thesis by auto
qed

end
