(* ===== verification/Spec2Isabelle.thy ===== *)
theory Spec2Isabelle
  imports Election_Properties Event_Properties
begin

text \<open>
  Gringofts is a framework for replicated event-sourcing services. An application turns client
  requests into commands and commands into events; a bundle of a command and its events is written
  to a log that a Raft consensus module replicates; committed bundles are read back and applied.
  All paths below are relative to \<^verbatim>\<open>src/src\<close>; \<^verbatim>\<open>infra\<close> is left out where it is clear.

  \<^bold>\<open>Parts and theories.\<close>
  \<^item> Vocabulary: \<^verbatim>\<open>Raft_Prelude\<close> (faults, results, 64-bit arithmetic, ordered containers) and
    \<^verbatim>\<open>Decimal\<close> (numbers in file names). A fault is a failed assertion, an uncaught exception or an
    access out of bounds; every operation that can fault returns \<^verbatim>\<open>fault + 'a\<close>. Release builds of the
    program keep assertions, so a failed one ends the process.
  \<^item> Storage (\<^verbatim>\<open>raft/storage\<close>): \<^verbatim>\<open>Log_Store\<close> has the interface \<^verbatim>\<open>class Log\<close> as a record of functions, the
    abstract log and the contract as the locales \<^verbatim>\<open>log_store\<close> and \<^verbatim>\<open>log_store_total\<close>; \<^verbatim>\<open>InMemoryLog\<close>,
    \<^verbatim>\<open>Segment\<close> and \<^verbatim>\<open>SegmentLog\<close> translate the implementations; \<^verbatim>\<open>Segment_Rep\<close> and \<^verbatim>\<open>SegmentLog_Rep\<close>
    prove that they represent an abstract log; \<^verbatim>\<open>SegmentLog_Recovery\<close> and \<^verbatim>\<open>SegmentLog_Durable\<close> treat
    restarts. \<^verbatim>\<open>Crypto\<close> is \<^verbatim>\<open>util/CryptoUtil\<close> and the secret keys.
  \<^item> Consensus (\<^verbatim>\<open>raft/v2/RaftCore\<close>): \<^verbatim>\<open>Raft_Types\<close> (state and messages), \<^verbatim>\<open>Raft_Quorum\<close> (majorities, plain
    and joint), \<^verbatim>\<open>Raft_Core\<close> (start, handlers, timers, main loop), \<^verbatim>\<open>Raft_Core_Inv\<close> (what a round
    keeps, for any log that meets the contract), \<^verbatim>\<open>Raft_Replication\<close> (the merge of a request and the
    commit rule), \<^verbatim>\<open>Raft_Ballot\<close> and \<^verbatim>\<open>Raft_Election\<close> (a cluster of nodes with a network that delays,
    loses, repeats and reorders vote messages, with crashes and restarts).
  \<^item> Configuration and control: \<^verbatim>\<open>Cluster_Info\<close> and \<^verbatim>\<open>Cluster_Config\<close> (\<^verbatim>\<open>util/ClusterInfo\<close>), \<^verbatim>\<open>Control\<close>
    (\<^verbatim>\<open>app_util/AppInfo\<close> and \<^verbatim>\<open>app_util/control\<close>).
  \<^item> Event store: \<^verbatim>\<open>Mpsc_Queue\<close> (\<^verbatim>\<open>mpscqueue\<close>), \<^verbatim>\<open>Command_Event\<close> (\<^verbatim>\<open>es\<close>: metadata, encoders, decoders),
    \<^verbatim>\<open>Raft_Log_Store\<close> (\<^verbatim>\<open>raft/RaftLogStore\<close>), \<^verbatim>\<open>Raft_Event_Store\<close> (\<^verbatim>\<open>raft/RaftReplyLoop\<close> and
    \<^verbatim>\<open>es/store/RaftCommandEventStore\<close>), \<^verbatim>\<open>Readonly_Event_Store\<close>
    (\<^verbatim>\<open>es/store/ReadonlyRaftCommandEventStore\<close>, reading from the consensus module through the locale
    \<^verbatim>\<open>entry_source\<close>).
  \<^item> Examples: \<^verbatim>\<open>Storage_Example\<close> and \<^verbatim>\<open>Event_Example\<close> give concrete codecs and a toy cipher that meet
    the assumptions made of the generated and third-party code.

  \<^bold>\<open>State and effects.\<close> An object is a record with the field names of the class, an operation a
  function from the old to the new record. Messages to send and answers to clients are collected in
  the state; clock and random source are functions of a tick counter. The threads of the event store
  are step relations whose steps are the critical sections of the code. What these threads read from
  the consensus module through lock-free getters is a history: one view for each read, so that two
  reads in a row may see different moments. A round of the loading thread is one step.

  \<^bold>\<open>What is shown.\<close>
  \<^item> Storage: the logs refine the abstract log (append, truncate, read); a log is reopened with its
    contents after any run; a crash in an append loses unwritten records only; entries whose digest is
    wrong are not handed out; encryption is undone by decryption.
  \<^item> One node: committed entries stay, one vote per term, an accepted request computes the reference
    merge and agrees with the leader's entries, the commit rule, the timers, refusals.
  \<^item> A cluster: at most one leader in a term, for a fixed membership.
  \<^item> Configuration: text and message round trips, reconfiguration keeps voters, the control state
    survives a snapshot.
  \<^item> Event store: persisted bundles reach the consensus module in order and are read back as written;
    each task is answered once, and a success only for a committed entry; a reader delivers each
    committed bundle once and in order, with any interleaving of its threads; a change of leadership
    is detected without failing an assertion; a new leader waits until everything before its own
    entry is applied.
  \<^item> Defects: several properties prove a fault or a loss on a concrete or general input.

  \<^bold>\<open>Bounds and loops.\<close> There is no fuel. Loops are structural or have a termination proof. Three loops
  poll the consensus module and may run for ever; they are partial functions in the option type.
  Reading a stable term is proved to return when the terms are bounded; the waits for a commit and
  for a leader depend on progress of other nodes, and only their results are characterised.
  Unsigned subtraction wraps where the code can go below zero; counters that only grow (terms,
  indices, ids) are natural numbers.

  \<^bold>\<open>Not under \<^verbatim>\<open>src\<close>, hence arguments.\<close> The protobuf serialisation, OpenSSL, the INI and JSON readers,
  the configuration store and the system calls, with their documented behaviour as named hypotheses
  (\<^verbatim>\<open>env_ok\<close>, \<^verbatim>\<open>openssl_ok\<close>, \<^verbatim>\<open>proto_ok\<close>).

  \<^bold>\<open>Not modelled.\<close> The gRPC servers and clients (\<^verbatim>\<open>raft/v2/RaftService\<close> apart from its messages,
  \<^verbatim>\<open>RaftClient\<close>, \<^verbatim>\<open>StreamingService\<close>, \<^verbatim>\<open>forward\<close>, \<^verbatim>\<open>app_util\<close> receivers, \<^verbatim>\<open>NetAdminServer\<close>, \<^verbatim>\<open>sync\<close>) and the
  command line tools: input and output around the modelled handlers. Metrics and logging: no effect on
  the state. The SQLite stores, used for local tests, and snapshot files: calls into SQLite and the
  file system. The loops \<^verbatim>\<open>CommandProcessLoop\<close> and \<^verbatim>\<open>EventApplyLoop\<close> and the demo application: they drive
  a state machine of the application with the modelled stores, and their snapshots rest on RocksDB
  and files. The signal dispatch (\<^verbatim>\<open>util/Signal\<close>, \<^verbatim>\<open>raft/RaftSignal\<close>) is left out. Memory ordering below
  the level of locks and atomics, and weak memory, are not modelled.
\<close>

section \<open>Runs of a node\<close>

definition demo_members :: membership where
  "demo_members = \<lparr>ms_mPeers = [], ms_mInitialRoles = [(1, Follower)],
     ms_mSelfInfo = \<lparr>mi_mId = 1, mi_mAddress = ''a:1''\<rparr>, ms_mClients = [], ms_mOldMembers = [],
     ms_mNewMembers = [], ms_mInsyncLearners = []\<rparr>"

definition demo_log :: inmemory_log where
  "demo_log = \<lparr>ml_mLog = [noop_entry 0 1 1 0], ml_mFirstIndex = 1, ml_mLastIndex = 1, ml_mTerm = 1, ml_mVoteFor = 1\<rparr>"

definition demo_leader :: "inmemory_log raft_core" where
  "demo_leader = (raft_core_fields Leader demo_log)\<lparr>mLeaderId := 1, mClusterMembers := db_init demo_members,
     mPendingClientRequests := [(1, Some 7)]\<rparr>"

definition demo_committed :: "inmemory_log raft_core" where
  "demo_committed = demo_leader\<lparr>mCommitIndex := 1, mPendingClientRequests := [],
     mEffects := [ReplyClient 7 200 ''Success'' 1], mTick := 1\<rparr>"

lemma demo_round: "raftLoopBody demo_env (mem_ops bs) demo_leader = Inr demo_committed"
  by code_simp

lemma demo_run: "(node_step demo_env (mem_ops bs))\<^sup>*\<^sup>* demo_leader demo_committed"
  by (rule r_into_rtranclp, rule ns_loop, rule demo_round)

lemma demo_ok: "raft_ok mem_abs mem_inv demo_leader"
  by (simp add: raft_ok_def mem_inv_def demo_leader_def raft_core_fields_def demo_log_def noop_entry_def)

text \<open>
  C2. Along every run of a node the commit index never decreases and never leaves the log,
  and an entry that was committed stays at its index, unless it is compacted away as part of
  a prefix.
\<close>

theorem committed_entries_stay:
  assumes "(node_step env (mem_ops bs))\<^sup>*\<^sup>* s t" and "raft_ok mem_abs mem_inv s"
  shows "mCommitIndex s \<le> mCommitIndex t \<and> mCommitIndex t \<le> al_last (mem_abs (mLog t)) \<and>
    (\<forall>i. al_has (mem_abs (mLog s)) i \<and> i \<le> mCommitIndex s \<and> al_first (mem_abs (mLog t)) \<le> i \<longrightarrow>
      al_has (mem_abs (mLog t)) i \<and> al_at (mem_abs (mLog t)) i = al_at (mem_abs (mLog s)) i)"
  using assms by (rule mem.node_run_commit)

theorem committed_entries_stay_witness:
  "mCommitIndex demo_leader \<le> mCommitIndex demo_committed \<and>
   mCommitIndex demo_committed \<le> al_last (mem_abs (mLog demo_committed))"
  using committed_entries_stay[OF demo_run[of "\<lambda>e. 1"] demo_ok] by blast

text \<open>
  C3. Along every run of a node that is not a syncer the term never decreases, and a vote
  given in a term is never changed in that term: a node votes for at most one candidate per
  term, restarts of the timers, step-downs and elections included.
\<close>

theorem one_vote_per_term:
  assumes "(node_step env (mem_ops bs))\<^sup>*\<^sup>* s t" and "raft_ok mem_abs mem_inv s" and "mRaftRole s \<noteq> Syncer"
  shows "lo_getCurrentTerm (mem_ops bs) (mLog s) \<le> lo_getCurrentTerm (mem_ops bs) (mLog t) \<and>
    (lo_getCurrentTerm (mem_ops bs) (mLog s) = lo_getCurrentTerm (mem_ops bs) (mLog t) \<and>
       lo_getVote (mem_ops bs) (mLog s) \<noteq> 0 \<longrightarrow>
       lo_getVote (mem_ops bs) (mLog t) = lo_getVote (mem_ops bs) (mLog s))"
  using assms by (rule mem.node_run_vote)

theorem one_vote_per_term_witness:
  "lo_getCurrentTerm (mem_ops (\<lambda>e. 1)) (mLog demo_leader) \<le> lo_getCurrentTerm (mem_ops (\<lambda>e. 1)) (mLog demo_committed)"
  using one_vote_per_term[OF demo_run demo_ok, of "\<lambda>e. 1"] by (simp add: demo_leader_def raft_core_fields_def)

end
